(* ===== verification/Prelude.thy ===== *)
theory Prelude
  imports Main
begin

section \<open>Shared vocabulary of the TIDE development\<close>

text \<open>
  The Go vocabulary every component uses: 64-bit integers with wrap-around, byte strings with the
  operations of the packages \<open>strings\<close> and \<open>strconv\<close> the sources call, errors as message values,
  and the generic list lemmas the component proofs share.
\<close>

named_theorems go_simps \<open>unfolding rules for the modelled Go primitives\<close>
named_theorems record_frame \<open>which fields an operation leaves alone\<close>

subsection \<open>64-bit integers\<close>

text \<open>\<open>wrap64\<close> is the two's complement value an int64 holds after an arithmetic operation.\<close>

definition wrap64 :: "int \<Rightarrow> int" where
  "wrap64 i = (i + 2 ^ 63) mod 2 ^ 64 - 2 ^ 63"

definition in_int64 :: "int \<Rightarrow> bool" where
  "in_int64 i \<longleftrightarrow> - (2 ^ 63) \<le> i \<and> i < 2 ^ 63"

lemma wrap64_id: "in_int64 i \<Longrightarrow> wrap64 i = i"
  by (simp add: wrap64_def in_int64_def)

lemma wrap64_in_int64: "in_int64 (wrap64 i)"
proof -
  have "0 \<le> (i + 2 ^ 63) mod 2 ^ 64" "(i + 2 ^ 63) mod 2 ^ 64 < (2 ^ 64 :: int)"
    by (rule pos_mod_sign, simp, rule pos_mod_bound, simp)
  then show ?thesis
    by (simp add: wrap64_def in_int64_def)
qed

text \<open>Go's integer division truncates towards zero.\<close>

definition quot :: "int \<Rightarrow> int \<Rightarrow> int" where
  "quot a b = sgn a * sgn b * (\<bar>a\<bar> div \<bar>b\<bar>)"

definition rem :: "int \<Rightarrow> int \<Rightarrow> int" where
  "rem a b = a - quot a b * b"

lemma quot_nonneg: "0 \<le> a \<Longrightarrow> 0 < b \<Longrightarrow> quot a b = a div b"
  by (cases "a = 0") (simp_all add: quot_def)

lemma quot_neg: "a < 0 \<Longrightarrow> 0 < b \<Longrightarrow> quot a b = - ((- a) div b)"
  by (simp add: quot_def)

lemma rem_nonneg: "0 \<le> a \<Longrightarrow> 0 < b \<Longrightarrow> rem a b = a mod b"
  by (simp add: rem_def quot_nonneg minus_div_mult_eq_mod)

lemma rem_neg: "a < 0 \<Longrightarrow> 0 < b \<Longrightarrow> rem a b = - ((- a) mod b)"
  by (simp add: rem_def quot_neg minus_div_mult_eq_mod [symmetric])

subsection \<open>Errors\<close>

text \<open>
  A Go \<open>error\<close> is its message; the nil error is \<^term>\<open>None\<close>. \<open>fmt.Errorf\<close> with constant verbs
  becomes the concatenation it prints.
\<close>

type_synonym go_error = string

subsection \<open>Strings\<close>

text \<open>\<open>strings.Split\<close> for a one-byte separator: never empty, as in Go.\<close>

fun split_on :: "char \<Rightarrow> string \<Rightarrow> string list" where
  "split_on c [] = [[]]"
| "split_on c (x # xs) =
     (if x = c then [] # split_on c xs
      else (case split_on c xs of [] \<Rightarrow> [[x]] | s # ss \<Rightarrow> (x # s) # ss))"

fun join_with :: "char \<Rightarrow> string list \<Rightarrow> string" where
  "join_with c [] = []"
| "join_with c [s] = s"
| "join_with c (s # t # ss) = s @ c # join_with c (t # ss)"

definition has_prefix :: "string \<Rightarrow> string \<Rightarrow> bool" where
  "has_prefix s p \<longleftrightarrow> take (length p) s = p"

definition trim_prefix :: "string \<Rightarrow> string \<Rightarrow> string" where
  "trim_prefix s p = (if has_prefix s p then drop (length p) s else s)"

definition trim_suffix :: "string \<Rightarrow> string \<Rightarrow> string" where
  "trim_suffix s p =
     (if length p \<le> length s \<and> drop (length s - length p) s = p
      then take (length s - length p) s else s)"

text \<open>\<open>strings.TrimSpace\<close> on ASCII text.\<close>

definition is_space :: "char \<Rightarrow> bool" where
  "is_space c \<longleftrightarrow> c \<in> {CHR 0x09, CHR 0x0A, CHR 0x0B, CHR 0x0C, CHR 0x0D, CHR '' ''}"

definition TrimSpace :: "string \<Rightarrow> string" where
  "TrimSpace s = rev (dropWhile is_space (rev (dropWhile is_space s)))"

text \<open>The verb \<open>%q\<close> on printable ASCII text, which error messages quote.\<close>

definition quoted :: "string \<Rightarrow> string" where
  "quoted s =
     (let dq = char_of (34 :: nat); bs = char_of (92 :: nat)
      in dq # concat (map (\<lambda>c. if c = dq \<or> c = bs then [bs, c] else [c]) s) @ [dq])"

lemma split_on_nonempty [simp]: "split_on c s \<noteq> []"
  by (induction s) (auto split: list.splits)

lemma split_on_length_pos [simp]: "0 < length (split_on c s)"
  by simp

lemma join_with_Cons: "ss \<noteq> [] \<Longrightarrow> join_with c (s # ss) = s @ c # join_with c ss"
  by (cases ss) simp_all

lemma split_on_step:
  "split_on c (x # xs) =
     (if x = c then [] # split_on c xs
      else (x # hd (split_on c xs)) # tl (split_on c xs))"
  by (simp split: list.split)

lemma split_on_no_sep: "c \<notin> set s \<Longrightarrow> split_on c s = [s]"
  by (induction s) auto

lemma split_on_append_sep: "split_on c (s @ c # t) = split_on c s @ split_on c t"
proof (induction s)
  case Nil
  then show ?case by simp
next
  case (Cons x s)
  have ne: "split_on c s \<noteq> []" by simp
  show ?case
  proof (cases "x = c")
    case True
    with Cons show ?thesis by simp
  next
    case False
    with Cons ne show ?thesis
      by (cases "split_on c s") auto
  qed
qed

lemma join_split [simp]: "join_with c (split_on c s) = s"
proof (induction s)
  case Nil
  then show ?case by simp
next
  case (Cons x s)
  obtain a as where split: "split_on c s = a # as"
    using split_on_nonempty [of c s] by (cases "split_on c s") auto
  show ?case
  proof (cases "x = c")
    case True
    with Cons split show ?thesis by (simp add: join_with_Cons)
  next
    case False
    with Cons split show ?thesis by (cases as) (auto simp: join_with_Cons)
  qed
qed

lemma last_split_on: "split_on c (s @ c # t) = split_on c s @ [t]" if "c \<notin> set t"
  using that by (simp add: split_on_append_sep split_on_no_sep)

text \<open>Cutting at the first separator is unambiguous when the head parts do not contain it.\<close>

lemma append_sep_inject:
  assumes "a @ c # b = a' @ c # b'" and "c \<notin> set a" and "c \<notin> set a'"
  shows "a = a' \<and> b = b'"
  using assms
proof (induction a arbitrary: a')
  case Nil
  then show ?case by (cases a') auto
next
  case (Cons x a)
  then show ?case by (cases a') auto
qed

subsection \<open>Decimal numerals (strconv)\<close>

fun nat_digits :: "nat \<Rightarrow> nat list" where
  "nat_digits n = (if n < 10 then [n] else nat_digits (n div 10) @ [n mod 10])"

declare nat_digits.simps [simp del]

definition digit_char :: "nat \<Rightarrow> char" where
  "digit_char d = char_of (48 + d)"

definition show_nat :: "nat \<Rightarrow> string" where
  "show_nat n = map digit_char (nat_digits n)"

text \<open>The verb \<open>%d\<close>, and \<open>strconv.FormatInt\<close> in base 10.\<close>

definition show_int :: "int \<Rightarrow> string" where
  "show_int i = (if i < 0 then CHR ''-'' # show_nat (nat (- i)) else show_nat (nat i))"

definition digits_value :: "nat list \<Rightarrow> nat" where
  "digits_value ds = foldl (\<lambda>a d. 10 * a + d) 0 ds"

definition char_digit :: "char \<Rightarrow> nat option" where
  "char_digit c = (let v = of_char c in if 48 \<le> v \<and> v \<le> (57 :: nat) then Some (v - 48) else None)"

definition parse_nat :: "string \<Rightarrow> nat option" where
  "parse_nat s =
     (if s = [] \<or> (\<exists>c \<in> set s. char_digit c = None) then None
      else Some (digits_value (map (\<lambda>c. the (char_digit c)) s)))"

lemma nat_digits_ne [simp]: "nat_digits n \<noteq> []"
  by (subst nat_digits.simps) simp

lemma digits_value_snoc: "digits_value (ds @ [d]) = 10 * digits_value ds + d"
  by (simp add: digits_value_def)

lemma digits_value_nat_digits [simp]: "digits_value (nat_digits n) = n"
proof (induction n rule: nat_digits.induct)
  case (1 n)
  show ?case
  proof (cases "n < 10")
    case True
    then show ?thesis by (subst nat_digits.simps) (simp add: digits_value_def)
  next
    case False
    with "1" show ?thesis
      by (subst nat_digits.simps) (simp add: digits_value_snoc)
  qed
qed

lemma nat_digits_lt10: "d \<in> set (nat_digits n) \<Longrightarrow> d < 10"
proof (induction n rule: nat_digits.induct)
  case (1 n)
  show ?case
  proof (cases "n < 10")
    case True
    with "1.prems" show ?thesis by (simp add: nat_digits.simps [of n])
  next
    case False
    with "1" show ?thesis by (auto simp: nat_digits.simps [of n])
  qed
qed

lemma of_char_digit_char: "d < 10 \<Longrightarrow> of_char (digit_char d) = (48 + d :: nat)"
  by (simp add: digit_char_def)

lemma char_digit_digit_char [simp]: "d < 10 \<Longrightarrow> char_digit (digit_char d) = Some d"
  by (simp add: char_digit_def of_char_digit_char Let_def)

lemma digit_char_inj: "d < 10 \<Longrightarrow> e < 10 \<Longrightarrow> digit_char d = digit_char e \<longleftrightarrow> d = e"
  by (metis char_digit_digit_char option.inject)

lemma map_digit_inverse:
  "(\<forall>d \<in> set ds. d < 10) \<Longrightarrow> map (\<lambda>c. the (char_digit c)) (map digit_char ds) = ds"
  by (induction ds) auto

lemma parse_show_nat [simp]: "parse_nat (show_nat n) = Some n"
proof -
  have lt: "\<forall>d \<in> set (nat_digits n). d < 10"
    by (auto dest: nat_digits_lt10)
  then have "\<forall>c \<in> set (show_nat n). char_digit c \<noteq> None"
    by (auto simp: show_nat_def)
  then show ?thesis
    using map_digit_inverse [OF lt]
    by (auto simp: parse_nat_def show_nat_def)
qed

lemma show_nat_inject [simp]: "show_nat m = show_nat n \<longleftrightarrow> m = n"
  by (metis option.inject parse_show_nat)

lemma show_nat_ne [simp]: "show_nat n \<noteq> []"
  by (simp add: show_nat_def)

lemma show_nat_chars: "c \<in> set (show_nat n) \<Longrightarrow> char_digit c \<noteq> None"
  by (auto simp: show_nat_def dest: nat_digits_lt10)

lemma minus_not_in_show_nat [simp]: "CHR ''-'' \<notin> set (show_nat n)"
  using show_nat_chars [of "CHR ''-''" n] by (auto simp: char_digit_def)

lemma hd_show_nat_not_minus [simp]: "show_nat n \<noteq> CHR ''-'' # s"
  using minus_not_in_show_nat [of n] by (metis list.set_intros(1))

lemma show_int_inject [simp]: "show_int i = show_int j \<longleftrightarrow> i = j"
  by (auto simp: show_int_def dest: sym)

lemma show_int_chars: "c \<in> set (show_int i) \<Longrightarrow> c = CHR ''-'' \<or> char_digit c \<noteq> None"
  by (auto simp: show_int_def split: if_splits dest: show_nat_chars)

text \<open>\<open>strconv.ParseInt(s, 10, 64)\<close>: an optional sign, decimal digits, and a value that fits.\<close>

definition ParseInt64 :: "string \<Rightarrow> int option" where
  "ParseInt64 s =
     (let neg = (case s of c # _ \<Rightarrow> c = CHR ''-'' | [] \<Rightarrow> False);
          ds = (case s of c # cs \<Rightarrow> if c = CHR ''-'' \<or> c = CHR ''+'' then cs else s | [] \<Rightarrow> [])
      in case parse_nat ds of
           None \<Rightarrow> None
         | Some n \<Rightarrow> (let i = (if neg then - int n else int n) in if in_int64 i then Some i else None))"

lemma hd_show_nat_not_sign: "show_nat n = c # cs \<Longrightarrow> c \<noteq> CHR ''-'' \<and> c \<noteq> CHR ''+''"
  using show_nat_chars [of c n] by (auto simp: char_digit_def)

lemma ParseInt64_show_int [simp]: "in_int64 i \<Longrightarrow> ParseInt64 (show_int i) = Some i"
proof (cases "i < 0")
  case True
  assume "in_int64 i"
  with True show ?thesis by (simp add: ParseInt64_def show_int_def)
next
  case False
  assume "in_int64 i"
  obtain c cs where c: "show_nat (nat i) = c # cs" using show_nat_ne by (metis neq_Nil_conv)
  with hd_show_nat_not_sign [OF c] have "parse_nat (c # cs) = Some (nat i)" by (metis parse_show_nat)
  with \<open>in_int64 i\<close> False c hd_show_nat_not_sign [OF c] show ?thesis by (simp add: ParseInt64_def show_int_def)
qed

text \<open>
  \<open>fmt.Sscanf(s, "%d", &p)\<close> on ASCII text: blanks before the number are skipped, a newline there is an error, and
  what follows the digits is left unread.
\<close>

definition Sscanf_d :: "string \<Rightarrow> int option" where
  "Sscanf_d s =
     (let s = dropWhile (\<lambda>c. is_space c \<and> c \<noteq> CHR 0x0A) s;
          sgn = takeWhile (\<lambda>c. c = CHR ''-'' \<or> c = CHR ''+'') (take 1 s)
      in ParseInt64 (sgn @ takeWhile (\<lambda>c. char_digit c \<noteq> None) (drop (length sgn) s)))"

text \<open>\<open>%0wd\<close>: zero padding on the left to a minimum width (non-negative numbers).\<close>

definition pad_nat :: "nat \<Rightarrow> nat \<Rightarrow> string" where
  "pad_nat w n = replicate (w - length (show_nat n)) (CHR ''0'') @ show_nat n"

subsection \<open>Lists\<close>

lemma foldl_invariant:
  assumes "P s" and "\<And>s x. x \<in> set xs \<Longrightarrow> P s \<Longrightarrow> P (f s x)"
  shows "P (foldl f s xs)"
  using assms by (induction xs arbitrary: s) auto

lemma length_filter_mono:
  "(\<And>x. x \<in> set xs \<Longrightarrow> P x \<Longrightarrow> Q x) \<Longrightarrow> length (filter P xs) \<le> length (filter Q xs)"
  by (induction xs) (auto intro: le_SucI)

end
