(* ===== verification/Tenants.thy ===== *)
theory Tenants
  imports Prelude
begin

section \<open>Tenants, vehicles and provider identities (internal/tenants)\<close>

text \<open>
  The in-memory repository. Its maps are keyed by strings the source builds with slashes; the model keeps
  these keys, so that the theorems say when they separate tenants. The mutex makes one call one step.
\<close>

record tenant =
  tn_ID :: string
  tn_Name :: string

record fleet =
  fl_ID :: string
  fl_TenantID :: string
  fl_Name :: string

record vehicle =
  vh_ID :: string
  vh_TenantID :: string
  vh_FleetID :: string
  vh_Name :: string
  vh_ExpectedCadenceSecs :: int

record device =
  dv_ID :: string
  dv_TenantID :: string
  dv_VehicleID :: string
  dv_Name :: string

record provider_identity =
  pi_VehicleID :: string
  pi_Provider :: string
  pi_ProviderID :: string

record repository =
  rp_tenants :: "string \<rightharpoonup> tenant"
  rp_fleets :: "string \<rightharpoonup> fleet"
  rp_vehicles :: "string \<rightharpoonup> vehicle"
  rp_devices :: "string \<rightharpoonup> device"
  rp_identities :: "string \<Rightarrow> provider_identity list"
  rp_byProvider :: "string \<rightharpoonup> vehicle"

definition NewMemoryRepository :: repository where
  "NewMemoryRepository =
     \<lparr>rp_tenants = Map.empty, rp_fleets = Map.empty, rp_vehicles = Map.empty, rp_devices = Map.empty,
      rp_identities = (\<lambda>_. []), rp_byProvider = Map.empty\<rparr>"

definition vk :: "string \<Rightarrow> string \<Rightarrow> string" where
  "vk tenantID i = tenantID @ ''/'' @ i"

definition provider_key :: "string \<Rightarrow> string \<Rightarrow> string \<Rightarrow> string" where
  "provider_key tenantID provider providerID = tenantID @ ''/'' @ provider @ ''/'' @ providerID"

definition CreateTenant :: "tenant \<Rightarrow> repository \<Rightarrow> go_error option \<times> repository" where
  "CreateTenant t m =
     (if tn_ID t = [] then (Some ''tenant id required'', m)
      else (None, m\<lparr>rp_tenants := (rp_tenants m)(tn_ID t \<mapsto> t)\<rparr>))"

definition CreateFleet :: "fleet \<Rightarrow> repository \<Rightarrow> go_error option \<times> repository" where
  "CreateFleet f m =
     (if fl_TenantID f = [] \<or> fl_ID f = [] then (Some ''fleet tenantId+id required'', m)
      else if rp_tenants m (fl_TenantID f) = None then (Some (''unknown tenant '' @ quoted (fl_TenantID f)), m)
      else (None, m\<lparr>rp_fleets := (rp_fleets m)(vk (fl_TenantID f) (fl_ID f) \<mapsto> f)\<rparr>))"

definition CreateVehicle :: "vehicle \<Rightarrow> repository \<Rightarrow> go_error option \<times> repository" where
  "CreateVehicle v m =
     (if vh_TenantID v = [] \<or> vh_ID v = [] then (Some ''vehicle tenantId+id required'', m)
      else if rp_tenants m (vh_TenantID v) = None then (Some (''unknown tenant '' @ quoted (vh_TenantID v)), m)
      else (None, m\<lparr>rp_vehicles := (rp_vehicles m)(vk (vh_TenantID v) (vh_ID v) \<mapsto> v)\<rparr>))"

definition CreateDevice :: "device \<Rightarrow> repository \<Rightarrow> go_error option \<times> repository" where
  "CreateDevice d m =
     (if dv_TenantID d = [] \<or> dv_ID d = [] \<or> dv_VehicleID d = []
      then (Some ''device tenantId+id+vehicleId required'', m)
      else (None, m\<lparr>rp_devices := (rp_devices m)(vk (dv_TenantID d) (dv_ID d) \<mapsto> d)\<rparr>))"

definition AddIdentity :: "string \<Rightarrow> provider_identity \<Rightarrow> repository \<Rightarrow> go_error option \<times> repository" where
  "AddIdentity tenantID i m =
     (if tenantID = [] \<or> pi_VehicleID i = [] \<or> pi_Provider i = [] \<or> pi_ProviderID i = []
      then (Some ''identity requires tenant, vehicle, provider, providerId'', m)
      else let k = vk tenantID (pi_VehicleID i)
      in case rp_vehicles m k of
           None \<Rightarrow> (Some (''unknown vehicle '' @ quoted (pi_VehicleID i) @ '' in tenant '' @ quoted tenantID), m)
         | Some v \<Rightarrow>
             (None, m\<lparr>rp_identities := (rp_identities m)(k := rp_identities m k @ [i]),
                      rp_byProvider := (rp_byProvider m)(provider_key tenantID (pi_Provider i) (pi_ProviderID i) \<mapsto> v)\<rparr>))"

definition ResolveVehicle :: "string \<Rightarrow> string \<Rightarrow> string \<Rightarrow> repository \<Rightarrow> go_error + vehicle" where
  "ResolveVehicle tenantID provider providerID m =
     (case rp_byProvider m (provider_key tenantID provider providerID) of
        None \<Rightarrow> Inl (''no vehicle for '' @ provider @ ''/'' @ providerID @ '' in tenant '' @ tenantID)
      | Some v \<Rightarrow> Inr v)"

definition Identities :: "string \<Rightarrow> string \<Rightarrow> repository \<Rightarrow> provider_identity list" where
  "Identities tenantID vehicleID m = [] @ rp_identities m (vk tenantID vehicleID)"

definition Vehicle_get :: "string \<Rightarrow> string \<Rightarrow> repository \<Rightarrow> go_error + vehicle" where
  "Vehicle_get tenantID vehicleID m =
     (case rp_vehicles m (vk tenantID vehicleID) of
        None \<Rightarrow> Inl (''unknown vehicle '' @ quoted vehicleID) | Some v \<Rightarrow> Inr v)"

subsection \<open>Runs of the repository\<close>

datatype repo_op = OpTenant tenant | OpFleet fleet | OpVehicle vehicle | OpDevice device | OpIdentity string provider_identity

fun repo_step :: "repo_op \<Rightarrow> repository \<Rightarrow> go_error option \<times> repository" where
  "repo_step (OpTenant t) m = CreateTenant t m"
| "repo_step (OpFleet f) m = CreateFleet f m"
| "repo_step (OpVehicle v) m = CreateVehicle v m"
| "repo_step (OpDevice d) m = CreateDevice d m"
| "repo_step (OpIdentity tid i) m = AddIdentity tid i m"

fun op_tenant :: "repo_op \<Rightarrow> string" where
  "op_tenant (OpTenant t) = tn_ID t"
| "op_tenant (OpFleet f) = fl_TenantID f"
| "op_tenant (OpVehicle v) = vh_TenantID v"
| "op_tenant (OpDevice d) = dv_TenantID d"
| "op_tenant (OpIdentity tid i) = tid"

lemma key_prefix: "a @ CHR ''/'' # x = b @ CHR ''/'' # y \<Longrightarrow> CHR ''/'' \<notin> set a \<Longrightarrow> CHR ''/'' \<notin> set b \<Longrightarrow> a = b \<and> x = y"
  by (rule append_sep_inject)

lemmas repo_defs = CreateTenant_def CreateFleet_def CreateVehicle_def CreateDevice_def AddIdentity_def
  Vehicle_get_def ResolveVehicle_def Identities_def

lemma repo_step_other_tenant:
  assumes "op_tenant op \<noteq> b" "CHR ''/'' \<notin> set (op_tenant op)" "CHR ''/'' \<notin> set b"
  shows "Vehicle_get b v (snd (repo_step op m)) = Vehicle_get b v m
    \<and> ResolveVehicle b p q (snd (repo_step op m)) = ResolveVehicle b p q m
    \<and> Identities b v (snd (repo_step op m)) = Identities b v m"
proof -
  have "vk (op_tenant op) x \<noteq> vk b y" "provider_key (op_tenant op) x x' \<noteq> provider_key b y y'" for x x' y y'
    using assms key_prefix [of "op_tenant op" _ b] by (auto simp: vk_def provider_key_def)
  note k = this this [symmetric]
  show ?thesis using k by (cases op) (auto simp: repo_defs Let_def split: option.split)
qed

subsection \<open>Properties\<close>

text \<open>C30: Tenants are isolated. When tenant ids contain no slash, no sequence of operations of other tenants,
  failing ones included, changes what a tenant's lookups answer: its vehicles, the resolution of its provider
  ids and the identities of its vehicles.\<close>

theorem tenants_isolated:
  assumes "\<forall>op \<in> set ops. op_tenant op \<noteq> b \<and> CHR ''/'' \<notin> set (op_tenant op)" "CHR ''/'' \<notin> set b"
  shows "Vehicle_get b v (foldl (\<lambda>m op. snd (repo_step op m)) m ops) = Vehicle_get b v m
    \<and> ResolveVehicle b p q (foldl (\<lambda>m op. snd (repo_step op m)) m ops) = ResolveVehicle b p q m
    \<and> Identities b v (foldl (\<lambda>m op. snd (repo_step op m)) m ops) = Identities b v m"
  using assms(1)
proof (induction ops arbitrary: m)
  case (Cons op ops)
  then show ?case
    using Cons.IH [of "snd (repo_step op m)"] repo_step_other_tenant [of op b] assms(2) by simp
qed simp

theorem tenants_isolated_witness:
  "Vehicle_get ''b'' ''v'' (foldl (\<lambda>m op. snd (repo_step op m)) NewMemoryRepository
     [OpTenant \<lparr>tn_ID = ''a'', tn_Name = ''A''\<rparr>,
      OpVehicle \<lparr>vh_ID = ''v'', vh_TenantID = ''a'', vh_FleetID = [], vh_Name = [], vh_ExpectedCadenceSecs = 0\<rparr>])
   = Vehicle_get ''b'' ''v'' NewMemoryRepository"
  by (rule tenants_isolated [THEN conjunct1]) simp_all

text \<open>Without that restriction on ids the keys collide: for the tenants \<open>a\<close> and \<open>a/b\<close>, registering vehicle
  \<open>b/v\<close> of the first makes it appear as vehicle \<open>v\<close> of the second.\<close>

lemma slash_in_ids_breaks_isolation:
  assumes "rp_tenants m a = Some tn" "a \<noteq> []"
    and "vh = \<lparr>vh_ID = b @ ''/'' @ v, vh_TenantID = a, vh_FleetID = f, vh_Name = n, vh_ExpectedCadenceSecs = c\<rparr>"
  shows "Vehicle_get (a @ ''/'' @ b) v (snd (CreateVehicle vh m)) = Inr vh"
  using assms by (simp add: CreateVehicle_def Vehicle_get_def vk_def)

lemma slash_in_ids_breaks_isolation_example:
  "Vehicle_get ''a/b'' ''v'' (snd (CreateVehicle
      \<lparr>vh_ID = ''b/v'', vh_TenantID = ''a'', vh_FleetID = [], vh_Name = [], vh_ExpectedCadenceSecs = 0\<rparr>
      (snd (CreateTenant \<lparr>tn_ID = ''a'', tn_Name = ''A''\<rparr> NewMemoryRepository)))) =
   Inr \<lparr>vh_ID = ''b/v'', vh_TenantID = ''a'', vh_FleetID = [], vh_Name = [], vh_ExpectedCadenceSecs = 0\<rparr>"
  using slash_in_ids_breaks_isolation [of "snd (CreateTenant \<lparr>tn_ID = ''a'', tn_Name = ''A''\<rparr> NewMemoryRepository)" "''a''"
      "\<lparr>tn_ID = ''a'', tn_Name = ''A''\<rparr>" _ "''b''" "''v''" "[]" "[]" 0]
  by (simp add: CreateTenant_def)

end
