(* ===== verification/Floats.thy ===== *)
theory Floats
  imports Complex_Main Prelude "HOL-Library.Log_Nat"
begin

section \<open>The type float64\<close>

text \<open>
  Go's \<open>float64\<close>: IEEE 754 binary64 values with their comparisons (every comparison with NaN is
  false) and the correctly rounded arithmetic operations (round to nearest, ties to even, gradual
  underflow, overflow to the infinities; no fused multiply-add, as on amd64). A finite value is carried as the rational number it denotes;
  the two zeros are one value, which only the sign of a printed zero could tell apart. The lemmas
  of the second half are what the components use of rounding: a representable number is a fixed
  point, and rounding never crosses one.
\<close>

datatype float64 = NaN | NInf | Fin rat | PInf

subsection \<open>Comparisons\<close>

fun flt :: "float64 \<Rightarrow> float64 \<Rightarrow> bool" where
  "flt (Fin x) (Fin y) \<longleftrightarrow> x < y"
| "flt (Fin x) PInf \<longleftrightarrow> True"
| "flt NInf (Fin y) \<longleftrightarrow> True"
| "flt NInf PInf \<longleftrightarrow> True"
| "flt _ _ \<longleftrightarrow> False"

fun feq :: "float64 \<Rightarrow> float64 \<Rightarrow> bool" where
  "feq NaN _ \<longleftrightarrow> False"
| "feq _ NaN \<longleftrightarrow> False"
| "feq x y \<longleftrightarrow> x = y"

definition fle :: "float64 \<Rightarrow> float64 \<Rightarrow> bool" where
  "fle x y \<longleftrightarrow> flt x y \<or> feq x y"

lemma fle_Fin [simp]: "fle (Fin x) (Fin y) \<longleftrightarrow> x \<le> y"
  by (auto simp: fle_def)

lemma flt_NaN [simp]: "\<not> flt NaN x" "\<not> flt x NaN"
  by (cases x; simp)+

lemma fle_NaN [simp]: "\<not> fle NaN x" "\<not> fle x NaN"
  by (cases x; simp add: fle_def)+

lemma flt_irrefl [simp]: "\<not> flt x x"
  by (cases x) simp_all

lemma feq_iff: "feq x y \<longleftrightarrow> x = y \<and> x \<noteq> NaN"
  by (cases x; cases y) auto

lemma not_flt_fle: "x \<noteq> NaN \<Longrightarrow> y \<noteq> NaN \<Longrightarrow> \<not> flt x y \<longleftrightarrow> fle y x"
  by (cases x; cases y) (auto simp: fle_def)

lemma flt_trans: "flt x y \<Longrightarrow> flt y z \<Longrightarrow> flt x z"
  by (cases x; cases y; cases z) auto

lemma fle_trans: "fle x y \<Longrightarrow> fle y z \<Longrightarrow> fle x z"
  by (cases x; cases y; cases z) (auto simp: fle_def)

lemma fle_flt_trans: "fle x y \<Longrightarrow> flt y z \<Longrightarrow> flt x z"
  by (cases x; cases y; cases z) (auto simp: fle_def)

lemma flt_fle_trans: "flt x y \<Longrightarrow> fle y z \<Longrightarrow> flt x z"
  by (cases x; cases y; cases z) (auto simp: fle_def)

lemma flt_imp_fle: "flt x y \<Longrightarrow> fle x y"
  by (simp add: fle_def)

lemma flt_not_fle: "flt x y \<Longrightarrow> \<not> fle y x"
  by (cases x; cases y) (auto simp: fle_def)

lemma fle_not_NaN: "fle x y \<Longrightarrow> x \<noteq> NaN \<and> y \<noteq> NaN"
  by auto

subsection \<open>Rounding\<close>

text \<open>The exponent \<open>e\<close> with \<open>2 ^ e \<le> x < 2 ^ (e + 1)\<close>, from the lengths of the numerals.\<close>

definition binade :: "rat \<Rightarrow> int" where
  "binade x =
     (let (a, b) = quotient_of x; e = bitlen a - bitlen b
      in if 2 powi e \<le> x then e else e - 1)"

text \<open>The distance of neighbouring floats in the binade of \<open>x\<close>; at least the smallest subnormal.\<close>

definition ulp :: "rat \<Rightarrow> rat" where
  "ulp x = 2 powi (max (binade \<bar>x\<bar> - 52) (- 1074))"

definition round_half_even :: "rat \<Rightarrow> int" where
  "round_half_even r =
     (let f = \<lfloor>r\<rfloor>; d = r - of_int f
      in if d < 1 / 2 then f else if d > 1 / 2 then f + 1 else if even f then f else f + 1)"

definition round_rat :: "rat \<Rightarrow> rat" where
  "round_rat x = (if x = 0 then 0 else of_int (round_half_even (x / ulp x)) * ulp x)"

definition rnd :: "rat \<Rightarrow> float64" where
  "rnd x =
     (let y = round_rat x
      in if 2 ^ 1024 \<le> y then PInf else if y \<le> - (2 ^ 1024) then NInf else Fin y)"

subsection \<open>Arithmetic\<close>

definition fneg :: "float64 \<Rightarrow> float64" where
  "fneg x = (case x of NaN \<Rightarrow> NaN | NInf \<Rightarrow> PInf | PInf \<Rightarrow> NInf | Fin r \<Rightarrow> Fin (- r))"

fun fadd :: "float64 \<Rightarrow> float64 \<Rightarrow> float64" where
  "fadd (Fin x) (Fin y) = rnd (x + y)"
| "fadd NaN _ = NaN"
| "fadd _ NaN = NaN"
| "fadd PInf NInf = NaN"
| "fadd NInf PInf = NaN"
| "fadd PInf _ = PInf"
| "fadd _ PInf = PInf"
| "fadd NInf _ = NInf"
| "fadd _ NInf = NInf"

definition fsub :: "float64 \<Rightarrow> float64 \<Rightarrow> float64" where
  "fsub x y = fadd x (fneg y)"

definition fsign :: "float64 \<Rightarrow> rat" where
  "fsign x = (case x of NaN \<Rightarrow> 0 | NInf \<Rightarrow> - 1 | PInf \<Rightarrow> 1 | Fin r \<Rightarrow> sgn r)"

definition finf :: "rat \<Rightarrow> float64" where
  "finf s = (if s > 0 then PInf else if s < 0 then NInf else NaN)"

fun fmul :: "float64 \<Rightarrow> float64 \<Rightarrow> float64" where
  "fmul (Fin x) (Fin y) = rnd (x * y)"
| "fmul NaN _ = NaN"
| "fmul _ NaN = NaN"
| "fmul x y = finf (fsign x * fsign y)"

text \<open>
  Division by the one zero of the model gives the infinity of the dividend's sign: the sign of
  a zero divisor is not kept.
\<close>

fun fdiv :: "float64 \<Rightarrow> float64 \<Rightarrow> float64" where
  "fdiv (Fin x) (Fin y) = (if y = 0 then finf (sgn x) else rnd (x / y))"
| "fdiv NaN _ = NaN"
| "fdiv _ NaN = NaN"
| "fdiv (Fin x) _ = Fin 0"
| "fdiv x (Fin y) = finf (fsign x * (if y = 0 then 1 else sgn y))"
| "fdiv _ _ = NaN"

text \<open>The conversion \<open>float64(i)\<close> of an integer, and \<open>math.Round\<close> (half away from zero).\<close>

definition f_of_int :: "int \<Rightarrow> float64" where
  "f_of_int i = rnd (of_int i)"

definition math_Round :: "float64 \<Rightarrow> float64" where
  "math_Round x =
     (case x of Fin r \<Rightarrow> Fin (of_int (if 0 \<le> r then \<lfloor>r + 1 / 2\<rfloor> else - \<lfloor>1 / 2 - r\<rfloor>))
      | _ \<Rightarrow> x)"

text \<open>The conversion \<open>int64(f)\<close>: truncation; a value outside int64 gives the smallest one, as on amd64.\<close>

definition int64_of_float :: "float64 \<Rightarrow> int" where
  "int64_of_float f =
     (case f of
        Fin r \<Rightarrow> let i = (if 0 \<le> r then \<lfloor>r\<rfloor> else - \<lfloor>- r\<rfloor>) in if in_int64 i then i else - (2 ^ 63)
      | _ \<Rightarrow> - (2 ^ 63))"

subsection \<open>JSON values\<close>

text \<open>The dynamic type \<open>any\<close> of a decoded JSON document or of a map literal of the sources.\<close>

datatype json =
    JNull
  | JBool bool
  | JNum float64
  | JStr string
  | JArr "json list"
  | JObj "(string \<times> json) list"

type_synonym jobj = "(string \<times> json) list"

text \<open>Assignment to a key of a JSON object.\<close>

fun jset :: "string \<Rightarrow> json \<Rightarrow> jobj \<Rightarrow> jobj" where
  "jset k v [] = [(k, v)]"
| "jset k v ((k', v') # m) = (if k = k' then (k, v) # m else (k', v') # jset k v m)"

subsection \<open>Facts about rounding\<close>

lemma powi_pos [simp]: "0 < (2 :: rat) powi e"
  by (simp add: zero_less_power_int)

lemma bitlen_rat_bounds:
  assumes "0 < a"
  shows "2 powi (bitlen a - 1) \<le> (of_int a :: rat) \<and> (of_int a :: rat) < 2 powi bitlen a"
proof -
  have "1 \<le> bitlen a"
    using assms bitlen_eq_zero_iff [of a] bitlen_nonneg [of a] by linarith
  moreover have "of_int (2 ^ nat (bitlen a - 1)) \<le> (of_int a :: rat)"
    and "of_int a < (of_int (2 ^ nat (bitlen a)) :: rat)"
    using bitlen_bounds [OF assms] by (simp_all only: of_int_le_iff of_int_less_iff)
  ultimately show ?thesis
    by (simp add: power_int_nonneg_exp)
qed

lemma binade_bounds:
  assumes "0 < x"
  shows "2 powi binade x \<le> x \<and> x < 2 powi (binade x + 1)"
proof -
  obtain a b where q: "quotient_of x = (a, b)" by fastforce
  have b: "0 < b" and x: "x = of_int a / of_int b"
    using quotient_of_denom_pos [OF q] quotient_of_div [OF q] by auto
  with assms have a: "0 < a"
    by (simp add: zero_less_divide_iff)
  let ?e = "bitlen a - bitlen b"
  have A: "2 powi (bitlen a - 1) \<le> (of_int a :: rat)" "(of_int a :: rat) < 2 powi bitlen a"
    using bitlen_rat_bounds [OF a] by auto
  have B: "2 powi (bitlen b - 1) \<le> (of_int b :: rat)" "(of_int b :: rat) < 2 powi bitlen b"
    using bitlen_rat_bounds [OF b] by auto
  have "x < 2 powi bitlen a / 2 powi (bitlen b - 1)"
    unfolding x using A B a b by (intro frac_less) auto
  also have "\<dots> = 2 powi (?e + 1)"
    by (simp add: power_int_diff [symmetric] algebra_simps)
  finally have up: "x < 2 powi (?e + 1)" .
  have "2 powi (bitlen a - 1) / 2 powi bitlen b < x"
    unfolding x using A B a b by (intro frac_less2) auto
  moreover have "2 powi (bitlen a - 1) / 2 powi bitlen b = (2 :: rat) powi (?e - 1)"
    by (simp add: power_int_diff [symmetric] algebra_simps)
  ultimately have lo: "2 powi (?e - 1) \<le> x" by simp
  show ?thesis
    using q up lo by (auto simp: binade_def Let_def)
qed

lemma ulp_pos [simp]: "0 < ulp x"
  by (simp add: ulp_def)

lemma round_half_even_le: "r \<le> of_int n \<Longrightarrow> round_half_even r \<le> n"
proof -
  assume le: "r \<le> of_int n"
  then have fl: "\<lfloor>r\<rfloor> \<le> n" by (simp add: floor_le_iff)
  show ?thesis
  proof (cases "\<lfloor>r\<rfloor> = n")
    case True
    then have "r = of_int n" using le of_int_floor_le [of r] by simp
    with True show ?thesis by (simp add: round_half_even_def)
  next
    case False
    with fl show ?thesis by (simp add: round_half_even_def Let_def)
  qed
qed

lemma round_half_even_ge: "of_int n \<le> r \<Longrightarrow> n \<le> round_half_even r"
  by (auto simp: round_half_even_def Let_def le_floor_iff intro: add_increasing2)

text \<open>Numbers with a 53-bit significand and an exponent of at least \<open>- 1074\<close>.\<close>

definition representable :: "rat \<Rightarrow> bool" where
  "representable r \<longleftrightarrow> (\<exists>m e. r = of_int m * 2 powi e \<and> \<bar>m\<bar> \<le> 2 ^ 53 \<and> - 1074 \<le> e)"

lemma representableI: "r = of_int m * 2 powi e \<Longrightarrow> \<bar>m\<bar> \<le> 2 ^ 53 \<Longrightarrow> - 1074 \<le> e \<Longrightarrow> representable r"
  unfolding representable_def by blast

lemma representable_of_int: "\<bar>i\<bar> \<le> 2 ^ 53 \<Longrightarrow> representable (of_int i)"
  by (rule representableI [where m = i and e = 0]) simp_all

lemma representable_minus: "representable r \<Longrightarrow> representable (- r)"
  unfolding representable_def
proof (elim exE conjE)
  fix m e
  assume "r = of_int m * 2 powi e" "\<bar>m\<bar> \<le> 2 ^ 53" "- 1074 \<le> e"
  then show "\<exists>m e. - r = of_int m * 2 powi e \<and> \<bar>m\<bar> \<le> 2 ^ 53 \<and> - 1074 \<le> e"
    by (intro exI [of _ "- m"] exI [of _ e]) simp
qed

text \<open>A representable number is a multiple of the unit at \<open>x\<close>, or is below the binade of \<open>x\<close>.\<close>

lemma representable_cases:
  assumes "representable r" and "x \<noteq> 0"
  shows "(\<exists>k. r = of_int k * ulp x) \<or> (\<bar>r\<bar> \<le> 2 ^ 52 * ulp x \<and> 2 ^ 52 * ulp x \<le> \<bar>x\<bar>)"
proof -
  obtain m e where r: "r = of_int m * 2 powi e" and m: "\<bar>m\<bar> \<le> 2 ^ 53" and e: "- 1074 \<le> e"
    using assms(1) by (auto simp: representable_def)
  let ?E = "max (binade \<bar>x\<bar> - 52) (- 1074)"
  have q: "ulp x = 2 powi ?E" by (simp add: ulp_def)
  show ?thesis
  proof (cases "?E \<le> e")
    case True
    have "r = of_int m * (2 powi (e - ?E) * 2 powi ?E)"
      by (simp add: r power_int_add [symmetric])
    also have "(2 :: rat) powi (e - ?E) = of_int (2 ^ nat (e - ?E))"
      using True by (simp add: power_int_nonneg_exp)
    finally have "r = of_int (m * 2 ^ nat (e - ?E)) * ulp x"
      by (simp add: q)
    then show ?thesis by blast
  next
    case False
    with e have E: "?E = binade \<bar>x\<bar> - 52" by linarith
    have "2 ^ 52 * ulp x = (2 :: rat) powi 52 * 2 powi (binade \<bar>x\<bar> - 52)"
      by (simp add: q E)
    also have "\<dots> = 2 powi (binade \<bar>x\<bar>)"
      by (subst power_int_add [symmetric]) simp_all
    finally have P: "2 ^ 52 * ulp x = 2 powi (binade \<bar>x\<bar>)" .
    have "\<bar>r\<bar> = of_int \<bar>m\<bar> * 2 powi e"
      by (simp add: r abs_mult)
    also have "\<dots> \<le> of_int (2 ^ 53) * 2 powi (?E - 1)"
      using m False by (intro mult_mono power_int_increasing) (auto simp only: of_int_le_iff, auto)
    also have "\<dots> = 2 ^ 52 * ulp x"
      by (simp add: q power_int_diff)
    finally have "\<bar>r\<bar> \<le> 2 ^ 52 * ulp x" .
    moreover have "2 powi (binade \<bar>x\<bar>) \<le> \<bar>x\<bar>"
      using binade_bounds [of "\<bar>x\<bar>"] assms(2) by simp
    ultimately show ?thesis using P by argo
  qed
qed

lemma round_rat_le_mult: "x \<le> of_int k * ulp x \<Longrightarrow> round_rat x \<le> of_int k * ulp x"
  by (cases "x = 0") (auto simp: round_rat_def pos_divide_le_eq intro!: round_half_even_le)

lemma round_rat_ge_mult: "of_int k * ulp x \<le> x \<Longrightarrow> of_int k * ulp x \<le> round_rat x"
  by (cases "x = 0") (auto simp: round_rat_def pos_le_divide_eq intro!: round_half_even_ge)

lemma round_rat_le:
  assumes "representable r" and "x \<le> r"
  shows "round_rat x \<le> r"
proof (cases "x = 0")
  case True
  with assms(2) show ?thesis by (simp add: round_rat_def)
next
  case False
  from representable_cases [OF assms(1) False] show ?thesis
  proof (elim disjE exE conjE)
    fix k assume "r = of_int k * ulp x"
    with assms(2) show ?thesis by (simp add: round_rat_le_mult)
  next
    assume r: "\<bar>r\<bar> \<le> 2 ^ 52 * ulp x" and x: "2 ^ 52 * ulp x \<le> \<bar>x\<bar>"
    show ?thesis
    proof (cases "0 < x")
      case True
      with r x assms(2) have "x = of_int (2 ^ 52) * ulp x" "r = x" by auto
      then show ?thesis using round_rat_le_mult [of x "2 ^ 52"] by simp
    next
      case neg: False
      with x have "x \<le> of_int (- (2 ^ 52)) * ulp x" by simp
      then have "round_rat x \<le> of_int (- (2 ^ 52)) * ulp x" by (rule round_rat_le_mult)
      with r show ?thesis by simp
    qed
  qed
qed

lemma round_rat_ge:
  assumes "representable r" and "r \<le> x"
  shows "r \<le> round_rat x"
proof (cases "x = 0")
  case True
  with assms(2) show ?thesis by (simp add: round_rat_def)
next
  case False
  from representable_cases [OF assms(1) False] show ?thesis
  proof (elim disjE exE conjE)
    fix k assume "r = of_int k * ulp x"
    with assms(2) show ?thesis by (simp add: round_rat_ge_mult)
  next
    assume r: "\<bar>r\<bar> \<le> 2 ^ 52 * ulp x" and x: "2 ^ 52 * ulp x \<le> \<bar>x\<bar>"
    show ?thesis
    proof (cases "x < 0")
      case True
      with r x assms(2) have "x = of_int (- (2 ^ 52)) * ulp x" "r = x" by auto
      then show ?thesis using round_rat_ge_mult [of "- (2 ^ 52)" x] by simp
    next
      case pos: False
      with x have "of_int (2 ^ 52) * ulp x \<le> x" by simp
      then have "of_int (2 ^ 52) * ulp x \<le> round_rat x" by (rule round_rat_ge_mult)
      with r show ?thesis by simp
    qed
  qed
qed

lemma round_rat_representable: "representable r \<Longrightarrow> round_rat r = r"
  by (simp add: order.antisym round_rat_ge round_rat_le)

lemma rnd_representable: "representable r \<Longrightarrow> \<bar>r\<bar> < 2 ^ 1024 \<Longrightarrow> rnd r = Fin r"
  by (auto simp: rnd_def Let_def round_rat_representable)

lemma rnd_0 [simp]: "rnd 0 = Fin 0"
  by (simp add: rnd_def round_rat_def)

lemma rnd_ge:
  assumes "representable r" and "\<bar>r\<bar> < 2 ^ 1024" and "r \<le> x"
  shows "fle (Fin r) (rnd x)"
  using round_rat_ge [OF assms(1,3)] assms(2) by (auto simp: rnd_def Let_def fle_def)

lemma rnd_le:
  assumes "representable r" and "\<bar>r\<bar> < 2 ^ 1024" and "x \<le> r"
  shows "fle (rnd x) (Fin r)"
  using round_rat_le [OF assms(1,3)] assms(2) by (auto simp: rnd_def Let_def fle_def)

text \<open>Between two representable bounds the result is finite and stays between them.\<close>

lemma rnd_between:
  assumes "representable a" "\<bar>a\<bar> < 2 ^ 1024" "representable b" "\<bar>b\<bar> < 2 ^ 1024"
    and "a \<le> x" "x \<le> b"
  obtains y where "rnd x = Fin y" "a \<le> y" "y \<le> b"
proof -
  have "fle (Fin a) (rnd x)" "fle (rnd x) (Fin b)"
    using assms by (auto intro: rnd_ge rnd_le)
  then show ?thesis
    using that by (cases "rnd x") (auto simp: fle_def)
qed

lemma pow1024_big: "\<bar>r\<bar> \<le> 2 ^ 64 \<Longrightarrow> \<bar>r\<bar> < (2 :: rat) ^ 1024"
  by (rule order.strict_trans1 [where b = "2 ^ 64"]) (auto intro: power_strict_increasing)

lemma f_of_int_exact: "\<bar>i\<bar> \<le> 2 ^ 53 \<Longrightarrow> f_of_int i = Fin (of_int i)"
proof -
  assume i: "\<bar>i\<bar> \<le> 2 ^ 53"
  then have "\<bar>of_int i :: rat\<bar> \<le> of_int (2 ^ 53)"
    by (simp only: of_int_abs [symmetric] of_int_le_iff)
  then have "\<bar>of_int i :: rat\<bar> < 2 ^ 1024"
    by (intro pow1024_big) simp
  with i show ?thesis
    by (simp add: f_of_int_def rnd_representable representable_of_int)
qed

end
