(* ===== verification/GoTime.thy ===== *)
theory GoTime
  imports Floats
begin

section \<open>time.Time and time.Duration\<close>

text \<open>
  An instant is the number of nanoseconds since 0001-01-01 00:00:00 UTC, so that the zero value of
  \<open>time.Time\<close> is 0; a duration is an int64 number of nanoseconds. \<open>Sub\<close> saturates as in Go,
  \<open>Seconds\<close> is the float64 computation of the standard library, and \<open>format_rfc3339nano\<close> is
  \<open>t.UTC().Format(time.RFC3339Nano)\<close>. The two results the components rest on: comparing
  \<open>Seconds\<close> with a whole number of seconds is exact up to \<open>2 ^ 23\<close> seconds, and the printed form of
  an instant determines it.
\<close>

type_synonym time = int
type_synonym duration = int

abbreviation Second :: duration where "Second \<equiv> 1000000000"
abbreviation Minute :: duration where "Minute \<equiv> 60000000000"
abbreviation Hour :: duration where "Hour \<equiv> 3600000000000"

definition IsZero :: "time \<Rightarrow> bool" where
  "IsZero t \<longleftrightarrow> t = 0"

definition time_Sub :: "time \<Rightarrow> time \<Rightarrow> duration" where
  "time_Sub t u = max (- (2 ^ 63)) (min (2 ^ 63 - 1) (t - u))"

definition Seconds :: "duration \<Rightarrow> float64" where
  "Seconds d = fadd (f_of_int (quot d Second)) (fdiv (f_of_int (rem d Second)) (Fin 1000000000))"

text \<open>\<open>t.Unix()\<close> and \<open>time.Unix(s, 0)\<close>.\<close>

definition unix_epoch :: time where
  "unix_epoch = 62135596800 * Second"

definition time_Unix :: "time \<Rightarrow> int" where
  "time_Unix t = (t - unix_epoch) div Second"

definition of_unix :: "int \<Rightarrow> time" where
  "of_unix s = s * Second + unix_epoch"

lemma time_Unix_of_unix [simp]: "time_Unix (of_unix s) = s"
  by (simp add: time_Unix_def of_unix_def)

lemma time_Sub_in_int64: "in_int64 (time_Sub t u)"
  by (auto simp: time_Sub_def in_int64_def)

lemma time_Sub_exact: "in_int64 (t - u) \<Longrightarrow> time_Sub t u = t - u"
  by (auto simp: time_Sub_def in_int64_def)

lemma time_Sub_ge_iff: "in_int64 d \<Longrightarrow> - (2 ^ 63) < d \<Longrightarrow> d \<le> time_Sub t u \<longleftrightarrow> d \<le> t - u"
  by (auto simp: time_Sub_def in_int64_def)

lemma time_Sub_gt_iff: "- (2 ^ 63) \<le> d \<Longrightarrow> d < 2 ^ 63 - 1 \<Longrightarrow> d < time_Sub t u \<longleftrightarrow> d < t - u"
  by (auto simp: time_Sub_def)

lemma time_Sub_lt_iff: "in_int64 d \<Longrightarrow> - (2 ^ 63) < d \<Longrightarrow> time_Sub t u < d \<longleftrightarrow> t - u < d"
  by (auto simp: time_Sub_def in_int64_def)

lemma time_Sub_self [simp]: "time_Sub t t = 0"
  by (simp add: time_Sub_def)

subsection \<open>Seconds compared with whole seconds\<close>

lemma representable_below_int:
  assumes "0 \<le> n" "n \<le> 2 ^ 23"
  shows "representable (of_int n - 1 / 2 ^ 30)"
proof (rule representableI [where m = "n * 2 ^ 30 - 1" and e = "- 30"])
  show "(of_int n - 1 / 2 ^ 30 :: rat) = of_int (n * 2 ^ 30 - 1) * 2 powi - 30"
    by (simp add: power_int_minus field_simps)
qed (use assms in auto)

lemma rnd_frac_bounds:
  assumes "\<bar>ns\<bar> < 1000000000"
  obtains f where "fdiv (f_of_int ns) (Fin 1000000000) = Fin f"
    and "0 \<le> ns \<Longrightarrow> 0 \<le> f" and "f \<le> 1 - 1 / 2 ^ 30"
    and "ns \<le> 0 \<Longrightarrow> f \<le> 0" and "ns < 0 \<Longrightarrow> f \<le> - (1 / 2 ^ 30)" and "- 1 \<le> f"
proof -
  let ?x = "of_int ns / 1000000000 :: rat"
  have i: "f_of_int ns = Fin (of_int ns)"
    using assms by (intro f_of_int_exact) auto
  have r0: "representable 0" and r1: "representable (- 1)"
    using representable_of_int [of 0] representable_of_int [of "- 1"] by simp_all
  have rh: "representable (1 - 1 / 2 ^ 30)"
    using representable_below_int [of 1] by simp
  have rn: "representable (- (1 / 2 ^ 30))"
    using representable_below_int [of 0] by simp
  have big: "\<bar>1 - 1 / 2 ^ 30\<bar> < (2 :: rat) ^ 1024" "\<bar>- (1 / 2 ^ 30)\<bar> < (2 :: rat) ^ 1024"
      "\<bar>0\<bar> < (2 :: rat) ^ 1024" "\<bar>- 1\<bar> < (2 :: rat) ^ 1024"
    by (rule pow1024_big, simp)+
  have up: "?x \<le> 1 - 1 / 2 ^ 30"
  proof -
    have "of_int ns \<le> (999999999 :: rat)"
      using assms by (simp add: of_int_le_iff [where 'a = rat and w = ns and z = 999999999, simplified])
    then show ?thesis by (simp add: field_simps)
  qed
  have lo: "- 1 \<le> ?x"
    using assms by (simp add: field_simps)
  obtain f where f: "rnd ?x = Fin f" "- 1 \<le> f" "f \<le> 1 - 1 / 2 ^ 30"
    using rnd_between [OF r1 big(4) rh big(1) lo up] by blast
  show ?thesis
  proof (rule that)
    show "fdiv (f_of_int ns) (Fin 1000000000) = Fin f" by (simp add: i f(1))
    show "0 \<le> f" if "0 \<le> ns"
      using rnd_ge [OF r0 big(3), of ?x] that by (simp add: f(1))
    show "f \<le> 0" if "ns \<le> 0"
      using rnd_le [OF r0 big(3), of ?x] that by (simp add: f(1) divide_nonpos_pos)
    show "f \<le> - (1 / 2 ^ 30)" if "ns < 0"
    proof -
      have "of_int ns \<le> (- 1 :: rat)" using that by simp
      then have "?x \<le> - (1 / 2 ^ 30)" by (simp add: field_simps)
      then have "fle (rnd ?x) (Fin (- (1 / 2 ^ 30)))" by (rule rnd_le [OF rn big(2)])
      then show ?thesis by (simp add: f(1))
    qed
  qed (use f in auto)
qed

lemma Seconds_decomp:
  assumes "in_int64 d"
  obtains f where "Seconds d = rnd (of_int (quot d Second) + f)"
    and "0 \<le> rem d Second \<Longrightarrow> 0 \<le> f" and "f \<le> 1 - 1 / 2 ^ 30"
    and "rem d Second \<le> 0 \<Longrightarrow> f \<le> 0" and "rem d Second < 0 \<Longrightarrow> f \<le> - (1 / 2 ^ 30)"
proof -
  have r: "\<bar>rem d Second\<bar> < 1000000000"
    by (cases "0 \<le> d") (simp_all add: rem_nonneg rem_neg)
  have "\<bar>quot d Second\<bar> = \<bar>d\<bar> div Second"
    by (cases "0 \<le> d") (simp_all add: quot_nonneg quot_neg pos_imp_zdiv_nonneg_iff)
  also have "\<dots> \<le> 2 ^ 63 div Second"
    using assms by (intro zdiv_mono1) (auto simp: in_int64_def)
  also have "\<dots> \<le> 2 ^ 53" by simp
  finally have q: "f_of_int (quot d Second) = Fin (of_int (quot d Second))"
    by (rule f_of_int_exact)
  show ?thesis
    by (rule rnd_frac_bounds [OF r], rule that) (simp_all add: Seconds_def q)
qed

lemma fle_int_rnd:
  assumes "\<bar>n\<bar> \<le> 2 ^ 53" and "of_int n \<le> x"
  shows "fle (Fin (of_int n)) (rnd x)"
proof -
  have "\<bar>of_int n :: rat\<bar> \<le> of_int (2 ^ 53)"
    using assms(1) by (simp only: of_int_abs [symmetric] of_int_le_iff)
  then have "\<bar>of_int n :: rat\<bar> < 2 ^ 1024"
    by (intro pow1024_big) simp
  with assms show ?thesis by (intro rnd_ge representable_of_int) auto
qed

lemma rnd_below_int:
  assumes "0 \<le> n" "n \<le> 2 ^ 23" and "x \<le> of_int n - 1 / 2 ^ 30"
  shows "flt (rnd x) (Fin (of_int n))"
proof -
  have n: "0 \<le> (of_int n :: rat)" "of_int n \<le> (8388608 :: rat)"
    using assms(1,2) by (simp_all add: of_int_le_iff [where 'a = rat and w = n and z = 8388608, simplified])
  have "fle (rnd x) (Fin (of_int n - 1 / 2 ^ 30))"
    using assms n by (intro rnd_le representable_below_int pow1024_big) (auto simp: abs_le_iff)
  then show ?thesis
    by (rule fle_flt_trans) simp
qed

theorem Seconds_ge_iff:
  assumes d: "in_int64 d" and n: "0 \<le> n" "n \<le> 2 ^ 23"
  shows "fle (f_of_int n) (Seconds d) \<longleftrightarrow> n * Second \<le> d"
proof -
  have nf: "f_of_int n = Fin (of_int n)" using n by (intro f_of_int_exact) auto
  obtain f where S: "Seconds d = rnd (of_int (quot d Second) + f)"
    and f: "0 \<le> rem d Second \<Longrightarrow> 0 \<le> f" "f \<le> 1 - 1 / 2 ^ 30"
      "rem d Second \<le> 0 \<Longrightarrow> f \<le> 0" "rem d Second < 0 \<Longrightarrow> f \<le> - (1 / 2 ^ 30)"
    using Seconds_decomp [OF d] by blast
  show ?thesis
  proof (cases "n * Second \<le> d")
    case True
    with n have nonneg: "0 \<le> d" by simp
    have "n \<le> quot d Second"
      using zdiv_mono1 [OF True, of Second] by (simp add: quot_nonneg [OF nonneg])
    then have "(of_int n :: rat) \<le> of_int (quot d Second)" by simp
    moreover have "0 \<le> f" using f(1) nonneg by (simp add: rem_nonneg)
    ultimately have "of_int n \<le> of_int (quot d Second) + f" by linarith
    with True n show ?thesis by (simp add: nf S fle_int_rnd)
  next
    case False
    have "of_int (quot d Second) + f \<le> of_int n - 1 / 2 ^ 30"
    proof (cases "0 \<le> d")
      case True
      have "quot d Second < n"
        using False by (simp add: quot_nonneg [OF True] div_less_iff_less_mult)
      then have "(of_int (quot d Second) :: rat) \<le> of_int n - 1"
        using of_int_le_iff [where 'a = rat, of "quot d Second" "n - 1"] by simp
      with f(2) show ?thesis by linarith
    next
      case neg: False
      then have q: "quot d Second = - ((- d) div Second)" and r: "rem d Second = - ((- d) mod Second)"
        by (simp_all add: quot_neg rem_neg)
      show ?thesis
      proof (cases "d \<le> - Second")
        case True
        then have "quot d Second \<le> - 1"
          using zdiv_mono1 [of Second "- d" Second] by (simp add: q)
        then have "(of_int (quot d Second) :: rat) \<le> - 1"
          using of_int_le_iff [where 'a = rat, of "quot d Second" "- 1"] by simp
        moreover have "f \<le> 0" by (rule f(3)) (simp add: r)
        moreover have "0 \<le> (of_int n :: rat)" using n by simp
        ultimately show ?thesis by simp
      next
        case small: False
        with neg have "(- d) div Second = 0" "(- d) mod Second = - d" by auto
        with neg have "quot d Second = 0" "rem d Second < 0" by (auto simp: q r)
        moreover have "0 \<le> (of_int n :: rat)" using n by simp
        ultimately show ?thesis using f(4) by simp
      qed
    qed
    then have "flt (Seconds d) (f_of_int n)"
      using n by (simp add: nf S rnd_below_int)
    with False show ?thesis by (auto dest: flt_not_fle)
  qed
qed

text \<open>Comparing \<open>t.Sub(u).Seconds()\<close> with a whole number of seconds, as the sources do for dwell times and cooldowns.\<close>

definition secs_ok :: "int \<Rightarrow> bool" where
  "secs_ok n \<longleftrightarrow> 0 \<le> n \<and> n \<le> 2 ^ 23"

lemma dwell_test:
  assumes "secs_ok n"
  shows "fle (f_of_int n) (Seconds (time_Sub t u)) \<longleftrightarrow> u + n * Second \<le> t"
proof -
  have "in_int64 (n * Second)" "- (2 ^ 63) < n * Second" using assms by (auto simp: secs_ok_def in_int64_def)
  then show ?thesis
    using assms Seconds_ge_iff [OF time_Sub_in_int64, of n t u] time_Sub_ge_iff [of "n * Second" t u]
    by (auto simp: secs_ok_def)
qed

lemma rnd_not_NaN: "rnd x \<noteq> NaN"
  unfolding rnd_def Let_def by (metis float64.distinct(1,3,5))

lemma Seconds_not_NaN: "in_int64 d \<Longrightarrow> Seconds d \<noteq> NaN"
  using Seconds_decomp [of d] rnd_not_NaN by metis

lemma cooldown_test:
  assumes "secs_ok n"
  shows "flt (Seconds (time_Sub t u)) (f_of_int n) \<longleftrightarrow> t < u + n * Second"
proof -
  have "f_of_int n \<noteq> NaN" using assms by (simp add: f_of_int_exact secs_ok_def)
  then show ?thesis
    using not_flt_fle [OF Seconds_not_NaN [OF time_Sub_in_int64], of "f_of_int n" t u] dwell_test [OF assms, of t u] by auto
qed

subsection \<open>Civil dates\<close>

text \<open>
  The proleptic Gregorian date of a day number (day 0 is 0001-01-01), by the cycles of 400, 100, 4
  and 1 years: the year and the zero-based day of that year.
\<close>

definition civil :: "int \<Rightarrow> int \<times> int" where
  "civil d =
     (let n400 = d div 146097; r = d mod 146097;
          n100 = r div 36524 - r div 36524 div 4; r = r - n100 * 36524;
          n4 = r div 1461; r = r mod 1461;
          n1 = r div 365 - r div 365 div 4
      in (400 * n400 + 100 * n100 + 4 * n4 + n1 + 1, r - n1 * 365))"

definition leap_year :: "int \<Rightarrow> bool" where
  "leap_year y \<longleftrightarrow> y mod 4 = 0 \<and> (y mod 100 \<noteq> 0 \<or> y mod 400 = 0)"

definition month_lengths :: "int \<Rightarrow> int list" where
  "month_lengths y = [31, if leap_year y then 29 else 28, 31, 30, 31, 30, 31, 31, 30, 31, 30]"

fun month_day :: "int list \<Rightarrow> int \<Rightarrow> int \<Rightarrow> int \<times> int" where
  "month_day [] m d = (m, d + 1)"
| "month_day (l # ls) m d = (if d < l then (m, d + 1) else month_day ls (m + 1) (d - l))"

definition pad_int :: "nat \<Rightarrow> int \<Rightarrow> string" where
  "pad_int w i = (if i < 0 then CHR ''-'' # pad_nat w (nat (- i)) else pad_nat w (nat i))"

definition strip_zeros :: "string \<Rightarrow> string" where
  "strip_zeros s = rev (dropWhile (\<lambda>c. c = CHR ''0'') (rev s))"

definition format_frac :: "int \<Rightarrow> string" where
  "format_frac ns = (if ns = 0 then [] else CHR ''.'' # strip_zeros (pad_int 9 ns))"

definition format_date :: "int \<Rightarrow> string" where
  "format_date days =
     (let (y, yd) = civil days; (m, d) = month_day (month_lengths y) 1 yd
      in pad_int 4 y @ ''-'' @ pad_int 2 m @ ''-'' @ pad_int 2 d)"

definition format_clock :: "int \<Rightarrow> string" where
  "format_clock s =
     pad_int 2 (s div 3600) @ '':'' @ pad_int 2 (s mod 3600 div 60) @ '':'' @ pad_int 2 (s mod 60)"

text \<open>\<open>t.UTC().Format(time.RFC3339Nano)\<close>: trailing zeros of the fraction are dropped.\<close>

definition format_rfc3339nano :: "time \<Rightarrow> string" where
  "format_rfc3339nano t =
     (let days = t div (86400 * Second); tod = t mod (86400 * Second)
      in format_date days @ ''T'' @ format_clock (tod div Second) @ format_frac (tod mod Second) @ ''Z'')"

text \<open>The instants whose year has four digits, the ones the JSON decoder accepts.\<close>

definition four_digit_year :: "time \<Rightarrow> bool" where
  "four_digit_year t \<longleftrightarrow> 0 \<le> fst (civil (t div (86400 * Second))) \<and> fst (civil (t div (86400 * Second))) \<le> 9999"

subsubsection \<open>A printed instant determines the instant\<close>

definition day_number :: "int \<times> int \<Rightarrow> int" where
  "day_number = (\<lambda>(year, yd).
     let y = year - 1
     in 146097 * (y div 400) + 36524 * (y mod 400 div 100) + 1461 * (y mod 100 div 4)
        + 365 * (y mod 4) + yd)"

lemma mixed_radix_year:
  fixes n400 n100 n4 n1 :: int
  assumes "0 \<le> n100" "n100 < 4" "0 \<le> n4" "n4 < 25" "0 \<le> n1" "n1 < 4"
    and "y = 400 * n400 + 100 * n100 + 4 * n4 + n1"
  shows "y div 400 = n400" "y mod 400 div 100 = n100" "y mod 100 div 4 = n4" "y mod 4 = n1"
proof -
  have r: "0 \<le> 100 * n100 + 4 * n4 + n1" "100 * n100 + 4 * n4 + n1 < 400"
    using assms by linarith+
  have y: "y = (100 * n100 + 4 * n4 + n1) + n400 * 400" using assms by simp
  show "y div 400 = n400" using r y by simp
  have "y mod 400 = 100 * n100 + 4 * n4 + n1" using r y by simp
  moreover have "(4 * n4 + n1 + n100 * 100) div 100 = n100" using assms by simp
  ultimately show "y mod 400 div 100 = n100" by (simp add: algebra_simps)
  have y100: "y = (4 * n4 + n1) + (4 * n400 + n100) * 100" using assms by simp
  have "y mod 100 = 4 * n4 + n1" unfolding y100 using assms by (simp only: mod_mult_self1) simp
  moreover have "(n1 + n4 * 4) div 4 = n4" using assms by simp
  ultimately show "y mod 100 div 4 = n4" by (simp add: algebra_simps)
  have y4: "y = n1 + (100 * n400 + 25 * n100 + n4) * 4" using assms by simp
  show "y mod 4 = n1" unfolding y4 using assms by (simp only: mod_mult_self1) simp
qed

text \<open>Cutting a cycle of \<open>4 k + 1\<close> days into four parts, the last one a day longer.\<close>

lemma cycle_cut:
  fixes r k :: int
  assumes "0 \<le> r" "r \<le> 4 * k" "0 < k"
  defines "n \<equiv> r div k - r div k div 4"
  shows "0 \<le> n" "n < 4" "0 \<le> r - n * k" "r - n * k \<le> k"
proof -
  have q: "0 \<le> r div k" "r div k \<le> 4"
    using assms zdiv_mono1 [of r "4 * k" k] by (simp_all add: pos_imp_zdiv_nonneg_iff)
  have cut: "r = r div k * k + r mod k" "0 \<le> r mod k" "r mod k < k"
    using assms by simp_all
  consider "r div k = 4" | "r div k < 4" using q by linarith
  then have "0 \<le> n \<and> n < 4 \<and> 0 \<le> r - n * k \<and> r - n * k \<le> k"
  proof cases
    case 1
    then have "n = 3" by (simp add: n_def)
    moreover have "r = 4 * k + r mod k" using cut(1) 1 by metis
    ultimately show ?thesis using cut(2,3) assms(2) by simp
  next
    case 2
    then have "n = r div k" using q by (simp add: n_def)
    then have "r - n * k = r mod k" by (simp add: minus_div_mult_eq_mod)
    with q 2 cut(2,3) \<open>n = r div k\<close> show ?thesis by simp
  qed
  then show "0 \<le> n" "n < 4" "0 \<le> r - n * k" "r - n * k \<le> k" by simp_all
qed

lemma day_number_civil: "day_number (civil d) = d"
proof -
  define r0 where "r0 = d mod 146097"
  define n100 where "n100 = r0 div 36524 - r0 div 36524 div 4"
  define r1 where "r1 = r0 - n100 * 36524"
  define n4 where "n4 = r1 div 1461"
  define r2 where "r2 = r1 mod 1461"
  define n1 where "n1 = r2 div 365 - r2 div 365 div 4"
  have c: "civil d = (400 * (d div 146097) + 100 * n100 + 4 * n4 + n1 + 1, r2 - n1 * 365)"
    unfolding civil_def Let_def n1_def r2_def n4_def r1_def n100_def r0_def by (rule refl)
  have r0: "0 \<le> r0" "r0 < 146097" by (simp_all add: r0_def)
  then have n100: "0 \<le> n100" "n100 < 4" and r1: "0 \<le> r1" "r1 \<le> 36524"
    using cycle_cut [of r0 36524] by (simp_all add: n100_def r1_def)
  have n4: "0 \<le> n4" "n4 < 25"
    using r1 zdiv_mono1 [of r1 36524 1461] by (simp_all add: n4_def pos_imp_zdiv_nonneg_iff)
  have r2: "0 \<le> r2" "r2 < 1461" by (simp_all add: r2_def)
  then have n1: "0 \<le> n1" "n1 < 4"
    using cycle_cut [of r2 365] by (simp_all add: n1_def)
  note y = mixed_radix_year [OF n100 n4 n1 refl, of "d div 146097"]
  have "d = 146097 * (d div 146097) + r0" by (simp add: r0_def)
  moreover have "r0 = 36524 * n100 + r1" by (simp add: r1_def)
  moreover have "r1 = 1461 * n4 + r2" by (simp add: n4_def r2_def)
  ultimately show ?thesis
    unfolding c day_number_def by (simp add: Let_def y del: One_nat_def)
qed

lemma civil_inject: "civil d = civil e \<longleftrightarrow> d = e"
  by (metis day_number_civil)

lemma civil_yday_bounds: "0 \<le> snd (civil d)" "snd (civil d) \<le> 365"
proof -
  have "0 \<le> r mod 1461 - (r mod 1461 div 365 - r mod 1461 div 365 div 4) * 365 \<and>
      r mod 1461 - (r mod 1461 div 365 - r mod 1461 div 365 div 4) * 365 \<le> 365" for r :: int
    using cycle_cut(3,4) [of "r mod 1461" 365] pos_mod_bound [of 1461 r] by simp
  then show "0 \<le> snd (civil d)" "snd (civil d) \<le> 365"
    by (simp_all only: civil_def Let_def snd_conv)
qed

lemma month_day_month: "m \<le> fst (month_day ls m d)"
  by (induction ls m d rule: month_day.induct) auto

lemma month_day_inject: "month_day ls m d = month_day ls m e \<Longrightarrow> d = e"
proof (induction ls arbitrary: m d e)
  case Nil
  then show ?case by simp
next
  case (Cons l ls)
  have no: "month_day ls (m + 1) x \<noteq> (m, y)" for x y
    using month_day_month [of "m + 1" ls x] by auto
  show ?case
    using Cons.prems Cons.IH [of "m + 1" "d - l" "e - l"] no [of "d - l" "e + 1"] no [of "e - l" "d + 1"]
    by (auto split: if_splits dest: sym)
qed

lemma month_day_bounds:
  "0 \<le> d \<Longrightarrow> (\<forall>l \<in> set ls. 0 < l) \<Longrightarrow> d < sum_list ls + 40 \<Longrightarrow> (\<forall>l \<in> set ls. l < 40) \<Longrightarrow>
   m \<le> fst (month_day ls m d) \<and> fst (month_day ls m d) \<le> m + int (length ls)
   \<and> 1 \<le> snd (month_day ls m d) \<and> snd (month_day ls m d) \<le> 40"
  by (induction ls m d rule: month_day.induct) auto

lemma civil_month_day_bounds:
  assumes "civil days = (y, yd)" and "month_day (month_lengths y) 1 yd = (m, d)"
  shows "1 \<le> m" "m \<le> 12" "1 \<le> d" "d \<le> 40"
  using month_day_bounds [of yd "month_lengths y" 1] civil_yday_bounds [of days] assms
  by (auto simp: month_lengths_def split: if_splits)

text \<open>Padded numerals: parsing ignores the leading zeros, so they determine the number.\<close>

lemma parse_pad_nat [simp]: "parse_nat (pad_nat w n) = Some n"
proof -
  have zero: "char_digit (CHR ''0'') = Some 0" by (simp add: char_digit_def)
  have lead: "digits_value (replicate k 0 @ ds) = digits_value ds" for k ds
    by (induction k) (simp_all add: digits_value_def)
  have dg: "map (\<lambda>c. the (char_digit c)) (show_nat n) = nat_digits n"
    unfolding show_nat_def by (rule map_digit_inverse) (auto dest: nat_digits_lt10)
  have "\<forall>c \<in> set (pad_nat w n). char_digit c \<noteq> None"
    using zero show_nat_chars by (auto simp: pad_nat_def)
  then show ?thesis
    by (auto simp: parse_nat_def pad_nat_def zero dg lead simp del: replicate.simps)
qed

lemma pad_nat_inject [simp]: "pad_nat w m = pad_nat w n \<longleftrightarrow> m = n"
  by (metis option.inject parse_pad_nat)

lemma pad_int_inject: "0 \<le> i \<Longrightarrow> 0 \<le> j \<Longrightarrow> pad_int w i = pad_int w j \<longleftrightarrow> i = j"
  by (simp add: pad_int_def eq_nat_nat_iff)

lemma length_nat_digits: "n < 10 ^ Suc w \<Longrightarrow> length (nat_digits n) \<le> Suc w"
proof (induction w arbitrary: n)
  case 0
  then show ?case by (simp add: nat_digits.simps)
next
  case (Suc w)
  then show ?case
    by (cases "n < 10") (simp_all add: nat_digits.simps [of n] less_mult_imp_div_less)
qed

lemma length_pad_nat: "n < 10 ^ w \<Longrightarrow> 0 < w \<Longrightarrow> length (pad_nat w n) = w"
  using length_nat_digits [of n "w - 1"] by (simp add: pad_nat_def show_nat_def)

lemma length_pad_int: "0 \<le> i \<Longrightarrow> i < 10 ^ w \<Longrightarrow> 0 < w \<Longrightarrow> length (pad_int w i) = w"
  by (simp add: pad_int_def length_pad_nat nat_less_iff)

lemma pad_int_append_inject:
  assumes "pad_int w i @ x = pad_int w j @ y" "0 \<le> i" "i < 10 ^ w" "0 \<le> j" "j < 10 ^ w" "0 < w"
  shows "i = j \<and> x = y"
  using assms append_eq_append_conv [of "pad_int w i" "pad_int w j" x y]
  by (simp add: length_pad_int pad_int_inject)

lemma strip_zeros_split: "\<exists>k. s = strip_zeros s @ replicate k (CHR ''0'')"
proof -
  have "rev s = takeWhile (\<lambda>c. c = CHR ''0'') (rev s) @ dropWhile (\<lambda>c. c = CHR ''0'') (rev s)"
    by simp
  then have "s = strip_zeros s @ rev (takeWhile (\<lambda>c. c = CHR ''0'') (rev s))"
    unfolding strip_zeros_def by (metis rev_append rev_rev_ident)
  moreover have "takeWhile (\<lambda>c. c = CHR ''0'') (rev s) =
      replicate (length (takeWhile (\<lambda>c. c = CHR ''0'') (rev s))) (CHR ''0'')"
    by (intro replicate_eqI) (auto dest: set_takeWhileD)
  ultimately show ?thesis by (metis rev_replicate)
qed

lemma strip_zeros_inject:
  assumes "strip_zeros s = strip_zeros t" and "length s = length t"
  shows "s = t"
proof -
  obtain j k where "s = strip_zeros s @ replicate j (CHR ''0'')" "t = strip_zeros t @ replicate k (CHR ''0'')"
    using strip_zeros_split by blast
  moreover from this assms have "j = k"
    by (metis add_left_cancel length_append length_replicate)
  ultimately show ?thesis using assms(1) by simp
qed

lemma format_frac_inject:
  assumes "format_frac a = format_frac b" "0 \<le> a" "a < Second" "0 \<le> b" "b < Second"
  shows "a = b"
  using assms strip_zeros_inject [of "pad_int 9 a" "pad_int 9 b"]
  by (auto simp: format_frac_def length_pad_int pad_int_inject split: if_splits)

lemma pad_nat_chars: "c \<in> set (pad_nat w n) \<Longrightarrow> char_digit c \<noteq> None"
  using show_nat_chars by (auto simp: pad_nat_def char_digit_def)

lemma Z_notin_format_frac: "0 \<le> n \<Longrightarrow> CHR ''Z'' \<notin> set (format_frac n)"
  using pad_nat_chars [of "CHR ''Z''" 9 "nat n"]
  by (auto simp: format_frac_def strip_zeros_def pad_int_def char_digit_def dest!: set_dropWhileD)

lemma length_format_clock: "0 \<le> s \<Longrightarrow> s < 86400 \<Longrightarrow> length (format_clock s) = 8"
proof -
  assume s: "0 \<le> s" "s < 86400"
  then have "s div 3600 < 24" "0 \<le> s div 3600" "s mod 3600 div 60 < 60" "0 \<le> s mod 3600 div 60"
    by (simp_all add: div_less_iff_less_mult pos_imp_zdiv_nonneg_iff)
  then show ?thesis by (simp add: format_clock_def length_pad_int)
qed

lemma format_clock_inject:
  assumes "format_clock s = format_clock t" "0 \<le> s" "s < 86400" "0 \<le> t" "t < 86400"
  shows "s = t"
proof -
  have b: "0 \<le> x div 3600" "x div 3600 < 100" "0 \<le> x mod 3600 div 60" "x mod 3600 div 60 < 100"
    if "0 \<le> x" "x < 86400" for x :: int
    using that by (simp_all add: div_less_iff_less_mult pos_imp_zdiv_nonneg_iff)
  have m: "0 \<le> x mod 60" "x mod 60 < 100" for x :: int
    using pos_mod_bound [of 60 x] by simp_all
  have digits: "i = i' \<and> j = j' \<and> k = k'"
    if "pad_int 2 i @ '':'' @ pad_int 2 j @ '':'' @ pad_int 2 k =
        pad_int 2 i' @ '':'' @ pad_int 2 j' @ '':'' @ pad_int 2 k'"
      and "0 \<le> i" "i < 100" "0 \<le> i'" "i' < 100" "0 \<le> j" "j < 100" "0 \<le> j'" "j' < 100"
        "0 \<le> k" "k < 100" "0 \<le> k'" "k' < 100" for i j k i' j' k' :: int
  proof -
    have i: "i = i' \<and> '':'' @ pad_int 2 j @ '':'' @ pad_int 2 k = '':'' @ pad_int 2 j' @ '':'' @ pad_int 2 k'"
      by (rule pad_int_append_inject [OF that(1)]) (use that in simp_all)
    then have "pad_int 2 j @ '':'' @ pad_int 2 k = pad_int 2 j' @ '':'' @ pad_int 2 k'" by simp
    from pad_int_append_inject [OF this] that i pad_int_inject [of k k' 2] show ?thesis by simp
  qed
  have "s div 3600 = t div 3600 \<and> s mod 3600 div 60 = t mod 3600 div 60 \<and> s mod 60 = t mod 60"
    using digits [OF assms(1) [unfolded format_clock_def]] b [OF assms(2,3)] b [OF assms(4,5)]
      m [of s] m [of t] by blast
  moreover have "x = x div 3600 * 3600 + (x mod 3600 div 60 * 60 + x mod 60)" for x :: int
  proof -
    have "x mod 3600 mod 60 = x mod 60" by (rule mod_mod_cancel) simp
    then have "x mod 3600 div 60 * 60 + x mod 60 = x mod 3600"
      using div_mult_mod_eq [of "x mod 3600" 60] by argo
    then show ?thesis by (simp only: div_mult_mod_eq)
  qed
  ultimately show ?thesis by metis
qed

lemma length_format_date:
  assumes "0 \<le> fst (civil days)" "fst (civil days) \<le> 9999"
  shows "length (format_date days) = 10"
proof -
  obtain y yd m d where c: "civil days = (y, yd)" "month_day (month_lengths y) 1 yd = (m, d)"
    by fastforce
  with civil_month_day_bounds [OF c] assms show ?thesis
    by (simp add: format_date_def length_pad_int)
qed

lemma format_date_inject:
  assumes "format_date a = format_date b"
    and "0 \<le> fst (civil a)" "fst (civil a) \<le> 9999" "0 \<le> fst (civil b)" "fst (civil b) \<le> 9999"
  shows "a = b"
proof -
  obtain y yd m d where c: "civil a = (y, yd)" "month_day (month_lengths y) 1 yd = (m, d)"
    by fastforce
  obtain y' yd' m' d' where c': "civil b = (y', yd')" "month_day (month_lengths y') 1 yd' = (m', d')"
    by fastforce
  have "y = y' \<and> m = m' \<and> d = d'"
    using assms c c' civil_month_day_bounds [OF c] civil_month_day_bounds [OF c']
    by (simp add: format_date_def length_pad_int pad_int_inject append_eq_append_conv)
  with c c' have "civil a = civil b"
    using month_day_inject [of "month_lengths y" 1 yd yd'] by simp
  then show ?thesis by (simp add: civil_inject)
qed

theorem format_rfc3339nano_inject:
  assumes "format_rfc3339nano t @ x = format_rfc3339nano u @ y"
    and "four_digit_year t" "four_digit_year u"
  shows "t = u \<and> x = y"
proof -
  let ?D = "86400 * Second"
  define dt du where "dt = t div ?D" and "du = u div ?D"
  define st su where "st = t mod ?D div Second" and "su = u mod ?D div Second"
  define nt nu where "nt = t mod ?D mod Second" and "nu = u mod ?D mod Second"
  note defs = dt_def du_def st_def su_def nt_def nu_def
  have s: "0 \<le> st" "st < 86400" "0 \<le> su" "su < 86400"
    by (simp_all add: defs pos_imp_zdiv_nonneg_iff div_less_iff_less_mult)
  have n: "0 \<le> nt" "nt < Second" "0 \<le> nu" "nu < Second" by (simp_all add: defs)
  have len: "length (format_date dt) = length (format_date du)"
    using assms(2,3) by (simp add: four_digit_year_def length_format_date dt_def du_def)
  have eq: "format_date dt @ CHR ''T'' # format_clock st @ format_frac nt @ CHR ''Z'' # x =
      format_date du @ CHR ''T'' # format_clock su @ format_frac nu @ CHR ''Z'' # y"
    using assms(1) by (simp add: format_rfc3339nano_def Let_def defs)
  then have date: "format_date dt = format_date du"
    and rest: "format_clock st @ format_frac nt @ CHR ''Z'' # x = format_clock su @ format_frac nu @ CHR ''Z'' # y"
    using len by (auto simp: append_eq_append_conv)
  from rest have clock: "format_clock st = format_clock su"
    and tail: "format_frac nt @ CHR ''Z'' # x = format_frac nu @ CHR ''Z'' # y"
    using s by (auto simp: append_eq_append_conv length_format_clock)
  have "format_frac nt = format_frac nu \<and> x = y"
    using append_sep_inject [OF tail] n by (simp add: Z_notin_format_frac)
  then have "nt = nu" "x = y" using format_frac_inject n by auto
  moreover have "dt = du"
    using format_date_inject [OF date] assms(2,3) by (simp add: four_digit_year_def dt_def du_def)
  moreover have "st = su" using format_clock_inject [OF clock s] .
  moreover have "v = v div ?D * ?D + (v mod ?D div Second * Second + v mod ?D mod Second)" for v :: int
    by (simp only: div_mult_mod_eq)
  ultimately show ?thesis by (metis defs)
qed

end
