(* ===== verification/GoLib.thy ===== *)
theory GoLib
  imports GoTime "HOL-Library.Word"
begin

section \<open>Library functions the sources call\<close>

text \<open>
  The functions of other packages whose results the sources only pass on are the fields of
  \<open>go_lib\<close>, an argument of every definition that uses one: the JSON encoder, SHA-256 and HMAC, the
  shortest float formatting of the verb \<open>%v\<close>, and the elementary functions of package \<open>math\<close>. The
  theorems hold for every value of the record, so they depend on no property of these functions
  beyond what a hypothesis names. \<open>hex.EncodeToString\<close> is defined here.
\<close>

record go_lib =
  json_Marshal :: "jobj \<Rightarrow> string"
  sha256_Sum256 :: "string \<Rightarrow> 8 word list"
  hmac_sha256 :: "string \<Rightarrow> string \<Rightarrow> 8 word list"
  fmt_float :: "float64 \<Rightarrow> string"
  math_Sin :: "float64 \<Rightarrow> float64"
  math_Cos :: "float64 \<Rightarrow> float64"
  math_Asin :: "float64 \<Rightarrow> float64"
  math_Sqrt :: "float64 \<Rightarrow> float64"

text \<open>The constant \<open>math.Pi\<close> rounded to float64.\<close>

definition math_Pi :: float64 where
  "math_Pi = Fin (884279719003555 / 281474976710656)"

definition hex_digit :: "nat \<Rightarrow> char" where
  "hex_digit d = (if d < 10 then char_of (48 + d) else char_of (87 + d))"

definition hex_byte :: "8 word \<Rightarrow> string" where
  "hex_byte w = [hex_digit (unat w div 16), hex_digit (unat w mod 16)]"

definition hex_EncodeToString :: "8 word list \<Rightarrow> string" where
  "hex_EncodeToString ws = concat (map hex_byte ws)"

lemma of_char_hex_digit: "d < 16 \<Longrightarrow> of_char (hex_digit d) = (if d < 10 then 48 + d else 87 + d :: nat)"
  by (simp add: hex_digit_def)

lemma hex_digit_inject: "d < 16 \<Longrightarrow> e < 16 \<Longrightarrow> hex_digit d = hex_digit e \<longleftrightarrow> d = e"
proof
  assume d: "d < 16" and e: "e < 16" and "hex_digit d = hex_digit e"
  then have "(of_char (hex_digit d) :: nat) = of_char (hex_digit e)" by simp
  then have "(if d < 10 then 48 + d else 87 + d) = (if e < 10 then 48 + e else 87 + e)"
    by (simp only: of_char_hex_digit [OF d] of_char_hex_digit [OF e])
  then show "d = e" by (simp split: if_splits)
qed simp

lemma hex_digit_sep: "d < 16 \<Longrightarrow> hex_digit d \<noteq> CHR ''|'' \<and> hex_digit d \<noteq> CHR '':''"
proof -
  assume d: "d < 16"
  have "(of_char (hex_digit d) :: nat) \<noteq> 124" "(of_char (hex_digit d) :: nat) \<noteq> 58"
    using d by (simp_all add: of_char_hex_digit)
  then show ?thesis by auto
qed

lemma unat_byte_lt: "unat (w :: 8 word) < 256"
  using unsigned_less [of w, where 'a = nat] by simp

lemma hex_byte_inject [simp]: "hex_byte v = hex_byte w \<longleftrightarrow> v = w"
proof
  assume "hex_byte v = hex_byte w"
  moreover have "unat x div 16 < 16" "unat x mod 16 < 16" for x :: "8 word"
    using unat_byte_lt [of x] by (simp_all add: less_mult_imp_div_less)
  ultimately have "unat v div 16 = unat w div 16" "unat v mod 16 = unat w mod 16"
    by (simp_all add: hex_byte_def hex_digit_inject)
  then have "unat v = unat w" by (metis div_mult_mod_eq)
  then show "v = w" by (simp add: word_unat_eq_iff)
qed simp

lemma length_hex_byte [simp]: "length (hex_byte w) = 2"
  by (simp add: hex_byte_def)

lemma hex_EncodeToString_inject: "hex_EncodeToString u = hex_EncodeToString v \<longleftrightarrow> u = v"
proof
  show "hex_EncodeToString u = hex_EncodeToString v \<Longrightarrow> u = v"
  proof (induction u arbitrary: v)
    case Nil
    then show ?case by (cases v) (auto simp: hex_EncodeToString_def hex_byte_def)
  next
    case (Cons a u)
    then obtain b w where v: "v = b # w"
      by (cases v) (auto simp: hex_EncodeToString_def hex_byte_def)
    have "hex_byte a = hex_byte b \<and> hex_EncodeToString u = hex_EncodeToString w"
      using Cons.prems by (simp add: v hex_EncodeToString_def append_eq_append_conv)
    with Cons.IH v show ?case by simp
  qed
qed simp

lemma hex_chars: "c \<in> set (hex_EncodeToString ws) \<Longrightarrow> c \<noteq> CHR ''|'' \<and> c \<noteq> CHR '':''"
proof -
  have "unat x div 16 < 16" "unat x mod 16 < 16" for x :: "8 word"
    using unat_byte_lt [of x] by (simp_all add: less_mult_imp_div_less)
  then show "c \<in> set (hex_EncodeToString ws) \<Longrightarrow> ?thesis"
    using hex_digit_sep by (auto simp: hex_EncodeToString_def hex_byte_def)
qed

text \<open>A concrete library record, used where a theorem is applied to a concrete input.\<close>

definition plain_lib :: go_lib where
  "plain_lib =
     \<lparr>json_Marshal = (\<lambda>_. ''{}''), sha256_Sum256 = (\<lambda>_. replicate 32 0),
      hmac_sha256 = (\<lambda>k m. map (\<lambda>c. of_nat (of_char c)) (k @ m)), fmt_float = (\<lambda>_. ''0''),
      math_Sin = (\<lambda>x. x), math_Cos = (\<lambda>_. Fin 1), math_Asin = (\<lambda>x. x), math_Sqrt = (\<lambda>x. x)\<rparr>"

end
