(* ===== verification/Telemetry.thy ===== *)
theory Telemetry
  imports GoLib
begin

section \<open>The canonical telemetry contract (schemas/telemetry)\<close>

text \<open>
  The record of one vehicle observation, \<open>Validate\<close> with its checks in the order of the source,
  and the identity string \<open>DedupKey\<close>. Pointer fields are options; the raw payload may be the nil map.
  Integer fields hold int64 values. The lemmas give what an accepted point satisfies and when two
  points share an identity.
\<close>

definition CurrentSchemaVersion :: int where
  "CurrentSchemaVersion = 1"

record location =
  loc_Lat :: float64
  loc_Lng :: float64
  loc_Altitude :: "float64 option"
  loc_Accuracy :: "float64 option"

record source =
  src_Provider :: string
  src_Protocol :: string
  src_DeviceID :: string

record metadata =
  md_CorrelationID :: string
  md_SchemaVersion :: int
  md_Sequence :: "int option"
  md_Quality :: string

record telemetry =
  tel_ID :: string
  tel_TenantID :: string
  tel_VehicleID :: string
  tel_DeviceID :: string
  tel_Timestamp :: time
  tel_ReceivedAt :: time
  tel_ProcessedAt :: time
  tel_Location :: location
  tel_SpeedKmh :: "float64 option"
  tel_Heading :: "float64 option"
  tel_Ignition :: "bool option"
  tel_OdometerM :: "float64 option"
  tel_FuelLevelL :: "float64 option"
  tel_BatteryVolt :: "float64 option"
  tel_Engine :: "jobj option"
  tel_Sensors :: "jobj option"
  tel_Raw :: "jobj option"
  tel_Source :: source
  tel_Metadata :: metadata

text \<open>The zero values of the structs, as \<open>var t Telemetry\<close> declares them.\<close>

definition zero_location :: location where
  "zero_location = \<lparr>loc_Lat = Fin 0, loc_Lng = Fin 0, loc_Altitude = None, loc_Accuracy = None\<rparr>"

definition zero_source :: source where
  "zero_source = \<lparr>src_Provider = [], src_Protocol = [], src_DeviceID = []\<rparr>"

definition zero_metadata :: metadata where
  "zero_metadata =
     \<lparr>md_CorrelationID = [], md_SchemaVersion = 0, md_Sequence = None, md_Quality = []\<rparr>"

definition zero_telemetry :: telemetry where
  "zero_telemetry =
     \<lparr>tel_ID = [], tel_TenantID = [], tel_VehicleID = [], tel_DeviceID = [], tel_Timestamp = 0,
      tel_ReceivedAt = 0, tel_ProcessedAt = 0, tel_Location = zero_location, tel_SpeedKmh = None,
      tel_Heading = None, tel_Ignition = None, tel_OdometerM = None, tel_FuelLevelL = None,
      tel_BatteryVolt = None, tel_Engine = None, tel_Sensors = None, tel_Raw = None,
      tel_Source = zero_source, tel_Metadata = zero_metadata\<rparr>"

subsection \<open>Operations\<close>

definition out_of_range :: "rat \<Rightarrow> float64 \<Rightarrow> bool" where
  "out_of_range b x \<longleftrightarrow> flt x (Fin (- b)) \<or> flt (Fin b) x"

definition telemetry_Validate :: "telemetry \<Rightarrow> go_error option" where
  "telemetry_Validate t =
     (if tel_TenantID t = [] then Some ''tenantId required''
      else if tel_VehicleID t = [] then Some ''vehicleId required''
      else if tel_DeviceID t = [] then Some ''deviceId required''
      else if IsZero (tel_Timestamp t) \<or> IsZero (tel_ReceivedAt t)
        then Some ''timestamp and receivedAt required''
      else if out_of_range 90 (loc_Lat (tel_Location t)) then Some ''location.lat out of range''
      else if out_of_range 180 (loc_Lng (tel_Location t)) then Some ''location.lng out of range''
      else if (case tel_SpeedKmh t of None \<Rightarrow> False | Some s \<Rightarrow> flt s (Fin 0))
        then Some ''speed must be >= 0 km/h''
      else if (case tel_Heading t of None \<Rightarrow> False | Some h \<Rightarrow> flt h (Fin 0) \<or> fle (Fin 360) h)
        then Some ''heading must be [0,360)''
      else if (case tel_FuelLevelL t of None \<Rightarrow> False | Some f \<Rightarrow> flt f (Fin 0))
        then Some ''fuelLevel must be >= 0 litres''
      else if md_SchemaVersion (tel_Metadata t) \<noteq> CurrentSchemaVersion
        then Some (''unsupported schemaVersion '' @ show_int (md_SchemaVersion (tel_Metadata t))
                   @ '' (want '' @ show_int CurrentSchemaVersion @ '')'')
      else if tel_Raw t = None then Some ''raw payload must be preserved (may be {})''
      else None)"

definition DedupKey :: "go_lib \<Rightarrow> telemetry \<Rightarrow> string" where
  "DedupKey L t =
     (case md_Sequence (tel_Metadata t) of
        Some q \<Rightarrow> src_Provider (tel_Source t) @ ''|'' @ src_DeviceID (tel_Source t)
                  @ ''|seq:'' @ show_int q
      | None \<Rightarrow>
          (let raw = (case tel_Raw t of None \<Rightarrow> ''null'' | Some m \<Rightarrow> json_Marshal L m);
               sum = sha256_Sum256 L raw
           in src_Provider (tel_Source t) @ ''|'' @ src_DeviceID (tel_Source t) @ ''|''
              @ format_rfc3339nano (tel_Timestamp t) @ ''|'' @ hex_EncodeToString (take 8 sum)))"

subsection \<open>What an accepted point satisfies\<close>

text \<open>The range tests reject a number outside the range, and let NaN through.\<close>

definition in_range_or_NaN :: "rat \<Rightarrow> float64 \<Rightarrow> bool" where
  "in_range_or_NaN b x \<longleftrightarrow> x = NaN \<or> (\<exists>r. x = Fin r \<and> - b \<le> r \<and> r \<le> b)"

lemma out_of_range_iff: "out_of_range b x \<longleftrightarrow> \<not> in_range_or_NaN b x"
  by (cases x) (auto simp: out_of_range_def in_range_or_NaN_def)

lemma check_chain_None: "(if b then Some e else r) = None \<longleftrightarrow> \<not> b \<and> r = None"
  by simp

lemma telemetry_Validate_ok_iff:
  "telemetry_Validate t = None \<longleftrightarrow>
     tel_TenantID t \<noteq> [] \<and> tel_VehicleID t \<noteq> [] \<and> tel_DeviceID t \<noteq> []
     \<and> tel_Timestamp t \<noteq> 0 \<and> tel_ReceivedAt t \<noteq> 0
     \<and> in_range_or_NaN 90 (loc_Lat (tel_Location t)) \<and> in_range_or_NaN 180 (loc_Lng (tel_Location t))
     \<and> (\<forall>s. tel_SpeedKmh t = Some s \<longrightarrow> s = NaN \<or> fle (Fin 0) s)
     \<and> (\<forall>h. tel_Heading t = Some h \<longrightarrow> h = NaN \<or> (fle (Fin 0) h \<and> flt h (Fin 360)))
     \<and> (\<forall>f. tel_FuelLevelL t = Some f \<longrightarrow> f = NaN \<or> fle (Fin 0) f)
     \<and> md_SchemaVersion (tel_Metadata t) = CurrentSchemaVersion \<and> tel_Raw t \<noteq> None"
proof -
  have neg: "\<not> flt s (Fin 0) \<longleftrightarrow> s = NaN \<or> fle (Fin 0) s" for s
    by (cases s) (auto simp: fle_def)
  have hd: "\<not> (flt h (Fin 0) \<or> fle (Fin 360) h) \<longleftrightarrow> h = NaN \<or> (fle (Fin 0) h \<and> flt h (Fin 360))" for h
    by (cases h) (auto simp: fle_def)
  have opt: "\<not> (case x of None \<Rightarrow> False | Some y \<Rightarrow> P y) \<longleftrightarrow> (\<forall>y. x = Some y \<longrightarrow> \<not> P y)"
    for x :: "float64 option" and P
    by (cases x) auto
  show ?thesis
    unfolding telemetry_Validate_def IsZero_def out_of_range_iff check_chain_None opt neg hd
    by blast
qed

text \<open>A small well-formed point, for concrete instances of the theorems.\<close>

definition point_at :: "string \<Rightarrow> time \<Rightarrow> float64 option \<Rightarrow> bool option \<Rightarrow> int option \<Rightarrow> telemetry" where
  "point_at v ts speed ign seq = zero_telemetry
     \<lparr>tel_ID := ''x'', tel_TenantID := ''t'', tel_VehicleID := v, tel_DeviceID := ''d'',
      tel_Timestamp := ts, tel_ReceivedAt := ts, tel_SpeedKmh := speed, tel_Ignition := ign,
      tel_Raw := Some [],
      tel_Source := \<lparr>src_Provider = ''sim'', src_Protocol = ''mqtt'', src_DeviceID = ''d''\<rparr>,
      tel_Metadata := \<lparr>md_CorrelationID = ''c'', md_SchemaVersion = 1, md_Sequence = seq,
                        md_Quality = ''good''\<rparr>\<rparr>"

lemmas point_at_simps = point_at_def zero_telemetry_def zero_location_def zero_source_def zero_metadata_def

lemma point_at_valid:
  "v \<noteq> [] \<Longrightarrow> ts \<noteq> 0 \<Longrightarrow> (\<forall>s. speed = Some s \<longrightarrow> fle (Fin 0) s) \<Longrightarrow>
   telemetry_Validate (point_at v ts speed ign seq) = None"
  by (auto simp: telemetry_Validate_ok_iff point_at_simps in_range_or_NaN_def CurrentSchemaVersion_def)

subsection \<open>The identity of a point\<close>

definition dedup_identity :: "go_lib \<Rightarrow> telemetry \<Rightarrow> string \<times> string \<times> (int + time \<times> 8 word list)" where
  "dedup_identity L t =
     (src_Provider (tel_Source t), src_DeviceID (tel_Source t),
      case md_Sequence (tel_Metadata t) of
        Some q \<Rightarrow> Inl q
      | None \<Rightarrow> Inr (tel_Timestamp t,
          take 8 (sha256_Sum256 L (case tel_Raw t of None \<Rightarrow> ''null'' | Some m \<Rightarrow> json_Marshal L m))))"

definition identity_string :: "int + time \<times> 8 word list \<Rightarrow> string" where
  "identity_string i =
     (case i of Inl q \<Rightarrow> ''seq:'' @ show_int q
      | Inr (ts, h) \<Rightarrow> format_rfc3339nano ts @ ''|'' @ hex_EncodeToString h)"

lemma DedupKey_identity:
  "DedupKey L t = (let (p, d, i) = dedup_identity L t in p @ CHR ''|'' # d @ CHR ''|'' # identity_string i)"
  by (simp add: DedupKey_def dedup_identity_def identity_string_def split: option.split)

lemma hd_format_rfc3339nano:
  assumes "four_digit_year t"
  shows "\<exists>c s. format_rfc3339nano t = c # s \<and> char_digit c \<noteq> None"
proof -
  let ?y = "fst (civil (t div (86400 * Second)))"
  have "pad_int 4 ?y \<noteq> []" and "\<forall>c \<in> set (pad_int 4 ?y). char_digit c \<noteq> None"
    using assms pad_nat_chars by (auto simp: four_digit_year_def pad_int_def pad_nat_def)
  then obtain c s where "pad_int 4 ?y = c # s" "char_digit c \<noteq> None"
    by (cases "pad_int 4 ?y") auto
  then show ?thesis
    by (auto simp: format_rfc3339nano_def format_date_def Let_def split: prod.splits)
qed

definition printable_identity :: "int + time \<times> 8 word list \<Rightarrow> bool" where
  "printable_identity i \<longleftrightarrow> (case i of Inl _ \<Rightarrow> True | Inr (ts, _) \<Rightarrow> four_digit_year ts)"

lemma identity_string_inject:
  assumes "identity_string i = identity_string j" "printable_identity i" "printable_identity j"
  shows "i = j"
proof -
  have mixed: "''seq:'' @ x \<noteq> format_rfc3339nano ts @ y" if "four_digit_year ts" for x ts y
    using hd_format_rfc3339nano [OF that] by (auto simp: char_digit_def)
  show ?thesis
  proof (cases i)
    case (Inl q)
    with assms mixed show ?thesis
      by (cases j) (auto simp: identity_string_def printable_identity_def)
  next
    case (Inr a)
    then obtain ts h where i: "i = Inr (ts, h)" by (cases a) auto
    with assms mixed obtain ts' h' where j: "j = Inr (ts', h')"
      by (cases j) (auto simp: identity_string_def printable_identity_def dest: sym)
    have eq: "format_rfc3339nano ts @ ''|'' @ hex_EncodeToString h = format_rfc3339nano ts' @ ''|'' @ hex_EncodeToString h'"
      using assms(1) by (simp add: i j identity_string_def)
    have "ts = ts' \<and> ''|'' @ hex_EncodeToString h = ''|'' @ hex_EncodeToString h'"
      by (rule format_rfc3339nano_inject [OF eq]) (use assms i j in \<open>simp_all add: printable_identity_def\<close>)
    then show ?thesis by (simp add: i j hex_EncodeToString_inject)
  qed
qed

theorem DedupKey_eq_iff:
  assumes "CHR ''|'' \<notin> set (src_Provider (tel_Source t))" "CHR ''|'' \<notin> set (src_DeviceID (tel_Source t))"
    and "CHR ''|'' \<notin> set (src_Provider (tel_Source u))" "CHR ''|'' \<notin> set (src_DeviceID (tel_Source u))"
    and "four_digit_year (tel_Timestamp t)" "four_digit_year (tel_Timestamp u)"
  shows "DedupKey L t = DedupKey L u \<longleftrightarrow> dedup_identity L t = dedup_identity L u"
proof
  assume eq: "DedupKey L t = DedupKey L u"
  obtain p d i where t: "dedup_identity L t = (p, d, i)" by (metis prod_cases3)
  obtain p' d' i' where u: "dedup_identity L u = (p', d', i')" by (metis prod_cases3)
  have bars: "CHR ''|'' \<notin> set p" "CHR ''|'' \<notin> set d" "CHR ''|'' \<notin> set p'" "CHR ''|'' \<notin> set d'"
    and pr: "printable_identity i" "printable_identity i'"
    using assms t u by (auto simp: dedup_identity_def printable_identity_def split: option.splits)
  have "p @ CHR ''|'' # d @ CHR ''|'' # identity_string i = p' @ CHR ''|'' # d' @ CHR ''|'' # identity_string i'"
    using eq by (simp add: DedupKey_identity t u)
  from append_sep_inject [OF this bars(1,3)]
  have "p = p'" and tail: "d @ CHR ''|'' # identity_string i = d' @ CHR ''|'' # identity_string i'"
    by auto
  moreover from append_sep_inject [OF tail bars(2,4)] have "d = d'" "identity_string i = identity_string i'"
    by auto
  ultimately show "dedup_identity L t = dedup_identity L u"
    using identity_string_inject [OF _ pr] by (simp add: t u)
next
  assume "dedup_identity L t = dedup_identity L u"
  then show "DedupKey L t = DedupKey L u" by (simp add: DedupKey_identity)
qed

text \<open>The tenant of a point is no part of its identity.\<close>

lemma DedupKey_tenant [simp]: "DedupKey L (t\<lparr>tel_TenantID := x\<rparr>) = DedupKey L t"
  by (simp add: DedupKey_def split: option.split)

lemma DedupKey_ID [simp]: "DedupKey L (t\<lparr>tel_ID := x\<rparr>) = DedupKey L t"
  by (simp add: DedupKey_def split: option.split)

end
