(* ===== verification/Events.thy ===== *)
theory Events
  imports Telemetry
begin

section \<open>The canonical event contract (schemas/events)\<close>

text \<open>
  An event is a state transition derived from telemetry. \<open>DeterministicID\<close> builds its identity,
  \<open>event_Validate\<close> is the check every bus runs before it accepts an event, \<open>Subject\<close> is the NATS
  subject. The lemmas: which types are accepted, and that an identity determines the type, the
  vehicle, the instant and the cause of its event.
\<close>

definition CurrentEventSchemaVersion :: int where
  "CurrentEventSchemaVersion = 1"

definition validSuffixes :: "string list" where
  "validSuffixes = [''started'', ''continued'', ''ended'', ''entered'', ''exited'', ''created'']"

record event =
  ev_ID :: string
  ev_Type :: string
  ev_TenantID :: string
  ev_VehicleID :: string
  ev_Timestamp :: time
  ev_RuleID :: string
  ev_RuleVersion :: string
  ev_CorrelationID :: string
  ev_CausationID :: string
  ev_Payload :: jobj
  ev_SchemaVersion :: int

definition DeterministicID :: "string \<Rightarrow> string \<Rightarrow> time \<Rightarrow> string \<Rightarrow> string" where
  "DeterministicID eventType vehicleID ts cause =
     eventType @ '':'' @ vehicleID @ '':'' @ format_rfc3339nano ts @ '':'' @ cause"

definition event_Validate :: "event \<Rightarrow> go_error option" where
  "event_Validate e =
     (if ev_ID e = [] \<or> ev_Type e = [] \<or> ev_TenantID e = [] \<or> ev_VehicleID e = []
        then Some ''id, type, tenantId, vehicleId required''
      else let parts = split_on (CHR ''.'') (ev_Type e)
      in if length parts < 2 \<or> last parts \<notin> set validSuffixes
        then Some (''type '' @ quoted (ev_Type e) @ '' must end with a transition suffix '' @
                   ''(.started/.continued/.ended/.entered/.exited/.created)'')
      else if IsZero (ev_Timestamp e) then Some ''timestamp required''
      else if ev_CorrelationID e = [] then Some ''correlationId required''
      else if ev_SchemaVersion e \<noteq> CurrentEventSchemaVersion
        then Some (''unsupported schemaVersion '' @ show_int (ev_SchemaVersion e))
      else None)"

definition Subject :: "event \<Rightarrow> string" where
  "Subject e = ''tide.events.'' @ ev_TenantID e @ ''.'' @ ev_Type e"

subsection \<open>Accepted types\<close>

lemma dot_notin_suffix: "s \<in> set validSuffixes \<Longrightarrow> CHR ''.'' \<notin> set s"
  by (auto simp: validSuffixes_def)

lemma split_last_iff:
  assumes "c \<notin> set s"
  shows "2 \<le> length (split_on c t) \<and> last (split_on c t) = s \<longleftrightarrow> (\<exists>b. t = b @ c # s)"
proof
  assume a: "2 \<le> length (split_on c t) \<and> last (split_on c t) = s"
  then obtain ps where ps: "split_on c t = ps @ [s]" "ps \<noteq> []"
    by (metis append_butlast_last_id length_0_conv length_append_singleton list.size(3) not_numeral_le_zero
        numeral_2_eq_2 One_nat_def Suc_le_mono le_zero_eq nat.simps(3) split_on_nonempty)
  have "join_with c (ps @ [s]) = join_with c ps @ c # s"
    using ps(2) by (induction ps rule: join_with.induct) (auto simp: join_with_Cons)
  then show "\<exists>b. t = b @ c # s" using ps(1) by (metis join_split)
next
  assume "\<exists>b. t = b @ c # s"
  then obtain b where "t = b @ c # s" by blast
  then show "2 \<le> length (split_on c t) \<and> last (split_on c t) = s"
    using last_split_on [OF assms, of b] by (simp add: Suc_le_eq)
qed

definition transition_type :: "string \<Rightarrow> bool" where
  "transition_type t \<longleftrightarrow> (\<exists>b s. t = b @ CHR ''.'' # s \<and> s \<in> set validSuffixes)"

lemma event_Validate_ok_iff:
  "event_Validate e = None \<longleftrightarrow>
     ev_ID e \<noteq> [] \<and> ev_TenantID e \<noteq> [] \<and> ev_VehicleID e \<noteq> [] \<and> transition_type (ev_Type e)
     \<and> ev_Timestamp e \<noteq> 0 \<and> ev_CorrelationID e \<noteq> [] \<and> ev_SchemaVersion e = CurrentEventSchemaVersion"
proof -
  let ?p = "split_on (CHR ''.'') (ev_Type e)"
  have parts: "\<not> (length ?p < 2 \<or> last ?p \<notin> set validSuffixes) \<longleftrightarrow> transition_type (ev_Type e)"
    using split_last_iff [OF dot_notin_suffix, of "last ?p" "ev_Type e"]
      split_last_iff [OF dot_notin_suffix, where t = "ev_Type e"]
    unfolding transition_type_def by (metis not_less)
  have ne: "transition_type (ev_Type e) \<Longrightarrow> ev_Type e \<noteq> []"
    by (auto simp: transition_type_def)
  show ?thesis
    unfolding event_Validate_def Let_def IsZero_def check_chain_None parts using ne by blast
qed

lemma transition_typeI: "s \<in> set validSuffixes \<Longrightarrow> transition_type (b @ CHR ''.'' # s)"
  by (auto simp: transition_type_def)

text \<open>The event types of the detectors and of the geofence tracker.\<close>

lemma transition_types [simp]:
  "transition_type ''vehicle.speeding.started''" "transition_type ''vehicle.speeding.continued''"
  "transition_type ''vehicle.speeding.ended''" "transition_type ''vehicle.idling.started''"
  "transition_type ''vehicle.idling.ended''" "transition_type ''vehicle.trip.started''"
  "transition_type ''vehicle.trip.ended''" "transition_type ''vehicle.geofence.entered''"
  "transition_type ''vehicle.geofence.exited''" "transition_type ''incident.created''"
  "transition_type ''vehicle.offline.started''" "transition_type ''tide.heartbeat.created''"
  using transition_typeI [of _ "''vehicle.speeding''"] transition_typeI [of _ "''vehicle.idling''"]
    transition_typeI [of _ "''vehicle.trip''"] transition_typeI [of _ "''vehicle.geofence''"]
    transition_typeI [of _ "''incident''"] transition_typeI [of _ "''vehicle.offline''"]
    transition_typeI [of _ "''tide.heartbeat''"]
  by (simp_all add: validSuffixes_def)

subsection \<open>Identities\<close>

theorem DeterministicID_inject:
  assumes "DeterministicID ty v ts c = DeterministicID ty' v' ts' c'"
    and "CHR '':'' \<notin> set ty" "CHR '':'' \<notin> set ty'" "CHR '':'' \<notin> set v" "CHR '':'' \<notin> set v'"
    and "four_digit_year ts" "four_digit_year ts'"
  shows "ty = ty' \<and> v = v' \<and> ts = ts' \<and> c = c'"
proof -
  have a: "ty @ CHR '':'' # v @ CHR '':'' # format_rfc3339nano ts @ '':'' @ c =
      ty' @ CHR '':'' # v' @ CHR '':'' # format_rfc3339nano ts' @ '':'' @ c'"
    using assms(1) by (simp add: DeterministicID_def)
  from append_sep_inject [OF a assms(2,3)]
  have ty: "ty = ty'"
    and b: "v @ CHR '':'' # format_rfc3339nano ts @ '':'' @ c = v' @ CHR '':'' # format_rfc3339nano ts' @ '':'' @ c'"
    by auto
  from append_sep_inject [OF b assms(4,5)]
  have v: "v = v'" and d: "format_rfc3339nano ts @ '':'' @ c = format_rfc3339nano ts' @ '':'' @ c'"
    by auto
  from format_rfc3339nano_inject [OF d assms(6,7)] ty v show ?thesis by simp
qed

lemma DeterministicID_ne [simp]: "DeterministicID ty v ts c \<noteq> []"
  by (simp add: DeterministicID_def)

end
