(* ===== verification/Ssrf.thy ===== *)
theory Ssrf
  imports GoLib
begin

unbundle bit_operations_syntax

section \<open>The SSRF guard of the webhooks (internal/webhooks/ssrf.go)\<close>

text \<open>
  An IP address is the byte list of \<open>net.IP\<close>, 4 or 16 bytes long. The predicates of package \<open>net\<close> the guard
  calls are defined on the bytes. \<open>url.Parse\<close>, \<open>net.SplitHostPort\<close> and the resolver are the fields of
  \<open>net_env\<close>, an argument of the operations.
\<close>

type_synonym ip = "8 word list"

record parsed_url =
  pu_Scheme :: string
  pu_Host :: string
  pu_HasUser :: bool
  pu_Hostname :: string

record net_env =
  url_Parse :: "string \<Rightarrow> parsed_url option"
  LookupIPAddr :: "string \<Rightarrow> go_error + ip list"
  SplitHostPort :: "string \<Rightarrow> string option"

subsection \<open>Addresses (package net)\<close>

definition To4 :: "ip \<Rightarrow> ip option" where
  "To4 i =
     (if length i = 4 then Some i
      else if length i = 16 \<and> take 10 i = replicate 10 0 \<and> i ! 10 = 0xff \<and> i ! 11 = 0xff then Some (drop 12 i)
      else None)"

definition IPv6loopback :: ip where
  "IPv6loopback = replicate 15 0 @ [1]"

definition IsUnspecified :: "ip \<Rightarrow> bool" where
  "IsUnspecified i \<longleftrightarrow> To4 i = Some [0, 0, 0, 0] \<or> i = replicate 16 0"

definition IsLoopback :: "ip \<Rightarrow> bool" where
  "IsLoopback i = (case To4 i of Some v \<Rightarrow> v ! 0 = 127 | None \<Rightarrow> i = IPv6loopback)"

definition IsMulticast :: "ip \<Rightarrow> bool" where
  "IsMulticast i = (case To4 i of Some v \<Rightarrow> v ! 0 AND 0xf0 = 0xe0 | None \<Rightarrow> length i = 16 \<and> i ! 0 = 0xff)"

definition IsLinkLocalUnicast :: "ip \<Rightarrow> bool" where
  "IsLinkLocalUnicast i =
     (case To4 i of Some v \<Rightarrow> v ! 0 = 169 \<and> v ! 1 = 254
      | None \<Rightarrow> length i = 16 \<and> i ! 0 = 0xfe \<and> i ! 1 AND 0xc0 = 0x80)"

definition IsLinkLocalMulticast :: "ip \<Rightarrow> bool" where
  "IsLinkLocalMulticast i =
     (case To4 i of Some v \<Rightarrow> v ! 0 = 224 \<and> v ! 1 = 0 \<and> v ! 2 = 0
      | None \<Rightarrow> length i = 16 \<and> i ! 0 = 0xff \<and> i ! 1 AND 0x0f = 0x02)"

definition IsGlobalUnicast :: "ip \<Rightarrow> bool" where
  "IsGlobalUnicast i \<longleftrightarrow> (length i = 4 \<or> length i = 16) \<and> To4 i \<noteq> Some [255, 255, 255, 255]
     \<and> \<not> IsUnspecified i \<and> \<not> IsLoopback i \<and> \<not> IsMulticast i \<and> \<not> IsLinkLocalUnicast i"

text \<open>A network is its number and its mask; \<open>Contains\<close> compares the masked bytes.\<close>

record ipnet =
  net_IP :: ip
  net_Mask :: ip

definition net_Contains :: "ipnet \<Rightarrow> ip \<Rightarrow> bool" where
  "net_Contains n i =
     (let i = (case To4 i of Some v \<Rightarrow> v | None \<Rightarrow> i)
      in length i = length (net_IP n)
         \<and> list_all (\<lambda>(x, b, m). b AND m = x AND m) (zip i (zip (net_IP n) (net_Mask n))))"

text \<open>\<open>mustCIDR\<close> of the constants of the source: the parsed networks.\<close>

definition mustCIDR :: "ip \<Rightarrow> ip \<Rightarrow> ipnet" where
  "mustCIDR num msk = \<lparr>net_IP = num, net_Mask = msk\<rparr>"

definition privateRanges :: "ipnet list" where
  "privateRanges =
     [mustCIDR [10, 0, 0, 0] [255, 0, 0, 0],
      mustCIDR [172, 16, 0, 0] [255, 240, 0, 0],
      mustCIDR [192, 168, 0, 0] [255, 255, 0, 0],
      mustCIDR [169, 254, 0, 0] [255, 255, 0, 0],
      mustCIDR (0xfc # replicate 15 0) (0xfe # replicate 15 0),
      mustCIDR (0xfe # 0x80 # replicate 14 0) (0xff # 0xc0 # replicate 14 0)]"

definition isPrivate :: "ip \<Rightarrow> bool" where
  "isPrivate i =
     (let i = (case To4 i of Some v4 \<Rightarrow> v4 | None \<Rightarrow> i)
      in \<exists>n \<in> set privateRanges. net_Contains n i)"

definition publicIP :: "ip \<Rightarrow> bool \<Rightarrow> bool" where
  "publicIP i allowPrivate =
     (if IsLoopback i \<or> IsUnspecified i \<or> IsMulticast i \<or> IsLinkLocalUnicast i \<or> IsLinkLocalMulticast i
      then allowPrivate \<and> (IsLoopback i \<or> IsUnspecified i)
      else if \<not> allowPrivate \<and> \<not> IsGlobalUnicast i then False
      else if \<not> allowPrivate \<and> isPrivate i then False
      else True)"

subsection \<open>Checking a URL, a redirect and a connection\<close>

definition metadataHosts :: "string list" where
  "metadataHosts =
     [''metadata.google.internal'', ''metadata.google.internal.'', ''instance-data'',
      ''instance-data-compute'', ''169.254.169.254'', ''fd00:ec2::254'']"

definition ToLower_char :: "char \<Rightarrow> char" where
  "ToLower_char c =
     (let v = of_char c :: nat in if 65 \<le> v \<and> v \<le> 90 then char_of (v + 32) else c)"

definition ValidateURL :: "net_env \<Rightarrow> string \<Rightarrow> bool \<Rightarrow> go_error option" where
  "ValidateURL env raw allowPrivate =
     (case url_Parse env raw of
        None \<Rightarrow> Some ''webhook: ssrf: invalid URL''
      | Some u \<Rightarrow>
          if pu_Host u = [] then Some ''webhook: ssrf: invalid URL''
          else if pu_Scheme u \<noteq> ''http'' \<and> pu_Scheme u \<noteq> ''https''
            then Some (''webhook: ssrf: scheme '' @ quoted (pu_Scheme u) @ '' not allowed (http/https only)'')
          else if pu_HasUser u then Some ''webhook: ssrf: userinfo not allowed''
          else
            let host = map ToLower_char (trim_suffix (pu_Hostname u) ''.'')
            in if host \<in> set metadataHosts \<or> pu_Hostname u \<in> set metadataHosts
               then Some ''webhook: ssrf: metadata endpoint blocked''
            else (case LookupIPAddr env (pu_Hostname u) of
                    Inl _ \<Rightarrow> Some ''webhook: ssrf: unresolvable host''
                  | Inr ips \<Rightarrow>
                      if ips = [] then Some ''webhook: ssrf: unresolvable host''
                      else if \<exists>i \<in> set ips. \<not> publicIP i allowPrivate
                        then Some ''webhook: ssrf: host resolves to non-public address''
                      else None))"

text \<open>The hooks \<open>guardedClient\<close> installs: \<open>CheckRedirect\<close> (with the number of requests already made) and the test of \<open>DialContext\<close>.\<close>

definition CheckRedirect :: "net_env \<Rightarrow> bool \<Rightarrow> string \<Rightarrow> nat \<Rightarrow> go_error option" where
  "CheckRedirect env allowPrivate next_url via =
     (if 3 < via then Some ''webhook: too many redirects'' else ValidateURL env next_url allowPrivate)"

definition DialContext :: "net_env \<Rightarrow> bool \<Rightarrow> string \<Rightarrow> go_error option" where
  "DialContext env allowPrivate addr =
     (case SplitHostPort env addr of
        None \<Rightarrow> Some ''webhook: ssrf: bad dial address''
      | Some host \<Rightarrow>
          (case LookupIPAddr env host of
             Inl _ \<Rightarrow> Some ''webhook: ssrf: unresolvable at connect''
           | Inr ips \<Rightarrow>
               if ips = [] then Some ''webhook: ssrf: unresolvable at connect''
               else if \<exists>i \<in> set ips. \<not> publicIP i allowPrivate
                 then Some ''webhook: ssrf: connect to non-public address refused''
               else None))"

subsection \<open>Prefix masks\<close>

lemma and_high_bits:
  fixes a b :: "8 word"
  assumes "n < 8"
  shows "a AND NOT (mask n) = b AND NOT (mask n) \<longleftrightarrow> unat a div 2 ^ n = unat b div 2 ^ n"
proof -
  have "drop_bit n (c AND NOT (mask n)) = drop_bit n c" for c :: "8 word"
    by (rule bit_eqI) (auto simp: bit_simps dest: bit_imp_le_length)
  moreover have "c AND NOT (mask n) = push_bit n (drop_bit n c)" for c :: "8 word"
    by (rule bit_eqI) (auto simp: bit_simps)
  ultimately have "a AND NOT (mask n) = b AND NOT (mask n) \<longleftrightarrow> drop_bit n a = drop_bit n b" by metis
  also have "\<dots> \<longleftrightarrow> unat (drop_bit n a) = unat (drop_bit n b)" by (simp add: word_unat_eq_iff)
  also have "\<dots> \<longleftrightarrow> unat a div 2 ^ n = unat b div 2 ^ n" by (simp only: unat_drop_bit_eq) (simp add: drop_bit_eq_div)
  finally show ?thesis .
qed

lemma mask_bytes:
  "(0xf0 :: 8 word) = NOT (mask 4)" "(0xc0 :: 8 word) = NOT (mask 6)" "(0xfe :: 8 word) = NOT (mask 1)"
  "(240 :: 8 word) = NOT (mask 4)" "(255 :: 8 word) = NOT (mask 0)"
  by (simp_all add: mask_eq_exp_minus_1)

lemma high_bits_eq:
  fixes a c :: "8 word"
  assumes "n < 8" "c AND NOT (mask n) = c"
  shows "a AND NOT (mask n) = c \<longleftrightarrow> unat a div 2 ^ n = unat c div 2 ^ n"
    and "c = a AND NOT (mask n) \<longleftrightarrow> unat a div 2 ^ n = unat c div 2 ^ n"
  using and_high_bits [OF assms(1), of a c] assms(2) by auto

lemma multicast_byte: "(a :: 8 word) AND 0xf0 = 0xe0 \<longleftrightarrow> 224 \<le> unat a \<and> unat a < 240"
  using high_bits_eq(1) [of 4 "0xe0" a] mask_bytes(1) by (auto simp: div_nat_eqI dividend_less_times_div)

lemma mask240_byte: "16 = (a :: 8 word) AND 240 \<longleftrightarrow> 16 \<le> unat a \<and> unat a < 32"
  using high_bits_eq(2) [of 4 "16" a] mask_bytes(4) by (auto simp: div_nat_eqI)

lemma mask192_byte: "(a :: 8 word) AND 0xc0 = 0x80 \<longleftrightarrow> 128 \<le> unat a \<and> unat a < 192"
  "0x80 = (a :: 8 word) AND 0xc0 \<longleftrightarrow> 128 \<le> unat a \<and> unat a < 192"
  using high_bits_eq [of 6 "0x80" a] mask_bytes(2) by (auto simp: div_nat_eqI)

lemma mask254_byte: "0xfc = (a :: 8 word) AND 0xfe \<longleftrightarrow> unat a = 252 \<or> unat a = 253"
  using high_bits_eq(2) [of 1 "0xfc" a, folded mask_bytes(3)] by (auto simp: div_nat_eqI)

lemma mask255_byte: "(a :: 8 word) AND 255 = a"
  unfolding mask_bytes(5) by simp

subsection \<open>Which addresses are public\<close>

lemma To4_length: "To4 i = Some v \<Longrightarrow> length v = 4"
  by (auto simp: To4_def split: if_splits)

lemma To4_4: "length v = 4 \<Longrightarrow> To4 v = Some v"
  by (simp add: To4_def)

text \<open>An IPv4 address, also one mapped into IPv6, is public unless it is in one of the listed blocks.\<close>

definition public_v4 :: "nat \<Rightarrow> nat \<Rightarrow> nat \<Rightarrow> nat \<Rightarrow> bool" where
  "public_v4 a b c d \<longleftrightarrow> a \<noteq> 127 \<and> a \<noteq> 10 \<and> \<not> (224 \<le> a \<and> a < 240)
     \<and> \<not> (a = 172 \<and> 16 \<le> b \<and> b < 32) \<and> \<not> (a = 192 \<and> b = 168) \<and> \<not> (a = 169 \<and> b = 254)
     \<and> (a, b, c, d) \<noteq> (0, 0, 0, 0) \<and> (a, b, c, d) \<noteq> (255, 255, 255, 255)"

lemma isPrivate_v4:
  assumes "To4 i = Some [a, b, c, d]"
  shows "isPrivate i \<longleftrightarrow> a = 10 \<or> (a = 172 \<and> 16 \<le> unat b \<and> unat b < 32) \<or> (a = 192 \<and> b = 168) \<or> (a = 169 \<and> b = 254)"
  by (auto simp: isPrivate_def assms privateRanges_def mustCIDR_def net_Contains_def To4_4 mask255_byte mask240_byte)

lemma byte_eq_unat: "(x :: 8 word) = numeral k \<longleftrightarrow> unat x = numeral k mod 256" "(x :: 8 word) = 0 \<longleftrightarrow> unat x = 0"
  by (auto simp: word_unat_eq_iff unat_numeral take_bit_eq_mod)

lemma v4_predicates:
  assumes "To4 i = Some [a, b, c, d]"
  shows "IsLoopback i \<longleftrightarrow> unat a = 127" "IsMulticast i \<longleftrightarrow> 224 \<le> unat a \<and> unat a < 240"
    "IsLinkLocalUnicast i \<longleftrightarrow> unat a = 169 \<and> unat b = 254" "IsLinkLocalMulticast i \<Longrightarrow> IsMulticast i"
    "IsUnspecified i \<longleftrightarrow> unat a = 0 \<and> unat b = 0 \<and> unat c = 0 \<and> unat d = 0"
    "IsGlobalUnicast i \<longleftrightarrow> \<not> (unat a = 255 \<and> unat b = 255 \<and> unat c = 255 \<and> unat d = 255)
       \<and> \<not> IsUnspecified i \<and> \<not> IsLoopback i \<and> \<not> IsMulticast i \<and> \<not> IsLinkLocalUnicast i"
proof -
  have "i \<noteq> replicate 16 0"
    using assms by (auto simp: To4_def split: if_splits dest: arg_cong [where f = length])
  then show "IsUnspecified i \<longleftrightarrow> unat a = 0 \<and> unat b = 0 \<and> unat c = 0 \<and> unat d = 0"
    by (simp add: IsUnspecified_def assms byte_eq_unat)
  have "length i = 4 \<or> length i = 16" using assms by (auto simp: To4_def split: if_splits)
  then show "IsGlobalUnicast i \<longleftrightarrow> \<not> (unat a = 255 \<and> unat b = 255 \<and> unat c = 255 \<and> unat d = 255)
       \<and> \<not> IsUnspecified i \<and> \<not> IsLoopback i \<and> \<not> IsMulticast i \<and> \<not> IsLinkLocalUnicast i"
    by (simp add: IsGlobalUnicast_def assms byte_eq_unat)
qed (simp_all add: IsLoopback_def IsMulticast_def IsLinkLocalUnicast_def IsLinkLocalMulticast_def assms multicast_byte,
  simp_all add: byte_eq_unat)

lemma publicIP_v4:
  assumes "To4 i = Some [a, b, c, d]"
  shows "publicIP i False \<longleftrightarrow> public_v4 (unat a) (unat b) (unat c) (unat d)"
proof -
  have "isPrivate i \<longleftrightarrow> unat a = 10 \<or> (unat a = 172 \<and> 16 \<le> unat b \<and> unat b < 32)
      \<or> (unat a = 192 \<and> unat b = 168) \<or> (unat a = 169 \<and> unat b = 254)"
    using isPrivate_v4 [OF assms] by (simp add: byte_eq_unat)
  moreover have "IsLinkLocalMulticast i \<Longrightarrow> 224 \<le> unat a \<and> unat a < 240"
    using v4_predicates [OF assms] by blast
  ultimately show ?thesis
    unfolding publicIP_def public_v4_def v4_predicates(1-3,5,6) [OF assms]
    by (cases "IsLinkLocalMulticast i") (simp_all only: prod.inject simp_thms if_False if_True if_bool_eq_conj, argo+)
qed

definition public_v6 :: "ip \<Rightarrow> bool" where
  "public_v6 i \<longleftrightarrow> i \<noteq> replicate 16 0 \<and> i \<noteq> replicate 15 0 @ [1] \<and> unat (i ! 0) \<noteq> 255
     \<and> \<not> (unat (i ! 0) = 252 \<or> unat (i ! 0) = 253)
     \<and> \<not> (unat (i ! 0) = 254 \<and> 128 \<le> unat (i ! 1) \<and> unat (i ! 1) < 192)"

lemma masked_out: "list_all (\<lambda>(x, b, m). b AND m = (x :: 8 word) AND m) (zip xs (zip bs (replicate n 0)))"
  by (auto simp: list_all_iff dest!: set_zip_rightD)

lemma isPrivate_v6:
  assumes "To4 i = None" "length i = 16"
  shows "isPrivate i \<longleftrightarrow> unat (i ! 0) = 252 \<or> unat (i ! 0) = 253
    \<or> (unat (i ! 0) = 254 \<and> 128 \<le> unat (i ! 1) \<and> unat (i ! 1) < 192)"
proof -
  obtain x y r where i: "i = x # y # r" "length r = 14"
    using assms(2) by (auto simp: length_Suc_conv numeral_eq_Suc)
  have eq: "(254 :: 8 word) = x AND 255 \<longleftrightarrow> unat x = 254" by (auto simp: mask255_byte byte_eq_unat)
  have r: "replicate 15 (0 :: 8 word) = 0 # replicate 14 0" by (simp add: numeral_eq_Suc)
  show ?thesis
    using masked_out [of "y # r" "0 # replicate 14 0" 15] masked_out [of r "replicate 14 0" 14] assms(1) i
    by (auto simp: isPrivate_def privateRanges_def mustCIDR_def net_Contains_def r mask254_byte mask192_byte eq)
qed

lemma v6_predicates:
  assumes "To4 i = None" "length i = 16"
  shows "IsLoopback i \<longleftrightarrow> i = replicate 15 0 @ [1]" "IsUnspecified i \<longleftrightarrow> i = replicate 16 0"
    "IsMulticast i \<longleftrightarrow> unat (i ! 0) = 255" "IsLinkLocalMulticast i \<Longrightarrow> IsMulticast i"
    "IsLinkLocalUnicast i \<longleftrightarrow> unat (i ! 0) = 254 \<and> 128 \<le> unat (i ! 1) \<and> unat (i ! 1) < 192"
  using assms
  by (simp_all add: IsLoopback_def IPv6loopback_def IsUnspecified_def IsMulticast_def IsLinkLocalUnicast_def
      IsLinkLocalMulticast_def mask192_byte) (simp_all add: byte_eq_unat)

lemma publicIP_v6:
  assumes "To4 i = None" "length i = 16"
  shows "publicIP i False \<longleftrightarrow> public_v6 i"
proof -
  have "IsGlobalUnicast i \<longleftrightarrow> \<not> IsUnspecified i \<and> \<not> IsLoopback i \<and> \<not> IsMulticast i \<and> \<not> IsLinkLocalUnicast i"
    using assms by (simp add: IsGlobalUnicast_def)
  then show ?thesis
    using v6_predicates [OF assms] isPrivate_v6 [OF assms] unfolding publicIP_def public_v6_def if_bool_eq_conj by blast
qed

lemma publicIP_length: "publicIP i False \<Longrightarrow> length i = 4 \<or> length i = 16"
  by (auto simp: publicIP_def IsGlobalUnicast_def split: if_splits)

subsection \<open>Properties\<close>

text \<open>C27: The production guard accepts exactly the addresses outside the blocked ranges. With the escape hatch
  closed, an IPv4 address, in its 4-byte form or mapped into IPv6, is accepted exactly when it is not
  loopback, private (10/8, 172.16/12, 192.168/16), link-local, multicast, unspecified or broadcast; any
  other 16-byte address exactly when it is not loopback, unspecified, multicast, unique-local or
  link-local; and no other byte string is accepted.\<close>

theorem publicIP_exact:
  "publicIP i False \<longleftrightarrow>
     (\<exists>a b c d. To4 i = Some [a, b, c, d] \<and> public_v4 (unat a) (unat b) (unat c) (unat d))
     \<or> (To4 i = None \<and> length i = 16 \<and> public_v6 i)"
proof (cases "To4 i")
  case None
  then have "length i \<noteq> 4" by (auto simp: To4_def)
  with None show ?thesis using publicIP_v6 [OF None] publicIP_length [of i] by auto
next
  case (Some v)
  then obtain a b c d where "v = [a, b, c, d]"
    using To4_length [OF Some] by (auto simp: length_Suc_conv numeral_eq_Suc)
  with Some show ?thesis using publicIP_v4 by auto
qed

text \<open>A webhook is only sent to public addresses. When \<open>ValidateURL\<close> accepts a URL in production mode, its
  scheme is http or https, it has no user info, its host is not a known metadata host, and every address
  the host resolves to is accepted by the address check; the same holds of every address resolved again
  when the connection is made, and a redirect is followed only to a URL that passes the same check.\<close>

lemma validated_url_is_public:
  assumes "ValidateURL env raw False = None"
  shows "(\<exists>u ips. url_Parse env raw = Some u \<and> pu_Scheme u \<in> {''http'', ''https''} \<and> \<not> pu_HasUser u
      \<and> pu_Hostname u \<notin> set metadataHosts \<and> LookupIPAddr env (pu_Hostname u) = Inr ips \<and> ips \<noteq> []
      \<and> (\<forall>i \<in> set ips. publicIP i False))
    \<and> (\<forall>addr. DialContext env False addr = None \<longrightarrow>
         (\<exists>host ips. SplitHostPort env addr = Some host \<and> LookupIPAddr env host = Inr ips
            \<and> (\<forall>i \<in> set ips. publicIP i False)))
    \<and> (\<forall>url via. CheckRedirect env False url via = None \<longrightarrow> via \<le> 3 \<and> ValidateURL env url False = None)"
  using assms
  by (auto simp: ValidateURL_def DialContext_def CheckRedirect_def Let_def split: option.splits sum.splits if_splits)

definition sample_env :: net_env where
  "sample_env = \<lparr>url_Parse = (\<lambda>_. Some \<lparr>pu_Scheme = ''https'', pu_Host = ''h:1'', pu_HasUser = False, pu_Hostname = ''h''\<rparr>),
     LookupIPAddr = (\<lambda>_. Inr [[8, 8, 8, 8]]), SplitHostPort = (\<lambda>_. Some ''h'')\<rparr>"

lemma validated_url_is_public_example:
  "ValidateURL sample_env ''https://h:1'' False = None \<and> (\<exists>ips. LookupIPAddr sample_env ''h'' = Inr ips \<and> ips \<noteq> [] \<and> (\<forall>i \<in> set ips. publicIP i False))"
proof -
  have "publicIP [8, 8, 8, 8] False" using publicIP_v4 [of "[8, 8, 8, 8]" 8 8 8 8] by (simp add: To4_4 public_v4_def)
  then have v: "ValidateURL sample_env ''https://h:1'' False = None"
    by (simp add: ValidateURL_def sample_env_def metadataHosts_def trim_suffix_def ToLower_char_def Let_def)
  from validated_url_is_public [OF v, THEN conjunct1] v show ?thesis by (auto simp: sample_env_def)
qed

text \<open>The guard accepts reserved address blocks that are not public. Carrier-grade NAT (100.64/10), the
  reserved block 240/4 and the zero network are not public unicast, but the guard accepts them.\<close>

lemma guard_accepts_reserved_blocks:
  "publicIP [100, 64, 0, 1] False \<and> publicIP [240, 0, 0, 1] False \<and> publicIP [0, 1, 2, 3] False
   \<and> publicIP (replicate 10 0 @ [255, 255, 100, 64, 0, 1]) False"
proof -
  have "To4 (replicate 10 0 @ [255, 255, 100, 64, 0, 1]) = Some [100, 64, 0, 1]"
    by (simp add: To4_def nth_append)
  then show ?thesis
    using publicIP_v4 [of "[100, 64, 0, 1]"] publicIP_v4 [of "[240, 0, 0, 1]"] publicIP_v4 [of "[0, 1, 2, 3]"]
      publicIP_v4 [of "replicate 10 0 @ [255, 255, 100, 64, 0, 1]"]
    by (simp add: To4_4 public_v4_def)
qed

end
