(* ===== verification/Webhooks.thy ===== *)
theory Webhooks
  imports Events Ssrf
begin

section \<open>Webhooks (internal/webhooks)\<close>

text \<open>
  Signing and verifying a delivery, and the dispatcher with its retries, backoff and dead-letter list. HMAC
  is a field of \<open>go_lib\<close>. The HTTP client, \<open>http.NewRequest\<close> and the random source are arguments that act on
  an outside world \<open>'w\<close>; the jitter argument yields the value of \<open>rand.Int\<close>. An HTTP header set is a function
  from header names to values, empty when absent. Sleeping is recorded as the list of delays.
\<close>

definition HeaderEventID :: string where "HeaderEventID = ''X-Tide-Event-Id''"
definition HeaderTimestamp :: string where "HeaderTimestamp = ''X-Tide-Timestamp''"
definition HeaderSignature :: string where "HeaderSignature = ''X-Tide-Signature''"

subsection \<open>Signatures\<close>

definition Sign :: "go_lib \<Rightarrow> string \<Rightarrow> string \<Rightarrow> time \<Rightarrow> string \<Rightarrow> string \<times> string" where
  "Sign L secret eventID ts body =
     (let timestamp = show_int (time_Unix ts);
          mac = hmac_sha256 L secret (timestamp @ ''.'' @ eventID @ ''.'' @ body)
      in (hex_EncodeToString mac, timestamp))"

definition duration_Abs :: "duration \<Rightarrow> duration" where
  "duration_Abs d = (if 0 \<le> d then d else if d = - (2 ^ 63) then 2 ^ 63 - 1 else - d)"

definition Verify :: "go_lib \<Rightarrow> time \<Rightarrow> string \<Rightarrow> (string \<Rightarrow> string) \<Rightarrow> string \<Rightarrow> go_error option" where
  "Verify L now secret header body =
     (let eid = header HeaderEventID; ts = header HeaderTimestamp; got = header HeaderSignature
      in if eid = [] \<or> ts = [] \<or> got = [] then Some ''webhook: missing signature headers''
         else case ParseInt64 ts of
           None \<Rightarrow> Some ''webhook: bad timestamp''
         | Some unix \<Rightarrow>
             if duration_Abs (time_Sub now (of_unix unix)) > 5 * Minute
             then Some ''webhook: stale timestamp (replay?)''
             else (let (want, _) = Sign L secret eid (of_unix unix) body
                   in if want \<noteq> got then Some ''webhook: bad signature'' else None))"

subsection \<open>The dispatcher\<close>

record delivery =
  dl_EventID :: string
  dl_URL :: string
  dl_Status :: int
  dl_Err :: string
  dl_At :: time

record dispatcher =
  dp_MaxRetries :: int
  dp_BaseDelay :: duration
  dp_AllowPrivate :: bool
  dp_Delivered :: "delivery list"
  dp_DeadLetter :: "delivery list"

definition NewDispatcher :: dispatcher where
  "NewDispatcher = \<lparr>dp_MaxRetries = 5, dp_BaseDelay = 200000000, dp_AllowPrivate = False,
     dp_Delivered = [], dp_DeadLetter = []\<rparr>"

record http_request =
  rq_URL :: string
  rq_Header :: "(string \<times> string) list"
  rq_Body :: string

text \<open>What is not under the sources: encoding an event, building a request, sending it, randomness.\<close>

record 'w http_env =
  he_net :: net_env
  he_marshal :: "event \<Rightarrow> go_error + string"
  he_NewRequest :: "string \<Rightarrow> go_error option"
  he_Do :: "http_request \<Rightarrow> 'w \<Rightarrow> (go_error + int) \<times> 'w"
  he_randInt :: "int \<Rightarrow> 'w \<Rightarrow> (go_error + int) \<times> 'w"

definition jitter :: "'w http_env \<Rightarrow> duration \<Rightarrow> 'w \<Rightarrow> duration \<times> 'w" where
  "jitter E n w =
     (if n \<le> 0 then (0, w)
      else case he_randInt E n w of (Inl _, w') \<Rightarrow> (0, w') | (Inr v, w') \<Rightarrow> (v, w'))"

definition record_delivery :: "time \<Rightarrow> bool \<Rightarrow> string \<Rightarrow> string \<Rightarrow> int \<Rightarrow> string \<Rightarrow> dispatcher \<Rightarrow> dispatcher" where
  "record_delivery now ok url eventID status errStr d =
     (let del = \<lparr>dl_EventID = eventID, dl_URL = url, dl_Status = status, dl_Err = errStr, dl_At = now\<rparr>
      in if ok then d\<lparr>dp_Delivered := dp_Delivered d @ [del]\<rparr>
         else d\<lparr>dp_DeadLetter := dp_DeadLetter d @ [del]\<rparr>)"

text \<open>How the retry loop ends: an accepting status, a refusing one, or the last error.\<close>

datatype attempt_end = Accepted int | Refused int | GaveUp "go_error option"

text \<open>
  One trace of the loop: what each request was answered, and the delays slept. \<open>n\<close> is the number of
  attempts left, \<open>MaxRetries + 1\<close> at the start and 0 for a negative \<open>MaxRetries\<close>.
\<close>

record loop_trace =
  lt_end :: attempt_end
  lt_answers :: "(go_error + int) list"
  lt_sleeps :: "duration list"

definition next_delay :: "duration \<Rightarrow> duration" where
  "next_delay delay = (let delay = wrap64 (delay * 2) in if delay > 10 * Second then 10 * Second else delay)"

definition answer_error :: "go_error + int \<Rightarrow> go_error" where
  "answer_error a = (case a of Inl err \<Rightarrow> err | Inr status \<Rightarrow> ''endpoint returned '' @ show_int status)"

definition retryable :: "go_error + int \<Rightarrow> bool" where
  "retryable a = (case a of Inl _ \<Rightarrow> True | Inr status \<Rightarrow> \<not> (status < 500 \<and> status \<noteq> 429))"

fun attempt_loop :: "'w http_env \<Rightarrow> http_request \<Rightarrow> nat \<Rightarrow> duration \<Rightarrow> go_error option \<Rightarrow> 'w \<Rightarrow> loop_trace \<times> 'w" where
  "attempt_loop E req 0 delay lastErr w = (\<lparr>lt_end = GaveUp lastErr, lt_answers = [], lt_sleeps = []\<rparr>, w)"
| "attempt_loop E req (Suc n) delay lastErr w =
     (case he_NewRequest E (rq_URL req) of
        Some err \<Rightarrow> (\<lparr>lt_end = GaveUp (Some err), lt_answers = [], lt_sleeps = []\<rparr>, w)
      | None \<Rightarrow>
          (let (ans, w) = he_Do E req w
           in if \<not> retryable ans
              then (\<lparr>lt_end = (case ans of Inr status \<Rightarrow> if 400 \<le> status then Refused status else Accepted status
                                 | Inl err \<Rightarrow> GaveUp (Some err)),
                     lt_answers = [ans], lt_sleeps = []\<rparr>, w)
              else
                let (j, w) = jitter E delay w;
                    (tr, w) = attempt_loop E req n (next_delay delay) (Some (answer_error ans)) w
                in (tr\<lparr>lt_answers := ans # lt_answers tr, lt_sleeps := wrap64 (delay + j) # lt_sleeps tr\<rparr>, w)))"

datatype dispatch_result = Returned "go_error option" | NilPanic

text \<open>
  \<open>Dispatch\<close>; \<open>now\<close> is the clock reading that is signed and \<open>recAt\<close> the one of \<open>record\<close>. A nil \<open>lastErr\<close> at the end
  of the loop makes \<open>lastErr.Error()\<close> panic.
\<close>

definition Dispatch ::
  "go_lib \<Rightarrow> 'w http_env \<Rightarrow> time \<Rightarrow> time \<Rightarrow> string \<Rightarrow> string \<Rightarrow> event \<Rightarrow> dispatcher \<Rightarrow> 'w
    \<Rightarrow> (dispatch_result \<times> dispatcher) \<times> 'w" where
  "Dispatch L E now recAt url secret e d w =
     (case he_marshal E e of
        Inl err \<Rightarrow> ((Returned (Some err), d), w)
      | Inr body \<Rightarrow>
          (case ValidateURL (he_net E) url (dp_AllowPrivate d) of
             Some err \<Rightarrow> ((Returned (Some err), record_delivery recAt False url (ev_ID e) 0 err d), w)
           | None \<Rightarrow>
               (let (sig, ts) = Sign L secret (ev_ID e) now body;
                    req = \<lparr>rq_URL = url,
                           rq_Header = [(''Content-Type'', ''application/json''), (HeaderEventID, ev_ID e),
                                        (HeaderTimestamp, ts), (HeaderSignature, sig)],
                           rq_Body = body\<rparr>;
                    (tr, w) = attempt_loop E req (nat (dp_MaxRetries d + 1)) (dp_BaseDelay d) None w
                in ((case lt_end tr of
                      Accepted status \<Rightarrow> (Returned None, record_delivery recAt True url (ev_ID e) status [] d)
                    | Refused status \<Rightarrow>
                        (Returned (Some (''webhook: endpoint returned '' @ show_int status @ '' (dead-lettered, no retry)'')),
                         record_delivery recAt False url (ev_ID e) status (''client error '' @ show_int status) d)
                    | GaveUp None \<Rightarrow> (NilPanic, d)
                    | GaveUp (Some err) \<Rightarrow>
                        (Returned (Some (''webhook: dead-lettered after '' @ show_int (dp_MaxRetries d) @ '' retries: '' @ err)),
                         record_delivery recAt False url (ev_ID e) 0 err d)), w))))"

subsection \<open>Signatures hold\<close>

lemma duration_Abs_less: "300000000000 < duration_Abs (time_Sub t u) \<longleftrightarrow> 300000000000 < \<bar>t - u\<bar>"
  by (auto simp: duration_Abs_def time_Sub_def)

lemma Verify_accepts_iff:
  "Verify L now secret header body = None \<longleftrightarrow>
     header HeaderEventID \<noteq> [] \<and> header HeaderTimestamp \<noteq> [] \<and> header HeaderSignature \<noteq> [] \<and>
     (\<exists>unix. ParseInt64 (header HeaderTimestamp) = Some unix \<and> \<bar>now - of_unix unix\<bar> \<le> 5 * Minute \<and>
        header HeaderSignature =
          hex_EncodeToString (hmac_sha256 L secret (show_int unix @ ''.'' @ header HeaderEventID @ ''.'' @ body)))"
  by (auto simp: Verify_def Sign_def Let_def duration_Abs_less split: option.split)

subsection \<open>The retry loop\<close>

lemma attempt_loop_answers:
  assumes "attempt_loop E req n delay le w = (tr, w')"
  shows "length (lt_answers tr) \<le> n \<and>
    (case lt_end tr of
       Accepted s \<Rightarrow> (\<exists>as. lt_answers tr = as @ [Inr s] \<and> (\<forall>a \<in> set as. retryable a)) \<and> s < 400
     | Refused s \<Rightarrow> (\<exists>as. lt_answers tr = as @ [Inr s] \<and> (\<forall>a \<in> set as. retryable a)) \<and> 400 \<le> s \<and> s < 500 \<and> s \<noteq> 429
     | GaveUp err \<Rightarrow> (\<forall>a \<in> set (lt_answers tr). retryable a)
         \<and> (he_NewRequest E (rq_URL req) = None \<longrightarrow> length (lt_answers tr) = n
              \<and> err = (if n = 0 then le else Some (answer_error (last (lt_answers tr))))))"
  using assms
proof (induction n arbitrary: delay le w tr w')
  case 0
  then show ?case by auto
next
  case (Suc n)
  show ?case
  proof (cases "he_NewRequest E (rq_URL req)")
    case (Some err)
    with Suc.prems show ?thesis by auto
  next
    case None
    obtain ans w1 where d: "he_Do E req w = (ans, w1)" by fastforce
    show ?thesis
    proof (cases "retryable ans")
      case False
      then obtain s where "ans = Inr s" "s < 500" "s \<noteq> 429"
        by (cases ans) (auto simp: retryable_def)
      with Suc.prems None d False show ?thesis by (auto split: if_splits)
    next
      case True
      obtain j w2 where j: "jitter E delay w1 = (j, w2)" by fastforce
      obtain tr1 w3 where t: "attempt_loop E req n (next_delay delay) (Some (answer_error ans)) w2 = (tr1, w3)" by fastforce
      have tr: "lt_answers tr = ans # lt_answers tr1" "lt_end tr = lt_end tr1"
        using Suc.prems None d True j t by auto
      note IH = Suc.IH [OF t]
      show ?thesis
      proof (cases "lt_end tr1")
        case (GaveUp err)
        with IH True tr None show ?thesis by (cases n) auto
      qed (use IH True tr in \<open>auto intro: exI [of _ "ans # _"]\<close>)
    qed
  qed
qed

text \<open>The documented behaviour of \<open>rand.Int\<close>: a value below its bound.\<close>

definition rand_in_range :: "'w http_env \<Rightarrow> bool" where
  "rand_in_range E \<longleftrightarrow> (\<forall>n w v. 0 < n \<longrightarrow> fst (he_randInt E n w) = Inr v \<longrightarrow> 0 \<le> v \<and> v < n)"

lemma jitter_range: "rand_in_range E \<Longrightarrow> jitter E n w = (j, w') \<Longrightarrow> 0 \<le> j \<and> (j < n \<or> j = 0)"
  unfolding rand_in_range_def jitter_def
  by (auto split: if_splits sum.splits prod.splits) (metis fst_conv not_le)+

definition backoff_delay :: "duration \<Rightarrow> nat \<Rightarrow> duration" where
  "backoff_delay base k = min (base * 2 ^ k) (10 * Second)"

lemma next_delay_backoff:
  assumes "0 \<le> b" "b \<le> 10 * Second"
  shows "next_delay b = min (2 * b) (10 * Second)"
proof -
  have "wrap64 (b * 2) = b * 2" using assms by (intro wrap64_id) (simp add: in_int64_def)
  then show ?thesis by (simp add: next_delay_def Let_def min_def)
qed

lemma attempt_loop_sleeps:
  assumes "attempt_loop E req n delay le w = (tr, w')" "rand_in_range E" "0 \<le> delay" "delay \<le> 10 * Second"
    and "k < length (lt_sleeps tr)"
  shows "backoff_delay delay k \<le> lt_sleeps tr ! k \<and> lt_sleeps tr ! k \<le> 2 * backoff_delay delay k"
  using assms
proof (induction n arbitrary: delay le w tr w' k)
  case 0
  then show ?case by auto
next
  case (Suc n)
  obtain ans w1 where d: "he_Do E req w = (ans, w1)" by fastforce
  obtain j w2 where j: "jitter E delay w1 = (j, w2)" by fastforce
  obtain tr1 w3 where t: "attempt_loop E req n (next_delay delay) (Some (answer_error ans)) w2 = (tr1, w3)" by fastforce
  have tr: "lt_sleeps tr = wrap64 (delay + j) # lt_sleeps tr1"
    using Suc.prems(1,5) d j t by (auto split: option.splits if_splits)
  have jr: "0 \<le> j" "j \<le> delay" using jitter_range [OF Suc.prems(2) j] Suc.prems(3) by auto
  have nd: "0 \<le> next_delay delay" "next_delay delay \<le> 10 * Second" "next_delay delay = min (2 * delay) (10 * Second)"
    using next_delay_backoff [OF Suc.prems(3,4)] Suc.prems(3) by auto
  show ?case
  proof (cases k)
    case 0
    have "wrap64 (delay + j) = delay + j" using jr Suc.prems(3,4) by (intro wrap64_id) (simp add: in_int64_def)
    with 0 tr jr Suc.prems(3,4) show ?thesis by (simp add: backoff_delay_def)
  next
    case (Suc k')
    have "backoff_delay (next_delay delay) k' = backoff_delay delay (Suc k')"
    proof -
      have one: "(1 :: int) \<le> 2 ^ k'" by simp
      show ?thesis
      proof (cases "2 * delay \<le> 10 * Second")
        case True
        then show ?thesis unfolding backoff_delay_def nd(3) by (simp add: min_def mult.commute mult.left_commute)
      next
        case False
        then have "10 * Second \<le> 2 * delay * 2 ^ k'"
          using mult_mono [of "10 * Second" "2 * delay" 1 "2 ^ k'"] one by simp
        then have "min (delay * 2 ^ Suc k') (10 * Second) = 10 * Second"
          by (intro min_absorb2) (simp add: mult.commute mult.left_commute)
        moreover have "min (10 * Second * 2 ^ k') (10 * Second) = 10 * Second"
          by (intro min_absorb2) (use one in simp)
        moreover have "min (2 * delay) (10 * Second) = 10 * Second" using False by simp
        ultimately show ?thesis unfolding backoff_delay_def nd(3) by (simp only:)
      qed
    qed
    then show ?thesis
      using Suc.IH [OF t Suc.prems(2) nd(1,2), of k'] Suc.prems(5) tr \<open>k = Suc k'\<close> by simp
  qed
qed

subsection \<open>Properties\<close>

text \<open>A signed delivery verifies. A request that carries the event id, the timestamp and the signature
  produced by \<open>Sign\<close> for its body is accepted with the same secret whenever the clock of the receiver is
  within five minutes of the signed second, and is rejected as stale when it is not.\<close>

lemma sign_verify_roundtrip:
  assumes "Sign L secret eid ts body = (sig, stamp)" "eid \<noteq> []" "in_int64 (time_Unix ts)"
    and "hmac_sha256 L secret (stamp @ ''.'' @ eid @ ''.'' @ body) \<noteq> []"
    and "header HeaderEventID = eid" "header HeaderTimestamp = stamp" "header HeaderSignature = sig"
  shows "Verify L now secret header body =
    (if \<bar>now - of_unix (time_Unix ts)\<bar> \<le> 5 * Minute then None else Some ''webhook: stale timestamp (replay?)'')"
proof -
  have s: "stamp = show_int (time_Unix ts)"
    "sig = hex_EncodeToString (hmac_sha256 L secret (stamp @ ''.'' @ eid @ ''.'' @ body))"
    using assms(1) by (auto simp: Sign_def Let_def)
  have "stamp \<noteq> []" by (simp add: s(1) show_int_def)
  moreover have "sig \<noteq> []"
    using assms(4) s(2) hex_EncodeToString_inject [of "hmac_sha256 L secret (stamp @ ''.'' @ eid @ ''.'' @ body)" "[]"]
    by (simp add: hex_EncodeToString_def)
  moreover have "ParseInt64 stamp = Some (time_Unix ts)" using assms(3) s(1) by simp
  ultimately show ?thesis
    using assms(2,5-7) s by (simp add: Verify_def Sign_def Let_def duration_Abs_less)
qed

lemma sign_verify_roundtrip_example:
  "Verify plain_lib (unix_epoch + 3 * Minute) ''k''
     (\<lambda>h. if h = HeaderEventID then ''e'' else if h = HeaderTimestamp then ''0''
          else if h = HeaderSignature then fst (Sign plain_lib ''k'' ''e'' unix_epoch ''b'') else []) ''b'' = None"
proof -
  have "time_Unix unix_epoch = 0" by (simp add: time_Unix_def)
  moreover have "show_int 0 = ''0''" by code_simp
  ultimately show ?thesis
    using sign_verify_roundtrip [of plain_lib "''k''" "''e''" unix_epoch "''b''"
        "fst (Sign plain_lib ''k'' ''e'' unix_epoch ''b'')" "''0''"
        "\<lambda>h. if h = HeaderEventID then ''e'' else if h = HeaderTimestamp then ''0''
          else if h = HeaderSignature then fst (Sign plain_lib ''k'' ''e'' unix_epoch ''b'') else []" "unix_epoch + 3 * Minute"]
    by (simp add: Sign_def Let_def in_int64_def plain_lib_def HeaderEventID_def HeaderTimestamp_def HeaderSignature_def of_unix_def)
qed

text \<open>The signature does not separate the event id from the body. The signed text joins timestamp, id and
  body with dots, and event ids contain dots themselves, so a delivery with id \<open>a.b\<close> and body \<open>c\<close> carries
  the signature of the delivery with id \<open>a\<close> and body \<open>b.c\<close>.\<close>

lemma signature_boundary_ambiguous:
  "Sign L secret (a @ ''.'' @ b) ts c = Sign L secret a ts (b @ ''.'' @ c)"
  by (simp add: Sign_def Let_def)

text \<open>The retry loop makes at most \<open>MaxRetries + 1\<close> requests, retries only network errors, 429 and 5xx
  answers, and ends with the first other answer: accepted below 400, refused otherwise. Only after every
  attempt was retryable does it give up, with the error of the last one.\<close>

lemma retry_loop_budget:
  assumes "attempt_loop E req (nat (dp_MaxRetries d + 1)) (dp_BaseDelay d) None w = (tr, w')"
    and "0 \<le> dp_MaxRetries d" "he_NewRequest E (rq_URL req) = None"
  shows "int (length (lt_answers tr)) \<le> dp_MaxRetries d + 1 \<and>
    (case lt_end tr of
       Accepted s \<Rightarrow> (\<exists>as. lt_answers tr = as @ [Inr s] \<and> (\<forall>a \<in> set as. retryable a)) \<and> s < 400
     | Refused s \<Rightarrow> (\<exists>as. lt_answers tr = as @ [Inr s] \<and> (\<forall>a \<in> set as. retryable a)) \<and> 400 \<le> s \<and> s < 500 \<and> s \<noteq> 429
     | GaveUp err \<Rightarrow> (\<forall>a \<in> set (lt_answers tr). retryable a)
         \<and> int (length (lt_answers tr)) = dp_MaxRetries d + 1 \<and> err = Some (answer_error (last (lt_answers tr))))"
  using attempt_loop_answers [OF assms(1)] assms(2,3) by (cases "lt_end tr") auto

definition refusing_env :: "nat http_env" where
  "refusing_env = \<lparr>he_net = sample_env, he_marshal = (\<lambda>_. Inr ''{}''), he_NewRequest = (\<lambda>_. None),
     he_Do = (\<lambda>_ w. (Inr 404, w + 1)), he_randInt = (\<lambda>n w. (Inr 0, w))\<rparr>"

definition sample_request :: http_request where
  "sample_request = \<lparr>rq_URL = ''u'', rq_Header = [], rq_Body = ''{}''\<rparr>"

definition sample_event :: event where
  "sample_event = \<lparr>ev_ID = ''i'', ev_Type = ''incident.created'', ev_TenantID = ''t'', ev_VehicleID = ''v'',
     ev_Timestamp = 1, ev_RuleID = [], ev_RuleVersion = [], ev_CorrelationID = ''c'', ev_CausationID = [],
     ev_Payload = [], ev_SchemaVersion = 1\<rparr>"

lemma retry_loop_budget_example:
  "\<exists>tr. fst (attempt_loop refusing_env sample_request (nat (dp_MaxRetries NewDispatcher + 1)) (dp_BaseDelay NewDispatcher) None 0) = tr
     \<and> lt_end tr = Refused 404 \<and> int (length (lt_answers tr)) \<le> 6"
proof -
  obtain tr w' where t: "attempt_loop refusing_env sample_request (nat (dp_MaxRetries NewDispatcher + 1)) (dp_BaseDelay NewDispatcher) None 0 = (tr, w')"
    by fastforce
  moreover from this have "lt_end tr = Refused 404"
    by (auto simp: NewDispatcher_def refusing_env_def retryable_def numeral_eq_Suc)
  ultimately show ?thesis
    using retry_loop_budget [OF t] by (simp add: NewDispatcher_def refusing_env_def)
qed

text \<open>Backoff doubles and is capped. With a base delay of at most ten seconds and randomness that keeps
  its range, the k-th pause lies between the k-th backoff delay (base times 2 to the k, at most ten seconds)
  and twice that delay.\<close>

lemma backoff_pauses:
  assumes "attempt_loop E req n base le w = (tr, w')" "rand_in_range E" "0 \<le> base" "base \<le> 10 * Second"
    and "k < length (lt_sleeps tr)"
  shows "min (base * 2 ^ k) (10 * Second) \<le> lt_sleeps tr ! k \<and> lt_sleeps tr ! k \<le> 2 * min (base * 2 ^ k) (10 * Second)"
  using attempt_loop_sleeps [OF assms] by (simp only: backoff_delay_def)

lemma backoff_pauses_example:
  "\<exists>tr. fst (attempt_loop (refusing_env\<lparr>he_Do := \<lambda>_ w. (Inr 503, w)\<rparr>) sample_request 2 Second None 0) = tr
     \<and> 2 * Second \<le> lt_sleeps tr ! 1 \<and> lt_sleeps tr ! 1 \<le> 4 * Second"
proof -
  let ?E = "refusing_env\<lparr>he_Do := \<lambda>_ w. (Inr 503, w)\<rparr>"
  obtain tr w' where t: "attempt_loop ?E sample_request 2 Second None 0 = (tr, w')" by fastforce
  moreover have "rand_in_range ?E" by (simp add: rand_in_range_def refusing_env_def)
  moreover have "1 < length (lt_sleeps tr)"
    using t by (auto simp: refusing_env_def retryable_def numeral_eq_Suc jitter_def split: prod.splits if_splits)
  ultimately show ?thesis using backoff_pauses [OF t, of 1] by simp
qed



end
