(* ===== verification/Guarded.thy ===== *)
theory Guarded
  imports Webhooks
begin

section \<open>The guarded client on the network (internal/webhooks)\<close>

text \<open>
  \<open>ValidateURL\<close>, the redirect hook and the dial hook of \<open>guardedClient\<close>, put together with the loop of
  \<open>http.Client.Do\<close> and a resolver whose answers may change from one question to the next. The world is a pair: the
  outside world, and the addresses to which a connection was attempted, in order.
\<close>

subsection \<open>The network\<close>

text \<open>
  \<open>we_Addr\<close> is the address the transport dials for a URL, \<open>we_Resolve\<close> the parsing of a Location header relative to a
  URL, \<open>we_Exchange\<close> one request over a connection, with the status and the Location header of the answer (empty when
  there is none), \<open>we_RoundTrip\<close> a transport that is not one of net/http, with the addresses it tries, \<open>we_Error\<close> the text of a \<open>url.Error\<close>.
\<close>

record 'w wire_env =
  we_Parse :: "string \<Rightarrow> parsed_url option"
  we_SplitHostPort :: "string \<Rightarrow> string option"
  we_Lookup :: "string \<Rightarrow> 'w \<Rightarrow> (go_error + ip list) \<times> 'w"
  we_Addr :: "string \<Rightarrow> string"
  we_Resolve :: "string \<Rightarrow> string \<Rightarrow> go_error + string"
  we_Connect :: "ip \<Rightarrow> 'w \<Rightarrow> go_error option \<times> 'w"
  we_Exchange :: "http_request \<Rightarrow> ip \<Rightarrow> 'w \<Rightarrow> (go_error + int \<times> string) \<times> 'w"
  we_RoundTrip :: "http_request \<Rightarrow> 'w \<Rightarrow> ((go_error + int \<times> string) \<times> ip list) \<times> 'w"
  we_Error :: "http_request \<Rightarrow> go_error \<Rightarrow> go_error"

definition env_at :: "'w wire_env \<Rightarrow> 'w \<Rightarrow> net_env" where
  "env_at N w = \<lparr>url_Parse = we_Parse N, LookupIPAddr = (\<lambda>h. fst (we_Lookup N h w)), SplitHostPort = we_SplitHostPort N\<rparr>"

text \<open>The host \<open>ValidateURL\<close> asks the resolver for, when it gets that far, and its effect on the world.\<close>

definition asks :: "'w wire_env \<Rightarrow> string \<Rightarrow> string option" where
  "asks N raw =
     (case we_Parse N raw of
        None \<Rightarrow> None
      | Some u \<Rightarrow>
          if pu_Host u = [] \<or> (pu_Scheme u \<noteq> ''http'' \<and> pu_Scheme u \<noteq> ''https'') \<or> pu_HasUser u
             \<or> map ToLower_char (trim_suffix (pu_Hostname u) ''.'') \<in> set metadataHosts \<or> pu_Hostname u \<in> set metadataHosts
          then None else Some (pu_Hostname u))"

definition validate_at :: "'w wire_env \<Rightarrow> bool \<Rightarrow> string \<Rightarrow> 'w \<Rightarrow> go_error option \<times> 'w" where
  "validate_at N allowPrivate raw w =
     (ValidateURL (env_at N w) raw allowPrivate, case asks N raw of None \<Rightarrow> w | Some h \<Rightarrow> snd (we_Lookup N h w))"

subsection \<open>guardedClient\<close>

datatype client_transport = NilTransport | HttpTransport | OtherTransport

record http_client =
  hc_Timeout :: duration
  hc_Transport :: client_transport

text \<open>What the guarded client sends requests with: a transport with the dial hook, or the foreign one as it is.\<close>

datatype guarded_transport = GuardedDial | ForeignTrip

record guarded_client =
  gc_Timeout :: duration
  gc_AllowPrivate :: bool
  gc_Transport :: guarded_transport

definition guardedClient :: "http_client option \<Rightarrow> bool \<Rightarrow> guarded_client" where
  "guardedClient client allowPrivate =
     (let base = (case client of None \<Rightarrow> \<lparr>hc_Timeout = 5 * Second, hc_Transport = NilTransport\<rparr> | Some c \<Rightarrow> c)
      in \<lparr>gc_Timeout = hc_Timeout base, gc_AllowPrivate = allowPrivate,
          gc_Transport = (case hc_Transport base of NilTransport \<Rightarrow> GuardedDial | HttpTransport \<Rightarrow> GuardedDial | OtherTransport \<Rightarrow> ForeignTrip)\<rparr>)"

definition check_redirect :: "'w wire_env \<Rightarrow> bool \<Rightarrow> string \<Rightarrow> nat \<Rightarrow> 'w \<Rightarrow> go_error option \<times> 'w" where
  "check_redirect N allowPrivate next_url via w =
     (CheckRedirect (env_at N w) allowPrivate next_url via, if 3 < via then w else snd (validate_at N allowPrivate next_url w))"

text \<open>\<open>net.Dialer\<close>: resolve the host, then try the addresses in order until one accepts; the first error is returned.\<close>

fun try_connect :: "'w wire_env \<Rightarrow> go_error option \<Rightarrow> ip list \<Rightarrow> 'w \<times> ip list \<Rightarrow> (go_error + ip) \<times> 'w \<times> ip list" where
  "try_connect N firstErr [] s = (Inl (case firstErr of None \<Rightarrow> ''missing address'' | Some err \<Rightarrow> err), s)"
| "try_connect N firstErr (i # is) s =
     (case we_Connect N i (fst s) of
        (None, w) \<Rightarrow> (Inr i, w, snd s @ [i])
      | (Some err, w) \<Rightarrow> try_connect N (case firstErr of None \<Rightarrow> Some err | Some e \<Rightarrow> Some e) is (w, snd s @ [i]))"

definition net_dial :: "'w wire_env \<Rightarrow> string \<Rightarrow> 'w \<times> ip list \<Rightarrow> (go_error + ip) \<times> 'w \<times> ip list" where
  "net_dial N addr s =
     (case we_SplitHostPort N addr of
        None \<Rightarrow> (Inl ''missing port in address'', s)
      | Some host \<Rightarrow>
          (case we_Lookup N host (fst s) of
             (Inl err, w) \<Rightarrow> (Inl err, w, snd s)
           | (Inr ips, w) \<Rightarrow> try_connect N None ips (w, snd s)))"

text \<open>The dial hook: it resolves the host, checks every address, and dials the host again by its name.\<close>

definition guarded_dial :: "'w wire_env \<Rightarrow> bool \<Rightarrow> string \<Rightarrow> 'w \<times> ip list \<Rightarrow> (go_error + ip) \<times> 'w \<times> ip list" where
  "guarded_dial N allowPrivate addr s =
     (let w = (case we_SplitHostPort N addr of None \<Rightarrow> fst s | Some host \<Rightarrow> snd (we_Lookup N host (fst s)))
      in case DialContext (env_at N (fst s)) allowPrivate addr of
           Some err \<Rightarrow> (Inl err, w, snd s)
         | None \<Rightarrow> net_dial N addr (w, snd s))"

subsection \<open>Client.Do and Dispatch\<close>

definition round_trip :: "'w wire_env \<Rightarrow> guarded_client \<Rightarrow> http_request \<Rightarrow> 'w \<times> ip list \<Rightarrow> (go_error + int \<times> string) \<times> 'w \<times> ip list" where
  "round_trip N gc req s =
     (case gc_Transport gc of
        ForeignTrip \<Rightarrow> (let ((r, tried), w) = we_RoundTrip N req (fst s) in (r, w, snd s @ tried))
      | GuardedDial \<Rightarrow>
          (case guarded_dial N (gc_AllowPrivate gc) (we_Addr N (rq_URL req)) s of
             (Inl err, s) \<Rightarrow> (Inl err, s)
           | (Inr i, s) \<Rightarrow> (let (r, w) = we_Exchange N req i (fst s) in (r, w, snd s))))"

definition is_redirect :: "int \<Rightarrow> string \<Rightarrow> bool" where
  "is_redirect status loc \<longleftrightarrow> status \<in> {301, 302, 303, 307, 308} \<and> loc \<noteq> []"

text \<open>The statuses 301, 302 and 303 turn the POST into a GET without a body.\<close>

definition next_request :: "int \<Rightarrow> string \<Rightarrow> http_request \<Rightarrow> http_request" where
  "next_request status url req = req\<lparr>rq_URL := url, rq_Body := (if status \<in> {307, 308} then rq_Body req else [])\<rparr>"

function client_Do :: "'w wire_env \<Rightarrow> guarded_client \<Rightarrow> nat \<Rightarrow> http_request \<Rightarrow> 'w \<times> ip list \<Rightarrow> (go_error + int) \<times> 'w \<times> ip list" where
  "client_Do N gc via req s =
     (case round_trip N gc req s of
        (Inl err, s) \<Rightarrow> (Inl (we_Error N req err), s)
      | (Inr (status, loc), s) \<Rightarrow>
          if \<not> is_redirect status loc then (Inr status, s)
          else case we_Resolve N (rq_URL req) loc of
            Inl err \<Rightarrow> (Inl (we_Error N req err), s)
          | Inr url \<Rightarrow>
              (case check_redirect N (gc_AllowPrivate gc) url (Suc via) (fst s) of
                 (Some err, w) \<Rightarrow> (Inl (we_Error N req err), w, snd s)
               | (None, w) \<Rightarrow> client_Do N gc (Suc via) (next_request status url req) (w, snd s)))"
  by pat_completeness auto
termination
  by (relation "measure (\<lambda>(N, gc, via, req, s). 4 - via)")
    (auto simp: check_redirect_def CheckRedirect_def split: if_splits)

declare client_Do.simps [simp del]

record 'w dispatch_env =
  de_wire :: "'w wire_env"
  de_marshal :: "event \<Rightarrow> go_error + string"
  de_NewRequest :: "string \<Rightarrow> go_error option"
  de_randInt :: "int \<Rightarrow> 'w \<Rightarrow> (go_error + int) \<times> 'w"

definition http_env_at :: "'w dispatch_env \<Rightarrow> guarded_client \<Rightarrow> 'w \<Rightarrow> ('w \<times> ip list) http_env" where
  "http_env_at D gc w =
     \<lparr>he_net = env_at (de_wire D) w, he_marshal = de_marshal D, he_NewRequest = de_NewRequest D, he_Do = client_Do (de_wire D) gc 0,
      he_randInt = (\<lambda>n s. let (v, w) = de_randInt D n (fst s) in (v, w, snd s))\<rparr>"

text \<open>\<open>Dispatch\<close> with the guarded client; the resolver is asked by \<open>ValidateURL\<close> before the first request is made.\<close>

definition guarded_Dispatch ::
  "go_lib \<Rightarrow> 'w dispatch_env \<Rightarrow> http_client option \<Rightarrow> time \<Rightarrow> time \<Rightarrow> string \<Rightarrow> string \<Rightarrow> event \<Rightarrow> dispatcher \<Rightarrow> 'w \<times> ip list
    \<Rightarrow> (dispatch_result \<times> dispatcher) \<times> 'w \<times> ip list" where
  "guarded_Dispatch L D client now recAt url secret e d s =
     Dispatch L (http_env_at D (guardedClient client (dp_AllowPrivate d)) (fst s)) now recAt url secret e d
       (case de_marshal D e of Inl _ \<Rightarrow> fst s | Inr _ \<Rightarrow> snd (validate_at (de_wire D) (dp_AllowPrivate d) url (fst s)), snd s)"

subsection \<open>Which addresses are tried\<close>

text \<open>\<open>tries P s s'\<close>: from \<open>s\<close> to \<open>s'\<close> connections were attempted only to addresses that satisfy \<open>P\<close>.\<close>

definition tries :: "(ip \<Rightarrow> bool) \<Rightarrow> 'w \<times> ip list \<Rightarrow> 'w \<times> ip list \<Rightarrow> bool" where
  "tries P s s' \<longleftrightarrow> (\<exists>new. snd s' = snd s @ new \<and> (\<forall>i \<in> set new. P i))"

lemma tries_refl: "snd s' = snd s \<Longrightarrow> tries P s s'"
  by (simp add: tries_def)

lemma tries_trans [trans]: "tries P s s' \<Longrightarrow> tries P s' s'' \<Longrightarrow> tries P s s''"
  by (auto simp: tries_def)

lemma tries_keeps: "tries P s s' \<Longrightarrow> set (snd s) \<subseteq> set (snd s')"
  by (auto simp: tries_def)

lemma try_connect_tries: "(\<And>i. i \<in> set is \<Longrightarrow> P i) \<Longrightarrow> tries P s (snd (try_connect N fe is s))"
proof (induction "is" arbitrary: fe s)
  case (Cons i "is")
  obtain err w where c: "we_Connect N i (fst s) = (err, w)" by (cases "we_Connect N i (fst s)")
  have one: "tries P s (w, snd s @ [i])" using Cons.prems by (simp add: tries_def)
  show ?case
  proof (cases err)
    case None
    with one c show ?thesis by simp
  next
    case (Some e)
    then show ?thesis using tries_trans [OF one Cons.IH] Cons.prems c by simp
  qed
qed (simp add: tries_refl)

lemma try_connect_first: "i \<in> set (snd (snd (try_connect N fe (i # is) s)))"
proof (cases "we_Connect N i (fst s)")
  case (Pair err w)
  have "tries (\<lambda>_. True) (w, snd s @ [i]) (snd (try_connect N fe' is (w, snd s @ [i])))" for fe' by (rule try_connect_tries) simp
  from tries_keeps [OF this] Pair show ?thesis by (cases err) auto
qed

text \<open>When the resolver gives the same answer to the same question asked twice in a row, the dial hook tries public addresses only.\<close>

definition steady :: "'w wire_env \<Rightarrow> bool" where
  "steady N \<longleftrightarrow> (\<forall>h w. fst (we_Lookup N h (snd (we_Lookup N h w))) = fst (we_Lookup N h w))"

lemma guarded_dial_tries:
  assumes "steady N \<Longrightarrow> \<forall>i. publicIP i allowPrivate \<longrightarrow> P i" "\<not> steady N \<Longrightarrow> \<forall>i. P i"
  shows "tries P s (snd (guarded_dial N allowPrivate addr s))"
proof (cases "DialContext (env_at N (fst s)) allowPrivate addr")
  case None
  then obtain host ips where h: "we_SplitHostPort N addr = Some host" "fst (we_Lookup N host (fst s)) = Inr ips" "\<forall>i \<in> set ips. publicIP i allowPrivate"
    by (auto simp: DialContext_def env_at_def split: option.splits sum.splits if_splits)
  let ?w = "snd (we_Lookup N host (fst s))"
  show ?thesis
  proof (cases "we_Lookup N host ?w")
    case (Pair ans w)
    have "\<forall>i \<in> set ips'. P i" if "ans = Inr ips'" for ips'
    proof (cases "steady N")
      case True
      then have "ans = Inr ips" using h(2) Pair by (simp add: steady_def) (metis fst_conv)
      with that True h(3) assms(1) show ?thesis by blast
    next
      case False
      with assms(2) show ?thesis by blast
    qed
    then have "tries P (w, snd s) (snd (try_connect N None ips' (w, snd s)))" if "ans = Inr ips'" for ips'
      using that by (intro try_connect_tries) blast
    then show ?thesis using None h(1) Pair
      by (auto simp: guarded_dial_def net_dial_def Let_def tries_def split: sum.split)
  qed
qed (simp add: guarded_dial_def tries_refl)

text \<open>The two uses of what follows: public addresses only, with a steady resolver; and no address is ever forgotten.\<close>

definition guard_holds :: "'w wire_env \<Rightarrow> guarded_client \<Rightarrow> (ip \<Rightarrow> bool) \<Rightarrow> bool" where
  "guard_holds N gc P \<longleftrightarrow>
     (if steady N \<and> gc_Transport gc = GuardedDial then \<forall>i. publicIP i (gc_AllowPrivate gc) \<longrightarrow> P i else \<forall>i. P i)"

lemma round_trip_tries:
  assumes "guard_holds N gc P"
  shows "tries P s (snd (round_trip N gc req s))"
proof (cases "gc_Transport gc")
  case GuardedDial
  have "tries P s (snd (guarded_dial N (gc_AllowPrivate gc) (we_Addr N (rq_URL req)) s))"
    using assms GuardedDial by (intro guarded_dial_tries) (simp_all add: guard_holds_def)
  with GuardedDial show ?thesis by (auto simp: round_trip_def case_prod_beta Let_def tries_def split: sum.split prod.split)
qed (use assms in \<open>simp add: round_trip_def case_prod_beta Let_def tries_def guard_holds_def\<close>)

lemma client_Do_tries:
  assumes "guard_holds N gc P"
  shows "tries P s (snd (client_Do N gc via req s))"
  using assms
proof (induction N gc via req s rule: client_Do.induct)
  case (1 N gc via req s)
  obtain r s1 where rt: "round_trip N gc req s = (r, s1)" by (cases "round_trip N gc req s")
  have t: "tries P s s1" using round_trip_tries [OF "1.prems", of s req] by (simp add: rt)
  show ?case
  proof (cases "\<exists>status loc url w. r = Inr (status, loc) \<and> is_redirect status loc \<and> we_Resolve N (rq_URL req) loc = Inr url
      \<and> check_redirect N (gc_AllowPrivate gc) url (Suc via) (fst s1) = (None, w)")
    case True
    then obtain status loc url w where r: "r = Inr (status, loc)" "is_redirect status loc" "we_Resolve N (rq_URL req) loc = Inr url"
      "check_redirect N (gc_AllowPrivate gc) url (Suc via) (fst s1) = (None, w)" by blast
    have "tries P (w, snd s1) (snd (client_Do N gc (Suc via) (next_request status url req) (w, snd s1)))"
      using "1.IH" [OF rt [symmetric]] r "1.prems" by fastforce
    then show ?thesis using t r rt by (auto simp: client_Do.simps [of N gc via] tries_def)
  next
    case False
    then have "snd (snd (client_Do N gc via req s)) = snd s1"
      using rt by (auto simp: client_Do.simps [of N gc via] split: sum.split prod.split option.split)
    then show ?thesis using t by (simp add: tries_def)
  qed
qed

lemma attempt_loop_tries:
  assumes "guard_holds (de_wire D) gc P"
  shows "tries P s (snd (attempt_loop (http_env_at D gc w0) req n delay le s))"
proof (induction n arbitrary: delay le s)
  case (Suc n)
  let ?E = "http_env_at D gc w0"
  obtain ans s1 where d: "he_Do ?E req s = (ans, s1)" by (cases "he_Do ?E req s")
  have t: "tries P s s1" using client_Do_tries [OF assms, of s 0 req] d by (simp add: http_env_at_def)
  obtain j s2 where j: "jitter ?E delay s1 = (j, s2)" by (cases "jitter ?E delay s1")
  then have "snd s2 = snd s1" by (auto simp: jitter_def http_env_at_def Let_def split: if_splits sum.splits prod.splits)
  then have "tries P s s2" using t by (simp add: tries_def)
  then have "tries P s (snd (attempt_loop ?E req n (next_delay delay) (Some (answer_error ans)) s2))"
    by (rule tries_trans) (rule Suc.IH)
  then show ?case using t d j by (simp add: case_prod_beta Let_def tries_refl split: option.split)
qed (simp add: tries_refl)

lemma dispatch_tries:
  assumes "guard_holds (de_wire D) (guardedClient client (dp_AllowPrivate d)) P"
  shows "tries P s (snd (guarded_Dispatch L D client now recAt url secret e d s))"
proof -
  let ?gc = "guardedClient client (dp_AllowPrivate d)"
  have "tries P s (snd (attempt_loop (http_env_at D ?gc w0) req n delay le (w, snd s)))" for w0 w req n delay le
    using attempt_loop_tries [OF assms, of "(w, snd s)"] by (simp add: tries_def)
  moreover have "he_marshal (http_env_at D ?gc w0) = de_marshal D" for w0 by (simp add: http_env_at_def)
  ultimately show ?thesis
    by (auto simp: guarded_Dispatch_def Dispatch_def case_prod_beta Let_def tries_refl split: sum.split option.split attempt_end.split)
qed

text \<open>The first request of a dispatch: what its dial tried stays in the list of tried addresses.\<close>

lemma guard_holds_any: "guard_holds N gc (\<lambda>_. True)"
  by (simp add: guard_holds_def)

lemma client_Do_keeps:
  assumes "round_trip N gc req s = (r, s1)"
  shows "set (snd s1) \<subseteq> set (snd (snd (client_Do N gc via req s)))"
proof -
  have "set (snd s1) \<subseteq> set (snd (snd (client_Do N gc (Suc via) req' (w, snd s1))))" for req' w
    using tries_keeps [OF client_Do_tries [OF guard_holds_any]] by fastforce
  then show ?thesis using assms by (simp add: client_Do.simps [of N gc via] split: sum.split prod.split option.split)
qed

lemma attempt_loop_keeps:
  assumes "de_NewRequest D (rq_URL req) = None" "round_trip (de_wire D) gc req s = (r, s1)"
  shows "set (snd s1) \<subseteq> set (snd (snd (attempt_loop (http_env_at D gc w0) req (Suc n) delay le s)))"
proof -
  let ?E = "http_env_at D gc w0"
  obtain ans s2 where d: "he_Do ?E req s = (ans, s2)" by (cases "he_Do ?E req s")
  have "set (snd s1) \<subseteq> set (snd s2)" using client_Do_keeps [OF assms(2), of 0] d by (simp add: http_env_at_def)
  moreover obtain j s3 where j: "jitter ?E delay s2 = (j, s3)" by (cases "jitter ?E delay s2")
  then have "snd s3 = snd s2" by (auto simp: jitter_def http_env_at_def Let_def split: if_splits sum.splits prod.splits)
  moreover have "set (snd s3) \<subseteq> set (snd (snd (attempt_loop ?E req n (next_delay delay) (Some (answer_error ans)) s3)))"
    by (rule tries_keeps [OF attempt_loop_tries [OF guard_holds_any]])
  moreover have "he_NewRequest ?E (rq_URL req) = None" using assms(1) by (simp add: http_env_at_def)
  ultimately show ?thesis using d j by (auto simp: case_prod_beta Let_def)
qed

lemma dispatch_first_dial:
  assumes "de_marshal D e = Inr body" "validate_at (de_wire D) (dp_AllowPrivate d) url w = (None, w1)" "0 \<le> dp_MaxRetries d" "de_NewRequest D url = None"
    and "\<And>req. rq_URL req = url \<Longrightarrow> i \<in> set (snd (snd (round_trip (de_wire D) (guardedClient client (dp_AllowPrivate d)) req (w1, tr))))"
  shows "i \<in> set (snd (snd (guarded_Dispatch L D client now recAt url secret e d (w, tr))))"
proof -
  let ?gc = "guardedClient client (dp_AllowPrivate d)"
  obtain n where n: "nat (dp_MaxRetries d + 1) = Suc n" using assms(3) by (metis Suc_nat_eq_nat_zadd1 add.commute)
  have first: "i \<in> set (snd (snd (attempt_loop (http_env_at D ?gc w) req (Suc n) delay le (w1, tr))))" if "rq_URL req = url" for req delay le
  proof -
    obtain r s1 where "round_trip (de_wire D) ?gc req (w1, tr) = (r, s1)" by (cases "round_trip (de_wire D) ?gc req (w1, tr)")
    with assms(5) [OF that] attempt_loop_keeps [of D req ?gc "(w1, tr)" r s1 w n delay le] assms(4) that show ?thesis by auto
  qed
  have "he_marshal (http_env_at D ?gc w) e = Inr body" "he_net (http_env_at D ?gc w) = env_at (de_wire D) w"
    using assms(1) by (simp_all add: http_env_at_def)
  moreover have "ValidateURL (env_at (de_wire D) w) url (dp_AllowPrivate d) = None" using assms(2) by (simp add: validate_at_def)
  ultimately show ?thesis using assms(1,2) n first
    by (simp add: guarded_Dispatch_def Dispatch_def case_prod_beta Let_def split: attempt_end.split option.split)
qed

subsection \<open>Properties\<close>

text \<open>C11: A dispatch connects to public addresses only. With the escape hatch closed, a transport of net/http and a
  resolver that does not change its answer between the check and the dial that follows it, every address to which
  \<open>Dispatch\<close> attempts a connection is public, over all retries and redirects and whatever the servers answer.
  The resolver may change its answers at any other time, so that also a name that moves after the URL was
  validated is caught.\<close>

theorem dispatch_connects_to_public_only:
  assumes "dp_AllowPrivate d = False" "steady (de_wire D)" "pred_option (\<lambda>c. hc_Transport c \<noteq> OtherTransport) client"
    and "guarded_Dispatch L D client now recAt url secret e d (w, []) = (res, w', tried)"
  shows "\<forall>i \<in> set tried. publicIP i False"
proof -
  have "gc_Transport (guardedClient client (dp_AllowPrivate d)) = GuardedDial"
    using assms(3) by (cases client) (auto simp: guardedClient_def Let_def split: client_transport.split)
  then have "guard_holds (de_wire D) (guardedClient client (dp_AllowPrivate d)) (\<lambda>i. publicIP i False)"
    using assms(1,2) by (simp add: guard_holds_def) (simp add: guardedClient_def Let_def)
  from dispatch_tries [OF this, of "(w, [])" L now recAt url secret e] assms(4) show ?thesis by (auto simp: tries_def)
qed

text \<open>A network with one host; \<open>answers\<close> gives the answer of the resolver by the number of questions asked before.\<close>

definition one_host :: "(nat \<Rightarrow> ip) \<Rightarrow> nat wire_env" where
  "one_host answers =
     \<lparr>we_Parse = (\<lambda>_. Some \<lparr>pu_Scheme = ''https'', pu_Host = ''h'', pu_HasUser = False, pu_Hostname = ''h''\<rparr>),
      we_SplitHostPort = (\<lambda>_. Some ''h''), we_Lookup = (\<lambda>_ n. (Inr [answers n], n + 1)), we_Addr = (\<lambda>_. ''h:443''),
      we_Resolve = (\<lambda>_ loc. Inr loc), we_Connect = (\<lambda>_ n. (None, n)), we_Exchange = (\<lambda>_ _ n. (Inr (200, []), n)),
      we_RoundTrip = (\<lambda>_ n. ((Inr (200, []), []), n)), we_Error = (\<lambda>_ err. err)\<rparr>"

definition one_host_env :: "(nat \<Rightarrow> ip) \<Rightarrow> nat dispatch_env" where
  "one_host_env answers =
     \<lparr>de_wire = one_host answers, de_marshal = (\<lambda>_. Inr ''{}''), de_NewRequest = (\<lambda>_. None), de_randInt = (\<lambda>_ n. (Inr 0, n))\<rparr>"

lemma one_host_validates:
  assumes "publicIP (answers n) False"
  shows "validate_at (one_host answers) False url n = (None, n + 1)"
  using assms
  by (simp add: validate_at_def asks_def ValidateURL_def one_host_def env_at_def metadataHosts_def trim_suffix_def ToLower_char_def Let_def)

lemma google_dns_public: "publicIP [8, 8, 8, 8] False"
  using publicIP_v4 [of "[8, 8, 8, 8]" 8 8 8 8] by (simp add: To4_4 public_v4_def)

lemma loopback_not_public: "\<not> publicIP [127, 0, 0, 1] False"
  using publicIP_v4 [of "[127, 0, 0, 1]" 127 0 0 1] by (simp add: To4_4 public_v4_def)

theorem dispatch_connects_to_public_only_witness:
  "\<exists>res w' tried. guarded_Dispatch plain_lib (one_host_env (\<lambda>_. [8, 8, 8, 8])) None 1 2 ''https://h'' ''k'' sample_event NewDispatcher (0, []) = (res, w', tried)
     \<and> [8, 8, 8, 8] \<in> set tried \<and> (\<forall>i \<in> set tried. publicIP i False)"
proof -
  let ?N = "one_host (\<lambda>_. [8, 8, 8, 8])" and ?D = "one_host_env (\<lambda>_. [8, 8, 8, 8])"
  obtain res w' tried where d: "guarded_Dispatch plain_lib ?D None 1 2 ''https://h'' ''k'' sample_event NewDispatcher (0, []) = (res, w', tried)"
    by (metis surj_pair)
  have "steady (de_wire ?D)" by (simp add: steady_def one_host_env_def one_host_def)
  with dispatch_connects_to_public_only [OF _ _ _ d] have p: "\<forall>i \<in> set tried. publicIP i False" by (simp add: NewDispatcher_def)
  have "[8, 8, 8, 8] \<in> set (snd (snd (round_trip (de_wire ?D) (guardedClient None (dp_AllowPrivate NewDispatcher)) req (0 + 1, []))))" for req
    by (simp add: round_trip_def guardedClient_def guarded_dial_def net_dial_def DialContext_def env_at_def one_host_env_def one_host_def
        NewDispatcher_def google_dns_public Let_def)
  then have "[8, 8, 8, 8] \<in> set (snd (snd (guarded_Dispatch plain_lib ?D None 1 2 ''https://h'' ''k'' sample_event NewDispatcher (0, []))))"
    using one_host_validates [of "\<lambda>_. [8, 8, 8, 8]" 0 "''https://h''"] google_dns_public
    by (intro dispatch_first_dial [where body = "''{}''" and ?w1.0 = "0 + 1"]) (simp_all add: one_host_env_def NewDispatcher_def)
  with d p show ?thesis by auto
qed

text \<open>C34: DNS rebinding passes the guard. The dial hook checks the addresses of the host and then dials the host by its name, and
  the dialer asks the resolver once more. A resolver that gives public addresses to \<open>ValidateURL\<close> and to the
  hook and another address to the dialer makes \<open>Dispatch\<close> connect to that address, whatever it is.\<close>

theorem dns_rebinding_passes_the_guard:
  assumes "de_marshal D e = Inr body" "0 \<le> dp_MaxRetries d" "de_NewRequest D url = None"
    and "pred_option (\<lambda>c. hc_Transport c \<noteq> OtherTransport) client"
    and "validate_at (de_wire D) (dp_AllowPrivate d) url w = (None, w1)" "we_SplitHostPort (de_wire D) (we_Addr (de_wire D) url) = Some host"
    and "we_Lookup (de_wire D) host w1 = (Inr ips, w2)" "ips \<noteq> []" "list_all (\<lambda>i. publicIP i (dp_AllowPrivate d)) ips"
    and "we_Lookup (de_wire D) host w2 = (Inr (i # rest), w3)"
  shows "i \<in> set (snd (snd (guarded_Dispatch L D client now recAt url secret e d (w, tried))))"
proof (rule dispatch_first_dial [OF assms(1,5,2,3)])
  let ?N = "de_wire D" and ?gc = "guardedClient client (dp_AllowPrivate d)"
  fix req :: http_request
  assume url: "rq_URL req = url"
  have gc: "gc_Transport ?gc = GuardedDial" "gc_AllowPrivate ?gc = dp_AllowPrivate d"
    using assms(4) by (cases client; auto simp: guardedClient_def Let_def split: client_transport.split)+
  have "DialContext (env_at ?N w1) (dp_AllowPrivate d) (we_Addr ?N url) = None"
    using assms(6-9) by (auto simp: DialContext_def env_at_def list_all_iff)
  then have "i \<in> set (snd (snd (guarded_dial ?N (dp_AllowPrivate d) (we_Addr ?N url) (w1, tried))))"
    using assms(6,7,10) try_connect_first [of i ?N None rest "(w3, tried)"] by (simp add: guarded_dial_def net_dial_def)
  then show "i \<in> set (snd (snd (round_trip ?N ?gc req (w1, tried))))"
    using gc url by (auto simp: round_trip_def case_prod_beta Let_def split: sum.split prod.split)
qed

theorem dns_rebinding_passes_the_guard_witness:
  "[127, 0, 0, 1] \<in> set (snd (snd (guarded_Dispatch plain_lib (one_host_env (\<lambda>n. if n < 2 then [8, 8, 8, 8] else [127, 0, 0, 1])) None 1 2
     ''https://h'' ''k'' sample_event NewDispatcher (0, [])))) \<and> \<not> publicIP [127, 0, 0, 1] (dp_AllowPrivate NewDispatcher)"
proof -
  let ?a = "\<lambda>n :: nat. if n < 2 then [8, 8, 8, 8] else [127, 0, 0, 1] :: ip"
  have "validate_at (de_wire (one_host_env ?a)) (dp_AllowPrivate NewDispatcher) ''https://h'' 0 = (None, 1)"
    using one_host_validates [of ?a 0] google_dns_public by (simp add: one_host_env_def NewDispatcher_def)
  from dns_rebinding_passes_the_guard [OF _ _ _ _ this, where body = "''{}''" and host = "''h''" and ips = "[[8, 8, 8, 8]]" and i = "[127, 0, 0, 1]"
      and rest = "[]" and ?w2.0 = 2 and ?w3.0 = 3 and client = None and e = sample_event]
  show ?thesis using google_dns_public loopback_not_public by (simp add: one_host_env_def one_host_def NewDispatcher_def)
qed

end
