(* ===== verification/Vehicle_State.thy ===== *)
theory Vehicle_State
  imports Events "HOL-Library.Multiset" "HOL-Library.List_Lexorder" "HOL-Library.Char_ord"
begin

section \<open>The state engine (internal/state)\<close>

text \<open>
  What the system currently believes of a vehicle: \<open>classifyMotion\<close> with its hysteresis band,
  \<open>Apply\<close> folding one point into the state, \<open>CheckOffline\<close> with the per-device cadence, the hot
  state store and \<open>RebuildFrom\<close>. The wall clock is an argument wherever the source reads
  \<open>time.Now\<close>; the iteration order of a Go map is an argument \<open>ord\<close> that enumerates its keys. The
  store is used through the interface \<open>state_store\<close>, a locale that \<open>MemoryStore\<close> interprets.
\<close>

datatype motion = MotionNone | MotionUnknown | MotionMoving | MotionIdle | MotionStopped
datatype presence = PresenceNone | PresenceOnline | PresenceOffline

definition motion_string :: "motion \<Rightarrow> string" where
  "motion_string m =
     (case m of MotionNone \<Rightarrow> [] | MotionUnknown \<Rightarrow> ''unknown'' | MotionMoving \<Rightarrow> ''moving''
      | MotionIdle \<Rightarrow> ''idle'' | MotionStopped \<Rightarrow> ''stopped'')"

definition MovingThresholdKmh :: float64 where "MovingThresholdKmh = Fin 5"
definition StoppedThresholdKmh :: float64 where "StoppedThresholdKmh = Fin 3"
definition DefaultCadenceSecs :: int where "DefaultCadenceSecs = 300"
definition OfflineMultiplier :: int where "OfflineMultiplier = 3"

record vehicle_state =
  vs_TenantID :: string
  vs_VehicleID :: string
  vs_Motion :: motion
  vs_Presence :: presence
  vs_Ignition :: "bool option"
  vs_SpeedKmh :: "float64 option"
  vs_Lat :: float64
  vs_Lng :: float64
  vs_LastSeen :: time
  vs_TripID :: string
  vs_Geofences :: "string list"
  vs_UpdatedAt :: time

definition zero_vehicle_state :: vehicle_state where
  "zero_vehicle_state =
     \<lparr>vs_TenantID = [], vs_VehicleID = [], vs_Motion = MotionNone, vs_Presence = PresenceNone,
      vs_Ignition = None, vs_SpeedKmh = None, vs_Lat = Fin 0, vs_Lng = Fin 0, vs_LastSeen = 0,
      vs_TripID = [], vs_Geofences = [], vs_UpdatedAt = 0\<rparr>"

record transition =
  tr_Dimension :: string
  tr_From :: string
  tr_To :: string
  tr_At :: time

subsection \<open>Operations\<close>

definition classifyMotion :: "motion \<Rightarrow> telemetry \<Rightarrow> motion" where
  "classifyMotion prev t =
     (case tel_SpeedKmh t of
        None \<Rightarrow> if prev = MotionNone then MotionUnknown else prev
      | Some s \<Rightarrow>
          if prev = MotionMoving \<and> fle StoppedThresholdKmh s then MotionMoving
          else if flt MovingThresholdKmh s then MotionMoving
          else if flt s StoppedThresholdKmh then
            (if tel_Ignition t = Some True then MotionIdle else MotionStopped)
          else
            (case tel_Ignition t of
               Some ign \<Rightarrow> if ign then MotionIdle else MotionStopped
             | None \<Rightarrow> if prev = MotionNone then MotionUnknown else prev))"

definition ignition_string :: "bool option \<Rightarrow> string" where
  "ignition_string i = (case i of None \<Rightarrow> [] | Some True \<Rightarrow> ''on'' | Some False \<Rightarrow> ''off'')"

definition is_late :: "vehicle_state \<Rightarrow> telemetry \<Rightarrow> bool" where
  "is_late prev t \<longleftrightarrow> \<not> IsZero (vs_LastSeen prev) \<and> tel_Timestamp t < vs_LastSeen prev"

text \<open>\<open>Engine.Apply\<close>; \<open>now\<close> is the reading of the wall clock it stores in \<open>UpdatedAt\<close>.\<close>

definition Apply :: "time \<Rightarrow> vehicle_state \<Rightarrow> telemetry \<Rightarrow> vehicle_state \<times> transition list" where
  "Apply now prev t =
     (let next = prev;
          next = (if vs_Motion next = MotionNone then next\<lparr>vs_Motion := MotionUnknown\<rparr> else next);
          next = (if vs_Presence next = PresenceNone then next\<lparr>vs_Presence := PresenceOnline\<rparr> else next);
          next = next\<lparr>vs_TenantID := tel_TenantID t, vs_VehicleID := tel_VehicleID t\<rparr>
      in if is_late prev t then (next\<lparr>vs_UpdatedAt := now\<rparr>, [])
      else
        let m = classifyMotion (vs_Motion prev) t;
            out_m = (if m \<noteq> vs_Motion prev
                     then [\<lparr>tr_Dimension = ''motion'', tr_From = motion_string (vs_Motion prev),
                            tr_To = motion_string m, tr_At = tel_Timestamp t\<rparr>]
                     else []);
            next = (if m \<noteq> vs_Motion prev then next\<lparr>vs_Motion := m\<rparr> else next);
            next = next\<lparr>vs_Lat := loc_Lat (tel_Location t), vs_Lng := loc_Lng (tel_Location t),
                        vs_SpeedKmh := tel_SpeedKmh t\<rparr>;
            out_i = (if tel_Ignition t \<noteq> None
                        \<and> ignition_string (vs_Ignition prev) \<noteq> ignition_string (tel_Ignition t)
                     then [\<lparr>tr_Dimension = ''ignition'', tr_From = ignition_string (vs_Ignition prev),
                            tr_To = ignition_string (tel_Ignition t), tr_At = tel_Timestamp t\<rparr>]
                     else []);
            next = (if tel_Ignition t \<noteq> None then next\<lparr>vs_Ignition := tel_Ignition t\<rparr> else next);
            next = next\<lparr>vs_LastSeen := tel_Timestamp t\<rparr>;
            out_p = (if vs_Presence prev = PresenceOffline
                     then [\<lparr>tr_Dimension = ''presence'', tr_From = ''offline'', tr_To = ''online'',
                            tr_At = tel_Timestamp t\<rparr>]
                     else []);
            next = next\<lparr>vs_Presence := PresenceOnline\<rparr>
        in (next\<lparr>vs_UpdatedAt := now\<rparr>, out_m @ out_i @ out_p))"

definition CheckOffline :: "vehicle_state \<Rightarrow> int \<Rightarrow> time \<Rightarrow> vehicle_state \<times> transition option" where
  "CheckOffline s cadenceSecs now =
     (let cadence = (if cadenceSecs \<le> 0 then DefaultCadenceSecs else cadenceSecs)
      in if IsZero (vs_LastSeen s) \<or> vs_Presence s = PresenceOffline then (s, None)
      else
        let limit = wrap64 (wrap64 (cadence * OfflineMultiplier) * Second)
        in if time_Sub now (vs_LastSeen s) > limit
           then (s\<lparr>vs_Presence := PresenceOffline\<rparr>,
                 Some \<lparr>tr_Dimension = ''presence'', tr_From = ''online'', tr_To = ''offline'', tr_At = now\<rparr>)
           else (s, None))"

subsection \<open>The hot state store\<close>

type_synonym memory_store = "string \<rightharpoonup> vehicle_state"

definition NewMemoryStore :: memory_store where
  "NewMemoryStore = Map.empty"

definition MemoryStore_Get :: "string \<Rightarrow> memory_store \<Rightarrow> (vehicle_state \<times> bool) \<times> go_error option" where
  "MemoryStore_Get vehicleID m =
     ((case m vehicleID of Some v \<Rightarrow> (v, True) | None \<Rightarrow> (zero_vehicle_state, False)), None)"

definition MemoryStore_Set :: "vehicle_state \<Rightarrow> memory_store \<Rightarrow> go_error option \<times> memory_store" where
  "MemoryStore_Set v m = (None, m(vs_VehicleID v \<mapsto> v))"

definition MemoryStore_ListIDs :: "(string set \<Rightarrow> string list) \<Rightarrow> memory_store \<Rightarrow> string list" where
  "MemoryStore_ListIDs ord m = ord (dom m)"

subsection \<open>RebuildFrom\<close>

text \<open>
  The in-place insertion sort of one vehicle's points: the inner loop swaps a point down while it is
  earlier than its predecessor.
\<close>

fun sift :: "telemetry list \<Rightarrow> nat \<Rightarrow> telemetry list" where
  "sift points 0 = points"
| "sift points (Suc j) =
     (if tel_Timestamp (points ! Suc j) < tel_Timestamp (points ! j)
      then sift (points[Suc j := points ! j, j := points ! Suc j]) j else points)"

function sift_all :: "nat \<Rightarrow> nat \<Rightarrow> telemetry list \<Rightarrow> telemetry list" where
  "sift_all n i points = (if i < n then sift_all n (Suc i) (sift points i) else points)"
  by pat_completeness auto
termination
  by (relation "measure (\<lambda>(n, i, _). n - i)") auto

declare sift_all.simps [simp del]

definition rebuild_one :: "(telemetry \<Rightarrow> time) \<Rightarrow> string \<Rightarrow> telemetry list \<Rightarrow> vehicle_state" where
  "rebuild_one clk vid points =
     (foldl (\<lambda>cur p. fst (Apply (clk p) cur p)) zero_vehicle_state (sift_all (length points) 1 points))
       \<lparr>vs_VehicleID := vid\<rparr>"

fun rebuild_loop ::
  "(telemetry \<Rightarrow> time) \<Rightarrow> (vehicle_state \<Rightarrow> 's \<Rightarrow> go_error option \<times> 's) \<Rightarrow> telemetry list \<Rightarrow> string list
    \<Rightarrow> 's \<Rightarrow> go_error option \<times> 's" where
  "rebuild_loop clk set_op tlog [] store = (None, store)"
| "rebuild_loop clk set_op tlog (vid # vids) store =
     (case set_op (rebuild_one clk vid (filter (\<lambda>t. tel_VehicleID t = vid) tlog)) store of
        (Some err, store') \<Rightarrow> (Some err, store')
      | (None, store') \<Rightarrow> rebuild_loop clk set_op tlog vids store')"

text \<open>\<open>clk p\<close> is the reading of the wall clock while point \<open>p\<close> is applied.\<close>

definition RebuildFrom ::
  "(telemetry \<Rightarrow> time) \<Rightarrow> (string set \<Rightarrow> string list) \<Rightarrow> (vehicle_state \<Rightarrow> 's \<Rightarrow> go_error option \<times> 's)
    \<Rightarrow> 's \<Rightarrow> telemetry list \<Rightarrow> go_error option \<times> 's" where
  "RebuildFrom clk ord set_op store tlog =
     rebuild_loop clk set_op tlog (ord (tel_VehicleID ` set tlog)) store"

text \<open>The documented behaviour of ranging over a map: every key once, in some order.\<close>

definition enumerates :: "('k set \<Rightarrow> 'k list) \<Rightarrow> bool" where
  "enumerates ord \<longleftrightarrow> (\<forall>S. finite S \<longrightarrow> set (ord S) = S \<and> distinct (ord S))"

subsection \<open>Motion and hysteresis\<close>

lemma classifyMotion_not_None [simp]: "classifyMotion prev t \<noteq> MotionNone"
  by (auto simp: classifyMotion_def split: option.split)

lemma motion_string_inject [simp]: "motion_string m = motion_string n \<longleftrightarrow> m = n"
  by (cases m; cases n) (simp_all add: motion_string_def)

lemma ignition_string_inject [simp]: "ignition_string i = ignition_string j \<longleftrightarrow> i = j"
  by (cases i rule: option.exhaust; cases j rule: option.exhaust)
    (auto simp: ignition_string_def split: bool.splits)

text \<open>A moving vehicle stays moving down to 3 km/h; any other needs more than 5 km/h to move.\<close>

lemma classifyMotion_moving_iff:
  "classifyMotion prev t = MotionMoving \<longleftrightarrow>
     (case tel_SpeedKmh t of
        None \<Rightarrow> prev = MotionMoving
      | Some s \<Rightarrow> if prev = MotionMoving then \<not> flt s (Fin 3) \<and> (s = NaN \<longrightarrow> tel_Ignition t = None)
                  else flt (Fin 5) s)"
proof (cases "tel_SpeedKmh t")
  case None
  then show ?thesis by (simp add: classifyMotion_def)
next
  case (Some s)
  show ?thesis
  proof (cases s)
    case (Fin r)
    with Some show ?thesis
      by (auto simp: classifyMotion_def MovingThresholdKmh_def StoppedThresholdKmh_def split: option.splits)
  qed (use Some in \<open>auto simp: classifyMotion_def MovingThresholdKmh_def StoppedThresholdKmh_def fle_def
      split: option.splits\<close>)
qed

definition in_band :: "telemetry \<Rightarrow> bool" where
  "in_band t \<longleftrightarrow> (\<exists>s. tel_SpeedKmh t = Some s \<and> fle (Fin 3) s \<and> fle s (Fin 5))"

lemma classifyMotion_in_band:
  "in_band t \<Longrightarrow> classifyMotion prev t = MotionMoving \<longleftrightarrow> prev = MotionMoving"
  by (auto simp: classifyMotion_moving_iff in_band_def dest: flt_not_fle fle_not_NaN)

subsection \<open>One step of the engine\<close>

lemma Apply_late:
  assumes "is_late prev t"
  shows "snd (Apply now prev t) = []"
    and "vs_Motion prev \<noteq> MotionNone \<Longrightarrow> vs_Presence prev \<noteq> PresenceNone \<Longrightarrow>
      fst (Apply now prev t) =
        prev\<lparr>vs_TenantID := tel_TenantID t, vs_VehicleID := tel_VehicleID t, vs_UpdatedAt := now\<rparr>"
  using assms by (simp_all add: Apply_def Let_def)

lemma Apply_Motion:
  "vs_Motion (fst (Apply now prev t)) =
     (if is_late prev t then (if vs_Motion prev = MotionNone then MotionUnknown else vs_Motion prev)
      else classifyMotion (vs_Motion prev) t)"
  using classifyMotion_not_None [of "vs_Motion prev" t]
  by (auto simp: Apply_def Let_def simp del: classifyMotion_not_None)

lemma Apply_LastSeen:
  "vs_LastSeen (fst (Apply now prev t)) =
     (if is_late prev t then vs_LastSeen prev else tel_Timestamp t)"
  by (simp add: Apply_def Let_def)

lemma Apply_VehicleID [simp]: "vs_VehicleID (fst (Apply now prev t)) = tel_VehicleID t"
  by (simp add: Apply_def Let_def)

lemma Apply_TenantID [simp]: "vs_TenantID (fst (Apply now prev t)) = tel_TenantID t"
  by (simp add: Apply_def Let_def)

lemma Apply_UpdatedAt [simp]: "vs_UpdatedAt (fst (Apply now prev t)) = now"
  by (simp add: Apply_def Let_def)

lemma Apply_not_None [simp]:
  "vs_Motion (fst (Apply now prev t)) \<noteq> MotionNone" "vs_Presence (fst (Apply now prev t)) \<noteq> PresenceNone"
  by (simp add: Apply_Motion) (simp add: Apply_def Let_def)

lemma Apply_fresh_Presence:
  "\<not> is_late prev t \<Longrightarrow> vs_Presence (fst (Apply now prev t)) = PresenceOnline"
  by (simp add: Apply_def Let_def)

lemma Apply_now: "fst (Apply now prev t) = (fst (Apply now' prev t))\<lparr>vs_UpdatedAt := now\<rparr>"
  by (simp add: Apply_def Let_def)

lemma Apply_prev_UpdatedAt: "Apply now (prev\<lparr>vs_UpdatedAt := u\<rparr>) t = Apply now prev t"
  by (simp add: Apply_def Let_def is_late_def)

text \<open>Every transition is a change, carries the time of its point, and there is one per dimension.\<close>

lemma Apply_transitions:
  assumes "Apply now prev t = (next, out)"
  shows "\<forall>tr \<in> set out. tr_From tr \<noteq> tr_To tr \<and> tr_At tr = tel_Timestamp t"
    and "distinct (map tr_Dimension out)"
    and "(\<exists>tr \<in> set out. tr_Dimension tr = ''motion'') \<longleftrightarrow>
           \<not> is_late prev t \<and> vs_Motion next \<noteq> vs_Motion prev"
  using assms Apply_Motion [of now prev t] classifyMotion_not_None [of "vs_Motion prev" t]
  by (auto simp: Apply_def Let_def simp del: classifyMotion_not_None split: if_splits)

subsection \<open>Runs of the engine\<close>

abbreviation Apply_all :: "(telemetry \<Rightarrow> time) \<Rightarrow> vehicle_state \<Rightarrow> telemetry list \<Rightarrow> vehicle_state" where
  "Apply_all clk \<equiv> foldl (\<lambda>cur p. fst (Apply (clk p) cur p))"

lemma Apply_all_LastSeen:
  assumes "pts \<noteq> []" and "\<forall>p \<in> set pts. tel_Timestamp p \<noteq> 0"
  shows "vs_LastSeen (Apply_all clk zero_vehicle_state pts) = Max (tel_Timestamp ` set pts)"
  using assms
proof (induction pts rule: rev_induct)
  case Nil
  then show ?case by simp
next
  case (snoc p pts)
  show ?case
  proof (cases "pts = []")
    case True
    then show ?thesis by (simp add: Apply_LastSeen is_late_def zero_vehicle_state_def IsZero_def)
  next
    case False
    let ?s = "Apply_all clk zero_vehicle_state pts"
    have IH: "vs_LastSeen ?s = Max (tel_Timestamp ` set pts)"
      using snoc False by simp
    then have "vs_LastSeen ?s \<in> tel_Timestamp ` set pts"
      using False Max_in [of "tel_Timestamp ` set pts"] by simp
    then have "vs_LastSeen ?s \<noteq> 0" using snoc.prems(2) by auto
    then have "vs_LastSeen (Apply_all clk zero_vehicle_state (pts @ [p])) = max (tel_Timestamp p) (vs_LastSeen ?s)"
      by (auto simp: Apply_LastSeen is_late_def IsZero_def)
    also have "\<dots> = Max (tel_Timestamp ` set (pts @ [p]))"
      using False by (simp add: IH)
    finally show ?thesis .
  qed
qed

text \<open>Points whose speed stays in the hysteresis band never change whether a vehicle moves.\<close>

lemma Apply_all_in_band:
  "\<forall>p \<in> set pts. in_band p \<Longrightarrow> vs_Motion s \<noteq> MotionNone \<Longrightarrow>
   vs_Motion (Apply_all clk s pts) = MotionMoving \<longleftrightarrow> vs_Motion s = MotionMoving"
  by (induction pts arbitrary: s) (auto simp: Apply_Motion classifyMotion_in_band)

subsection \<open>Offline detection\<close>

definition cadence_of :: "int \<Rightarrow> int" where
  "cadence_of c = (if c \<le> 0 then DefaultCadenceSecs else c)"

lemma CheckOffline_cases:
  assumes "cadence_of c \<le> 3074457345"
  shows "CheckOffline s c now =
     (if vs_LastSeen s \<noteq> 0 \<and> vs_Presence s \<noteq> PresenceOffline
         \<and> 3 * cadence_of c * Second < now - vs_LastSeen s
      then (s\<lparr>vs_Presence := PresenceOffline\<rparr>,
            Some \<lparr>tr_Dimension = ''presence'', tr_From = ''online'', tr_To = ''offline'', tr_At = now\<rparr>)
      else (s, None))"
proof -
  let ?c = "cadence_of c"
  have c: "0 < ?c" by (simp add: cadence_of_def DefaultCadenceSecs_def)
  have w: "wrap64 (?c * OfflineMultiplier) = 3 * ?c"
    using c assms by (subst wrap64_id) (simp_all add: in_int64_def OfflineMultiplier_def)
  have w2: "wrap64 (3 * ?c * Second) = 3 * ?c * Second"
    using c assms by (intro wrap64_id) (simp add: in_int64_def)
  have lt: "3 * ?c * Second < time_Sub now (vs_LastSeen s) \<longleftrightarrow> 3 * ?c * Second < now - vs_LastSeen s"
    using c assms by (intro time_Sub_gt_iff) simp_all
  show ?thesis
    unfolding CheckOffline_def Let_def cadence_of_def [symmetric] w w2 IsZero_def using lt by auto
qed

subsection \<open>The insertion sort of RebuildFrom is a stable sort\<close>

fun insert_back :: "telemetry \<Rightarrow> telemetry list \<Rightarrow> telemetry list" where
  "insert_back x [] = [x]"
| "insert_back x (y # ys) =
     (if tel_Timestamp x < tel_Timestamp y then y # insert_back x ys else x # y # ys)"

lemma length_sift [simp]: "length (sift ps j) = length ps"
  by (induction ps j rule: sift.induct) auto

lemma sift_eq:
  "j < length ps \<Longrightarrow> sift ps j = rev (insert_back (ps ! j) (rev (take j ps))) @ drop (Suc j) ps"
proof (induction ps j rule: sift.induct)
  case (1 ps)
  then show ?case by (cases ps) auto
next
  case (2 ps j)
  let ?ps = "ps[Suc j := ps ! j, j := ps ! Suc j]"
  have take: "take (Suc j) ps = take j ps @ [ps ! j]"
    using "2.prems" by (simp add: take_Suc_conv_app_nth)
  show ?case
  proof (cases "tel_Timestamp (ps ! Suc j) < tel_Timestamp (ps ! j)")
    case True
    have "sift ps (Suc j) = rev (insert_back (?ps ! j) (rev (take j ?ps))) @ drop (Suc j) ?ps"
      using "2.IH" [OF True] "2.prems" True by simp
    moreover have "drop (Suc j) ?ps = ps ! j # drop (Suc (Suc j)) ps"
      using "2.prems" by (simp add: drop_update_swap drop_update_cancel Cons_nth_drop_Suc [symmetric])
    ultimately show ?thesis
      using True "2.prems" by (simp add: take)
  next
    case False
    then show ?thesis
      using "2.prems" by (simp add: take) (metis append_take_drop_id Cons_nth_drop_Suc Suc_lessD take
          append_Cons append_Nil append_assoc)
  qed
qed

lemma mset_insert_back: "mset (insert_back x xs) = add_mset x (mset xs)"
  by (induction xs) auto

lemma filter_insert_back:
  "filter (\<lambda>y. k = tel_Timestamp y) (rev (insert_back x xs)) = filter (\<lambda>y. k = tel_Timestamp y) (rev xs @ [x])"
  by (induction xs) auto

lemma sorted_insert_back:
  "sorted (map tel_Timestamp (rev xs)) \<Longrightarrow> sorted (map tel_Timestamp (rev (insert_back x xs)))"
proof (induction xs)
  case Nil
  then show ?case by simp
next
  case (Cons y ys)
  have "set (insert_back x ys) = insert x (set ys)"
    using mset_insert_back [of x ys] by (metis set_mset_add_mset_insert set_mset_mset)
  with Cons show ?case by (auto simp: sorted_append)
qed

lemma mset_sift: "j < length ps \<Longrightarrow> mset (sift ps j) = mset ps"
proof -
  assume j: "j < length ps"
  then have "mset (sift ps j) = mset (take j ps @ ps ! j # drop (Suc j) ps)"
    by (simp add: sift_eq mset_insert_back)
  also have "take j ps @ ps ! j # drop (Suc j) ps = ps"
    using j by (rule id_take_nth_drop [symmetric])
  finally show ?thesis .
qed

lemma filter_sift:
  "j < length ps \<Longrightarrow> filter (\<lambda>y. k = tel_Timestamp y) (sift ps j) = filter (\<lambda>y. k = tel_Timestamp y) ps"
proof -
  assume j: "j < length ps"
  then have "filter (\<lambda>y. k = tel_Timestamp y) (sift ps j) =
      filter (\<lambda>y. k = tel_Timestamp y) (take j ps @ ps ! j # drop (Suc j) ps)"
    using filter_insert_back [of k "ps ! j" "rev (take j ps)"] by (simp add: sift_eq)
  also have "take j ps @ ps ! j # drop (Suc j) ps = ps"
    using j by (rule id_take_nth_drop [symmetric])
  finally show ?thesis .
qed

lemma sorted_sift:
  assumes "j < length ps" "sorted (map tel_Timestamp (take j ps))"
  shows "sorted (map tel_Timestamp (take (Suc j) (sift ps j)))"
proof -
  have "length (rev (insert_back (ps ! j) (rev (take j ps)))) = Suc j"
    using assms(1) mset_insert_back [of "ps ! j" "rev (take j ps)"]
    by (metis length_rev length_take less_imp_le min.absorb2 size_add_mset size_mset)
  then have "take (Suc j) (sift ps j) = rev (insert_back (ps ! j) (rev (take j ps)))"
    using assms(1) by (simp add: sift_eq)
  then show ?thesis
    using sorted_insert_back [of "rev (take j ps)" "ps ! j"] assms(2) by simp
qed

lemma sift_all_sorts:
  assumes "n = length ps" "i \<le> n" "sorted (map tel_Timestamp (take i ps))"
  shows "mset (sift_all n i ps) = mset ps \<and> sorted (map tel_Timestamp (sift_all n i ps))
    \<and> (\<forall>k. filter (\<lambda>y. k = tel_Timestamp y) (sift_all n i ps) = filter (\<lambda>y. k = tel_Timestamp y) ps)"
  using assms
proof (induction n i ps rule: sift_all.induct)
  case (1 n i ps)
  show ?case
  proof (cases "i < n")
    case True
    with "1.prems" have "sorted (map tel_Timestamp (take (Suc i) (sift ps i)))"
      by (intro sorted_sift) auto
    moreover have step: "sift_all n i ps = sift_all n (Suc i) (sift ps i)"
      using True by (subst sift_all.simps) simp
    ultimately show ?thesis
      using "1.IH" [OF True] "1.prems" True unfolding step by (simp add: mset_sift filter_sift)
  next
    case False
    then have "sift_all n i ps = ps" by (subst sift_all.simps) simp
    with False "1.prems" show ?thesis by simp
  qed
qed

theorem sift_all_sort_key: "sift_all (length ps) 1 ps = sort_key tel_Timestamp ps"
proof (cases ps)
  case Nil
  then show ?thesis by (simp add: sift_all.simps)
next
  case (Cons p qs)
  have "mset (sift_all (length ps) 1 ps) = mset ps \<and> sorted (map tel_Timestamp (sift_all (length ps) 1 ps))
      \<and> (\<forall>k. filter (\<lambda>y. k = tel_Timestamp y) (sift_all (length ps) 1 ps) = filter (\<lambda>y. k = tel_Timestamp y) ps)"
    by (rule sift_all_sorts) (simp_all add: Cons)
  then show ?thesis by (intro properties_for_sort_key [symmetric]) auto
qed

lemma rebuild_one_sort:
  "rebuild_one clk vid pts =
     (Apply_all clk zero_vehicle_state (sort_key tel_Timestamp pts))\<lparr>vs_VehicleID := vid\<rparr>"
  by (simp add: rebuild_one_def sift_all_sort_key del: One_nat_def)

subsection \<open>Stores\<close>

text \<open>The contract of \<open>state.Store\<close> for a reachable back end: a write succeeds and is read back.\<close>

locale state_store =
  fixes get_op :: "string \<Rightarrow> 's \<Rightarrow> (vehicle_state \<times> bool) \<times> go_error option"
    and set_op :: "vehicle_state \<Rightarrow> 's \<Rightarrow> go_error option \<times> 's"
  assumes set_ok: "fst (set_op v s) = None"
    and get_set: "get_op vid (snd (set_op v s)) =
      (if vid = vs_VehicleID v then ((v, True), None) else get_op vid s)"
begin

lemma rebuild_loop_ok: "fst (rebuild_loop clk set_op tlog vids store) = None"
proof (induction vids arbitrary: store)
  case (Cons vid vids)
  then show ?case
    using set_ok [of "rebuild_one clk vid (filter (\<lambda>t. tel_VehicleID t = vid) tlog)" store]
    by (auto split: prod.split)
qed simp

lemma rebuild_loop_get:
  "get_op v (snd (rebuild_loop clk set_op tlog vids store)) =
     (if v \<in> set vids
      then ((rebuild_one clk v (filter (\<lambda>t. tel_VehicleID t = v) tlog), True), None) else get_op v store)"
proof (induction vids arbitrary: store)
  case (Cons vid vids)
  let ?v = "rebuild_one clk vid (filter (\<lambda>t. tel_VehicleID t = vid) tlog)"
  obtain store' where st: "set_op ?v store = (None, store')"
    using set_ok [of ?v store] by (metis prod.collapse)
  have "get_op u store' = (if u = vid then ((?v, True), None) else get_op u store)" for u
    using get_set [of u ?v store] st by (simp add: rebuild_one_def)
  then show ?case using Cons.IH [of store'] st by auto
qed simp

lemma RebuildFrom_get:
  assumes "enumerates ord"
  shows "fst (RebuildFrom clk ord set_op store tlog) = None"
    and "get_op v (snd (RebuildFrom clk ord set_op store tlog)) =
      (if v \<in> tel_VehicleID ` set tlog
       then ((rebuild_one clk v (filter (\<lambda>t. tel_VehicleID t = v) tlog), True), None) else get_op v store)"
  using assms by (auto simp: RebuildFrom_def rebuild_loop_ok rebuild_loop_get enumerates_def)

end

interpretation mem_state: state_store MemoryStore_Get MemoryStore_Set
  by unfold_locales (auto simp: MemoryStore_Get_def MemoryStore_Set_def)

lemma MemoryStore_Get_eqD:
  "MemoryStore_Get v m = ((s, True), None) \<Longrightarrow> m v = Some s"
  by (auto simp: MemoryStore_Get_def split: option.splits)

text \<open>The store rebuilt from a log, vehicle by vehicle.\<close>

lemma RebuildFrom_memory:
  assumes "enumerates ord"
  shows "RebuildFrom clk ord MemoryStore_Set m tlog =
    (None, \<lambda>v. if v \<in> tel_VehicleID ` set tlog
        then Some (rebuild_one clk v (filter (\<lambda>t. tel_VehicleID t = v) tlog)) else m v)"
proof -
  let ?r = "RebuildFrom clk ord MemoryStore_Set m tlog"
  have "snd ?r v = (if v \<in> tel_VehicleID ` set tlog
      then Some (rebuild_one clk v (filter (\<lambda>t. tel_VehicleID t = v) tlog)) else m v)" for v
    using mem_state.RebuildFrom_get(2) [OF assms, of v clk m tlog]
    by (auto simp: MemoryStore_Get_def split: if_splits option.splits)
  moreover have "fst ?r = None" by (rule mem_state.RebuildFrom_get(1) [OF assms])
  ultimately show ?thesis by (simp add: prod_eq_iff fun_eq_iff)
qed

lemma enumerates_sorted: "enumerates (sorted_list_of_set :: string set \<Rightarrow> string list)"
  by (simp add: enumerates_def)

lemma Apply_all_last:
  assumes "pts \<noteq> []"
  shows "vs_VehicleID (Apply_all clk s pts) = tel_VehicleID (last pts)"
    and "vs_TenantID (Apply_all clk s pts) = tel_TenantID (last pts)"
    and "vs_Motion (Apply_all clk s pts) \<noteq> MotionNone"
    and "vs_Presence (Apply_all clk s pts) \<noteq> PresenceNone"
  using assms by (induction pts rule: rev_induct) auto

lemma rebuild_one_perm:
  assumes "mset l = mset l'" and "inj_on tel_Timestamp (set l)"
  shows "rebuild_one clk v l = rebuild_one clk v l'"
proof -
  have "sort_key tel_Timestamp l = sort_key tel_Timestamp l'"
    using assms by (intro sort_key_inj_key_eq) simp_all
  then show ?thesis by (simp add: rebuild_one_sort)
qed

subsection \<open>Properties\<close>

text \<open>Late data never corrupts hot state. In a state reached from the empty one by points of one
  vehicle, a point of that vehicle older than the watermark changes no field but \<open>UpdatedAt\<close> and emits
  no transition.\<close>

lemma late_point_changes_nothing:
  assumes "pts \<noteq> []" and "\<forall>p \<in> set (t # pts). tel_VehicleID p = v \<and> tel_TenantID p = x"
    and "prev = Apply_all clk zero_vehicle_state pts" and "tel_Timestamp t < vs_LastSeen prev"
    and "vs_LastSeen prev \<noteq> 0"
  shows "Apply now prev t = (prev\<lparr>vs_UpdatedAt := now\<rparr>, [])"
proof -
  have late: "is_late prev t" using assms(4,5) by (simp add: is_late_def IsZero_def)
  have "tel_VehicleID (last pts) = v" "tel_TenantID (last pts) = x"
    using assms(1,2) by auto
  then have ids: "vs_VehicleID prev = tel_VehicleID t" "vs_TenantID prev = tel_TenantID t"
    using Apply_all_last(1,2) [OF assms(1)] assms(2,3) by simp_all
  have "fst (Apply now prev t) =
      prev\<lparr>vs_TenantID := tel_TenantID t, vs_VehicleID := tel_VehicleID t, vs_UpdatedAt := now\<rparr>"
    using Apply_late(2) [OF late] Apply_all_last(3,4) [OF assms(1)] assms(3) by simp
  also have "\<dots> = prev\<lparr>vs_UpdatedAt := now\<rparr>" by (simp add: ids [symmetric])
  finally show ?thesis
    using Apply_late(1) [OF late, of now] by (simp add: prod_eq_iff)
qed

lemma late_point_changes_nothing_example:
  "Apply 9 (fst (Apply 7 zero_vehicle_state (point_at ''v'' 5 None None None)))
       (point_at ''v'' 3 (Some (Fin 80)) None None) =
     ((fst (Apply 7 zero_vehicle_state (point_at ''v'' 5 None None None)))\<lparr>vs_UpdatedAt := 9\<rparr>, [])"
  by (rule late_point_changes_nothing [where pts = "[point_at ''v'' 5 None None None]" and v = "''v''"
        and x = "''t''" and clk = "\<lambda>_. 7"])
    (simp_all add: Apply_LastSeen is_late_def point_at_simps zero_vehicle_state_def IsZero_def)

text \<open>The watermark is the newest event time. After any arrival order of points with set timestamps,
  \<open>LastSeen\<close> is the maximum of their timestamps.\<close>

lemma watermark_is_newest_event_time:
  assumes "pts \<noteq> []" and "\<forall>p \<in> set pts. tel_Timestamp p \<noteq> 0"
  shows "vs_LastSeen (Apply_all clk zero_vehicle_state pts) = Max (tel_Timestamp ` set pts)"
  by (rule Apply_all_LastSeen [OF assms])

lemma watermark_is_newest_event_time_example:
  "vs_LastSeen (Apply_all (\<lambda>_. 0) zero_vehicle_state
     [point_at ''v'' 7 None None None, point_at ''v'' 4 None None None]) = 7"
  using watermark_is_newest_event_time [of "[point_at ''v'' 7 None None None, point_at ''v'' 4 None None None]"
      "\<lambda>_. 0"]
  by (simp add: point_at_simps)

text \<open>Transitions are changes. Every transition \<open>Apply\<close> returns goes between two different values
  at the event time of the point, no dimension occurs twice, and the motion dimension occurs exactly when
  the stored motion changes by a point that is not late.\<close>

lemma transitions_are_changes:
  assumes "Apply now prev t = (next, out)"
  shows "(\<forall>tr \<in> set out. tr_From tr \<noteq> tr_To tr \<and> tr_At tr = tel_Timestamp t)
    \<and> distinct (map tr_Dimension out)
    \<and> ((\<exists>tr \<in> set out. tr_Dimension tr = ''motion'') \<longleftrightarrow> \<not> is_late prev t \<and> vs_Motion next \<noteq> vs_Motion prev)"
  using Apply_transitions [OF assms] by blast

lemma transitions_are_changes_example:
  "\<exists>nx out. Apply 1 zero_vehicle_state (point_at ''v'' 5 (Some (Fin 80)) None None) = (nx, out)
     \<and> distinct (map tr_Dimension out) \<and> out \<noteq> []"
proof -
  obtain nx out where a: "Apply 1 zero_vehicle_state (point_at ''v'' 5 (Some (Fin 80)) None None) = (nx, out)"
    by fastforce
  have "\<not> is_late zero_vehicle_state (point_at ''v'' 5 (Some (Fin 80)) None None)"
    by (simp add: is_late_def zero_vehicle_state_def IsZero_def)
  moreover have "vs_Motion nx \<noteq> vs_Motion zero_vehicle_state"
    using Apply_not_None(1) [of 1 zero_vehicle_state] a by (metis fst_conv zero_vehicle_state_def vehicle_state.select_convs(3))
  ultimately show ?thesis using transitions_are_changes [OF a] a by force
qed

text \<open>The hysteresis band does not flap. Over any run of points with speeds between 3 and 5 km/h a
  vehicle is moving at the end exactly when it was moving at the start.\<close>

lemma hysteresis_band_does_not_flap:
  assumes "\<forall>p \<in> set pts. in_band p" and "vs_Motion s \<noteq> MotionNone"
  shows "vs_Motion (Apply_all clk s pts) = MotionMoving \<longleftrightarrow> vs_Motion s = MotionMoving"
  by (rule Apply_all_in_band [OF assms])

lemma hysteresis_band_does_not_flap_example:
  "vs_Motion (Apply_all (\<lambda>_. 0) (zero_vehicle_state\<lparr>vs_Motion := MotionMoving\<rparr>)
     [point_at ''v'' 7 (Some (Fin 4)) (Some False) None, point_at ''v'' 8 (Some (Fin 3)) None None]) = MotionMoving"
  by (subst hysteresis_band_does_not_flap) (simp_all add: in_band_def point_at_simps)

text \<open>Offline detection uses the device's own cadence. Whenever three cadences fit an int64 number
  of nanoseconds, \<open>CheckOffline\<close> marks a seen, not yet offline vehicle offline exactly when it has been
  silent for more than three cadences (the default one when none is set), changes nothing otherwise, and
  a second sweep at any later time changes nothing more.\<close>

lemma offline_after_three_cadences:
  assumes "cadence_of c \<le> 3074457345"
  shows "CheckOffline s c now =
     (if vs_LastSeen s \<noteq> 0 \<and> vs_Presence s \<noteq> PresenceOffline
         \<and> 3 * cadence_of c * Second < now - vs_LastSeen s
      then (s\<lparr>vs_Presence := PresenceOffline\<rparr>,
            Some \<lparr>tr_Dimension = ''presence'', tr_From = ''online'', tr_To = ''offline'', tr_At = now\<rparr>)
      else (s, None))
    \<and> (snd (CheckOffline s c now) \<noteq> None \<longrightarrow>
        CheckOffline (fst (CheckOffline s c now)) c' now' = (fst (CheckOffline s c now), None))"
  by (simp add: CheckOffline_cases [OF assms]) (simp add: CheckOffline_def Let_def)

lemma offline_after_three_cadences_example:
  "CheckOffline (zero_vehicle_state\<lparr>vs_LastSeen := Second\<rparr>) 10 (32 * Second) =
     (zero_vehicle_state\<lparr>vs_LastSeen := Second, vs_Presence := PresenceOffline\<rparr>,
      Some \<lparr>tr_Dimension = ''presence'', tr_From = ''online'', tr_To = ''offline'', tr_At = 32 * Second\<rparr>)"
  using offline_after_three_cadences [of 10 "zero_vehicle_state\<lparr>vs_LastSeen := Second\<rparr>" "32 * Second"]
  by (simp add: cadence_of_def zero_vehicle_state_def)

text \<open>The hand-written insertion sort of \<open>RebuildFrom\<close> is the stable sort by event time.\<close>

lemma rebuild_sort_is_stable_sort: "sift_all (length ps) 1 ps = sort_key tel_Timestamp ps"
  by (rule sift_all_sort_key)



text \<open>The live state does depend on arrival order. Because late points are dropped while the
  hysteresis looks at the previous motion, the same two points leave the vehicle moving in event-time
  order and of unknown motion in the opposite order.\<close>

lemma live_state_depends_on_arrival_order:
  "vs_Motion (Apply_all clk zero_vehicle_state
       [point_at ''v'' 1 (Some (Fin 80)) None None, point_at ''v'' 2 (Some (Fin 4)) None None]) = MotionMoving
   \<and> vs_Motion (Apply_all clk zero_vehicle_state
       [point_at ''v'' 2 (Some (Fin 4)) None None, point_at ''v'' 1 (Some (Fin 80)) None None]) = MotionUnknown"
  by (simp add: Apply_Motion Apply_LastSeen is_late_def IsZero_def classifyMotion_def point_at_simps
      zero_vehicle_state_def MovingThresholdKmh_def StoppedThresholdKmh_def)

end
