(* ===== verification/Dedup.thy ===== *)
theory Dedup
  imports Vehicle_State
begin

section \<open>Duplicate suppression (internal/dedup)\<close>

text \<open>
  \<open>MemoryStore\<close> remembers when a key was first seen and forgets it after the dedup window; \<open>RedisStore\<close>
  delegates to the command SETNX with an expiry, which is an argument of its model. The locale
  \<open>dedup_store\<close> is the contract of the interface \<open>Store\<close>; its client lemma says that within one window a
  stream of keys is reduced to the first occurrence of every key.
\<close>

record dedup_memory =
  dm_seen :: "string \<rightharpoonup> time"
  dm_ttl :: duration

definition NewDedupStore :: "duration \<Rightarrow> dedup_memory" where
  "NewDedupStore ttl = \<lparr>dm_seen = Map.empty, dm_ttl = (if ttl = 0 then 24 * Hour else ttl)\<rparr>"

text \<open>\<open>Seen\<close> at the clock reading \<open>now\<close>: the flag, the error, and the store afterwards.\<close>

definition MemoryStore_Seen :: "time \<Rightarrow> string \<Rightarrow> dedup_memory \<Rightarrow> (bool \<times> go_error option) \<times> dedup_memory" where
  "MemoryStore_Seen now key m =
     (case dm_seen m key of
        Some ts \<Rightarrow> if time_Sub now ts < dm_ttl m then ((True, None), m)
                   else ((False, None), m\<lparr>dm_seen := (dm_seen m)(key \<mapsto> now)\<rparr>)
      | None \<Rightarrow> ((False, None), m\<lparr>dm_seen := (dm_seen m)(key \<mapsto> now)\<rparr>))"

definition RedisStore_Seen ::
  "(string \<Rightarrow> duration \<Rightarrow> 'r \<Rightarrow> (bool \<times> go_error option) \<times> 'r) \<Rightarrow> duration \<Rightarrow> string \<Rightarrow> 'r
    \<Rightarrow> (bool \<times> go_error option) \<times> 'r" where
  "RedisStore_Seen setnx ttl key r =
     (case setnx (''tide:dedup:'' @ key) ttl r of
        ((ok, Some err), r') \<Rightarrow> ((False, Some err), r')
      | ((ok, None), r') \<Rightarrow> ((\<not> ok, None), r'))"

subsection \<open>The contract\<close>

fun seen_run :: "(time \<Rightarrow> string \<Rightarrow> 'd \<Rightarrow> (bool \<times> go_error option) \<times> 'd) \<Rightarrow> (time \<times> string) list \<Rightarrow> 'd \<Rightarrow> string list" where
  "seen_run seen [] d = []"
| "seen_run seen ((now, key) # ks) d =
     (let ((dup, err), d') = seen now key d
      in if dup then seen_run seen ks d' else key # seen_run seen ks d')"

locale dedup_store =
  fixes seen :: "time \<Rightarrow> string \<Rightarrow> 'd \<Rightarrow> (bool \<times> go_error option) \<times> 'd"
    and recorded :: "'d \<Rightarrow> string \<rightharpoonup> time"
    and window :: "'d \<Rightarrow> duration"
    and inv :: "'d \<Rightarrow> bool"
  assumes seen_flag: "inv d \<Longrightarrow>
      fst (seen now key d) = ((\<exists>ts. recorded d key = Some ts \<and> now - ts < window d), None)"
    and seen_hit: "inv d \<Longrightarrow> fst (fst (seen now key d)) \<Longrightarrow> snd (seen now key d) = d"
    and seen_miss: "inv d \<Longrightarrow> \<not> fst (fst (seen now key d)) \<Longrightarrow>
      recorded (snd (seen now key d)) = (recorded d)(key \<mapsto> now)"
    and seen_window: "inv d \<Longrightarrow> window (snd (seen now key d)) = window d"
    and seen_inv: "inv d \<Longrightarrow> inv (snd (seen now key d))"
begin

text \<open>A key reported as fresh is a duplicate until the window has passed.\<close>

lemma seen_again:
  assumes "inv d" "\<not> fst (fst (seen now key d))" "now' - now < window d"
  shows "fst (seen now' key (snd (seen now key d))) = (True, None)"
  using assms by (simp add: seen_flag [of "snd (seen now key d)"] seen_inv seen_window seen_miss)

lemma seen_run_first_occurrences:
  assumes "inv d"
    and "\<forall>a \<in> fst ` set ks. \<forall>b \<in> fst ` set ks. b - a < window d"
    and "\<forall>k ts. recorded d k = Some ts \<longrightarrow> (\<forall>b \<in> fst ` set ks. b - ts < window d)"
  shows "distinct (seen_run seen ks d)
    \<and> set (seen_run seen ks d) = snd ` set ks - dom (recorded d)"
  using assms
proof (induction ks arbitrary: d)
  case Nil
  then show ?case by simp
next
  case (Cons nk ks)
  obtain now key where nk: "nk = (now, key)" by (cases nk)
  obtain dup err d' where s: "seen now key d = ((dup, err), d')" by (metis prod.collapse)
  have dup: "dup \<longleftrightarrow> key \<in> dom (recorded d)"
    using seen_flag [OF Cons.prems(1), of now key] Cons.prems(3) s nk by auto
  have inv': "inv d'" and w': "window d' = window d"
    using seen_inv [OF Cons.prems(1), of now key] seen_window [OF Cons.prems(1), of now key] s by auto
  show ?case
  proof (cases dup)
    case True
    then have "d' = d" using seen_hit [OF Cons.prems(1), of now key] s by simp
    moreover have "distinct (seen_run seen ks d) \<and> set (seen_run seen ks d) = snd ` set ks - dom (recorded d)"
      using Cons.prems by (intro Cons.IH) auto
    ultimately show ?thesis using True dup s nk by auto
  next
    case False
    then have r: "recorded d' = (recorded d)(key \<mapsto> now)"
      using seen_miss [OF Cons.prems(1), of now key] s by simp
    have "distinct (seen_run seen ks d') \<and> set (seen_run seen ks d') = snd ` set ks - dom (recorded d')"
      using Cons.prems(2,3) w' r nk by (intro Cons.IH [OF inv']) (auto split: if_splits)
    with False dup s nk r show ?thesis by auto
  qed
qed

end

definition dedup_inv :: "dedup_memory \<Rightarrow> bool" where
  "dedup_inv m \<longleftrightarrow> in_int64 (dm_ttl m) \<and> 0 < dm_ttl m"

interpretation mem_dedup: dedup_store MemoryStore_Seen dm_seen dm_ttl dedup_inv
proof
  fix d :: dedup_memory and now key
  assume inv: "dedup_inv d"
  have lt: "time_Sub now ts < dm_ttl d \<longleftrightarrow> now - ts < dm_ttl d" for ts
    using inv by (intro time_Sub_lt_iff) (auto simp: dedup_inv_def)
  show "fst (MemoryStore_Seen now key d) = ((\<exists>ts. dm_seen d key = Some ts \<and> now - ts < dm_ttl d), None)"
    by (simp add: MemoryStore_Seen_def lt split: option.split)
  show "fst (fst (MemoryStore_Seen now key d)) \<Longrightarrow> snd (MemoryStore_Seen now key d) = d"
    by (auto simp: MemoryStore_Seen_def split: option.splits if_splits)
  show "\<not> fst (fst (MemoryStore_Seen now key d)) \<Longrightarrow>
      dm_seen (snd (MemoryStore_Seen now key d)) = (dm_seen d)(key \<mapsto> now)"
    by (auto simp: MemoryStore_Seen_def split: option.splits if_splits)
  show "dm_ttl (snd (MemoryStore_Seen now key d)) = dm_ttl d"
    by (auto simp: MemoryStore_Seen_def split: option.splits)
  show "dedup_inv (snd (MemoryStore_Seen now key d))"
    using inv by (auto simp: MemoryStore_Seen_def dedup_inv_def split: option.splits)
qed

lemma dedup_inv_New: "in_int64 ttl \<Longrightarrow> 0 \<le> ttl \<Longrightarrow> dedup_inv (NewDedupStore ttl)"
  by (simp add: NewDedupStore_def dedup_inv_def in_int64_def)

subsection \<open>Properties\<close>

text \<open>Within one dedup window every key passes exactly once. Fed with any sequence of keys whose clock
  readings lie within one window, a new memory store reports as fresh a list without repetitions that
  contains every key of the sequence.\<close>

lemma every_key_passes_once:
  assumes "in_int64 ttl" "0 \<le> ttl"
    and "\<forall>a \<in> fst ` set ks. \<forall>b \<in> fst ` set ks. b - a < dm_ttl (NewDedupStore ttl)"
  shows "distinct (seen_run MemoryStore_Seen ks (NewDedupStore ttl))
    \<and> set (seen_run MemoryStore_Seen ks (NewDedupStore ttl)) = snd ` set ks"
  using mem_dedup.seen_run_first_occurrences [OF dedup_inv_New [OF assms(1,2)] assms(3)]
  by (simp add: NewDedupStore_def)

lemma every_key_passes_once_example:
  "distinct (seen_run MemoryStore_Seen [(1, ''a''), (2, ''b''), (3, ''a'')] (NewDedupStore 0))
   \<and> set (seen_run MemoryStore_Seen [(1, ''a''), (2, ''b''), (3, ''a'')] (NewDedupStore 0)) = {''a'', ''b''}"
  using every_key_passes_once [of 0 "[(1, ''a''), (2, ''b''), (3, ''a'')]"]
  by (simp add: in_int64_def NewDedupStore_def insert_commute)

text \<open>A key is forgotten after the window. A key recorded at a time \<open>ts\<close> is reported as a duplicate at
  \<open>now\<close> exactly while \<open>now - ts\<close> is below the window, and a report of a fresh key renews its time.\<close>

lemma key_expires_after_window:
  assumes "in_int64 (dm_ttl m)" "0 < dm_ttl m" "dm_seen m key = Some ts"
  shows "fst (MemoryStore_Seen now key m) = (now - ts < dm_ttl m, None)
    \<and> dm_seen (snd (MemoryStore_Seen now key m)) key = Some (if now - ts < dm_ttl m then ts else now)"
  using mem_dedup.seen_flag [of m now key] mem_dedup.seen_hit [of m now key] mem_dedup.seen_miss [of m now key] assms
  by (auto simp: dedup_inv_def)

lemma key_expires_after_window_example:
  "fst (MemoryStore_Seen (24 * Hour + 1) ''k'' \<lparr>dm_seen = [''k'' \<mapsto> 1], dm_ttl = 24 * Hour\<rparr>) = (False, None)"
  using key_expires_after_window [of "\<lparr>dm_seen = [''k'' \<mapsto> 1], dm_ttl = 24 * Hour\<rparr>" "''k''" 1 "24 * Hour + 1"]
  by (simp add: in_int64_def)

end
