(* ===== verification/Detectors.thy ===== *)
theory Detectors
  imports Vehicle_State
begin

section \<open>The detectors (internal/detectors)\<close>

text \<open>
  \<open>Tracker\<close> holds the memory of the speeding, idling and trip detectors per vehicle, and \<open>Detect\<close> runs
  them on one telemetry point and the state it led to. The tracker mutex makes one \<open>Detect\<close> call one
  step. Every detector is a step function on its track; the locale \<open>lifecycle\<close> states the shape of
  the event streams (started, continued, ended) once and is interpreted on all three.
\<close>

record det_config =
  cfg_SpeedLimitKmh :: float64
  cfg_SpeedForSecs :: int
  cfg_SpeedContinuedEvery :: duration
  cfg_IdleForSecs :: int
  cfg_TripEndSecs :: int

definition DefaultDetConfig :: det_config where
  "DefaultDetConfig =
     \<lparr>cfg_SpeedLimitKmh = Fin 100, cfg_SpeedForSecs = 10, cfg_SpeedContinuedEvery = Minute,
      cfg_IdleForSecs = 300, cfg_TripEndSecs = 300\<rparr>"

record speeding_track =
  sp_since :: time
  sp_started :: bool
  sp_lastContinued :: time

record idle_track =
  id_since :: time
  id_started :: bool

record trip_track =
  tp_active :: bool
  tp_id :: string
  tp_startedAt :: time
  tp_lastMove :: time
  tp_distanceKm :: float64
  tp_lastLat :: float64
  tp_lastLng :: float64
  tp_hasLast :: bool

record tracker =
  tk_cfg :: det_config
  tk_speeding :: "string \<rightharpoonup> speeding_track"
  tk_idle :: "string \<rightharpoonup> idle_track"
  tk_trips :: "string \<rightharpoonup> trip_track"

definition NewTracker :: "det_config \<Rightarrow> tracker" where
  "NewTracker cfg =
     \<lparr>tk_cfg = cfg, tk_speeding = Map.empty, tk_idle = Map.empty, tk_trips = Map.empty\<rparr>"

definition zero_speeding :: speeding_track where
  "zero_speeding = \<lparr>sp_since = 0, sp_started = False, sp_lastContinued = 0\<rparr>"

definition zero_idle :: idle_track where
  "zero_idle = \<lparr>id_since = 0, id_started = False\<rparr>"

definition zero_trip :: trip_track where
  "zero_trip =
     \<lparr>tp_active = False, tp_id = [], tp_startedAt = 0, tp_lastMove = 0, tp_distanceKm = Fin 0,
      tp_lastLat = Fin 0, tp_lastLng = Fin 0, tp_hasLast = False\<rparr>"

definition haversineKm :: "go_lib \<Rightarrow> float64 \<Rightarrow> float64 \<Rightarrow> float64 \<Rightarrow> float64 \<Rightarrow> float64" where
  "haversineKm L lat1 lng1 lat2 lng2 =
     (let rad = (\<lambda>x. fdiv (fmul x math_Pi) (Fin 180));
          dLat = rad (fsub lat2 lat1);
          dLng = rad (fsub lng2 lng1);
          half = (\<lambda>x. math_Sin L (fdiv x (Fin 2)));
          a = fadd (fmul (half dLat) (half dLat))
                   (fmul (fmul (fmul (math_Cos L (rad lat1)) (math_Cos L (rad lat2))) (half dLng)) (half dLng))
      in fmul (Fin 12742) (math_Asin L (math_Sqrt L a)))"

definition mkEvent :: "string \<Rightarrow> telemetry \<Rightarrow> string \<Rightarrow> jobj \<Rightarrow> event" where
  "mkEvent typ t cause payload =
     \<lparr>ev_ID = DeterministicID typ (tel_VehicleID t) (tel_Timestamp t) cause,
      ev_Type = typ, ev_TenantID = tel_TenantID t, ev_VehicleID = tel_VehicleID t,
      ev_Timestamp = tel_Timestamp t, ev_RuleID = [], ev_RuleVersion = [],
      ev_CorrelationID = md_CorrelationID (tel_Metadata t), ev_CausationID = tel_ID t,
      ev_Payload = jset ''lng'' (JNum (loc_Lng (tel_Location t)))
                     (jset ''lat'' (JNum (loc_Lat (tel_Location t))) payload),
      ev_SchemaVersion = CurrentEventSchemaVersion\<rparr>"

definition speedOf :: "telemetry \<Rightarrow> float64" where
  "speedOf t = (case tel_SpeedKmh t of None \<Rightarrow> Fin 0 | Some s \<Rightarrow> s)"

subsection \<open>Speeding\<close>

definition speeding_payload :: "det_config \<Rightarrow> telemetry \<Rightarrow> jobj" where
  "speeding_payload cfg t =
     [(''speedKmh'', JNum (speedOf t)), (''limitKmh'', JNum (cfg_SpeedLimitKmh cfg))]"

definition speeding_step :: "det_config \<Rightarrow> telemetry \<Rightarrow> speeding_track \<Rightarrow> speeding_track \<times> event list" where
  "speeding_step cfg t st =
     (let over = flt (cfg_SpeedLimitKmh cfg) (speedOf t); now = tel_Timestamp t
      in if over \<and> \<not> sp_started st then
           (let st = (if IsZero (sp_since st) then st\<lparr>sp_since := now\<rparr> else st)
            in if fle (f_of_int (cfg_SpeedForSecs cfg)) (Seconds (time_Sub now (sp_since st)))
               then (st\<lparr>sp_started := True, sp_lastContinued := now\<rparr>,
                     [mkEvent ''vehicle.speeding.started'' t ''speeding'' (speeding_payload cfg t)])
               else (st, []))
         else if over \<and> sp_started st then
           (if cfg_SpeedContinuedEvery cfg \<le> time_Sub now (sp_lastContinued st)
            then (st\<lparr>sp_lastContinued := now\<rparr>,
                  [mkEvent ''vehicle.speeding.continued'' t ''speeding'' (speeding_payload cfg t)])
            else (st, []))
         else if \<not> over \<and> sp_started st then
           (st\<lparr>sp_started := False, sp_since := 0\<rparr>,
            [mkEvent ''vehicle.speeding.ended'' t ''speeding'' (speeding_payload cfg t)])
         else (st\<lparr>sp_since := 0\<rparr>, []))"

definition speedingDetect :: "telemetry \<Rightarrow> tracker \<Rightarrow> tracker \<times> event list" where
  "speedingDetect t tr =
     (let st = (case tk_speeding tr (tel_VehicleID t) of None \<Rightarrow> zero_speeding | Some st \<Rightarrow> st);
          (st', out) = speeding_step (tk_cfg tr) t st
      in (tr\<lparr>tk_speeding := (tk_speeding tr)(tel_VehicleID t \<mapsto> st')\<rparr>, out))"

subsection \<open>Idling\<close>

definition idle_step :: "det_config \<Rightarrow> telemetry \<Rightarrow> vehicle_state \<Rightarrow> idle_track \<Rightarrow> idle_track \<times> event list" where
  "idle_step cfg t s st =
     (if vs_Motion s = MotionIdle then
        (let st = (if IsZero (id_since st) then st\<lparr>id_since := tel_Timestamp t\<rparr> else st)
         in if \<not> id_started st
               \<and> fle (f_of_int (cfg_IdleForSecs cfg)) (Seconds (time_Sub (tel_Timestamp t) (id_since st)))
            then (st\<lparr>id_started := True\<rparr>, [mkEvent ''vehicle.idling.started'' t ''idling'' []])
            else (st, []))
      else
        (st\<lparr>id_started := False, id_since := 0\<rparr>,
         if id_started st then [mkEvent ''vehicle.idling.ended'' t ''idling'' []] else []))"

definition idleDetect :: "telemetry \<Rightarrow> vehicle_state \<Rightarrow> tracker \<Rightarrow> tracker \<times> event list" where
  "idleDetect t s tr =
     (let st = (case tk_idle tr (tel_VehicleID t) of None \<Rightarrow> zero_idle | Some st \<Rightarrow> st);
          (st', out) = idle_step (tk_cfg tr) t s st
      in (tr\<lparr>tk_idle := (tk_idle tr)(tel_VehicleID t \<mapsto> st')\<rparr>, out))"

subsection \<open>Trips\<close>

text \<open>The first half of \<open>tripDetect\<close>: a moving vehicle without an active trip starts one.\<close>

definition trip_start :: "telemetry \<Rightarrow> bool \<Rightarrow> trip_track \<Rightarrow> trip_track \<times> event list" where
  "trip_start t moving st =
     (if \<not> tp_active st \<and> moving then
        (let tid = DeterministicID ''trip'' (tel_VehicleID t) (tel_Timestamp t) ''start''
         in (st\<lparr>tp_active := True, tp_id := tid, tp_startedAt := tel_Timestamp t,
                tp_lastMove := tel_Timestamp t, tp_hasLast := False\<rparr>,
             [mkEvent ''vehicle.trip.started'' t ''trip'' [(''tripId'', JStr tid)]]))
      else (st, []))"

text \<open>The second half: distance, last movement, and the end of the trip.\<close>

definition trip_advance :: "go_lib \<Rightarrow> det_config \<Rightarrow> telemetry \<Rightarrow> bool \<Rightarrow> trip_track \<Rightarrow> trip_track \<times> event list" where
  "trip_advance L cfg t moving st =
     (if tp_active st then
        (let lat = loc_Lat (tel_Location t); lng = loc_Lng (tel_Location t);
             st = (if tp_hasLast st
                   then st\<lparr>tp_distanceKm := fadd (tp_distanceKm st)
                                (haversineKm L (tp_lastLat st) (tp_lastLng st) lat lng)\<rparr> else st);
             st = st\<lparr>tp_lastLat := lat, tp_lastLng := lng, tp_hasLast := True\<rparr>;
             st = (if moving then st\<lparr>tp_lastMove := tel_Timestamp t\<rparr> else st);
             ignOff = (tel_Ignition t = Some False);
             expired = fle (f_of_int (cfg_TripEndSecs cfg)) (Seconds (time_Sub (tel_Timestamp t) (tp_lastMove st)))
         in if ignOff \<or> expired
            then (st\<lparr>tp_active := False\<rparr>,
                  [mkEvent ''vehicle.trip.ended'' t ''trip''
                     [(''tripId'', JStr (tp_id st)),
                      (''distanceKm'', JNum (fdiv (math_Round (fmul (tp_distanceKm st) (Fin 100))) (Fin 100)))]])
            else (st, []))
      else (st, []))"

definition trip_step :: "go_lib \<Rightarrow> det_config \<Rightarrow> telemetry \<Rightarrow> vehicle_state \<Rightarrow> trip_track \<Rightarrow> trip_track \<times> event list" where
  "trip_step L cfg t s st =
     (let moving = (vs_Motion s = MotionMoving);
          (st', out) = trip_start t moving st;
          (st'', out') = trip_advance L cfg t moving st'
      in (st'', out @ out'))"

definition tripDetect :: "go_lib \<Rightarrow> telemetry \<Rightarrow> vehicle_state \<Rightarrow> tracker \<Rightarrow> tracker \<times> event list" where
  "tripDetect L t s tr =
     (let st = (case tk_trips tr (tel_VehicleID t) of None \<Rightarrow> zero_trip | Some st \<Rightarrow> st);
          (st', out) = trip_step L (tk_cfg tr) t s st
      in (tr\<lparr>tk_trips := (tk_trips tr)(tel_VehicleID t \<mapsto> st')\<rparr>, out))"

subsection \<open>Detect\<close>

definition Detect :: "go_lib \<Rightarrow> telemetry \<Rightarrow> vehicle_state \<Rightarrow> tracker \<Rightarrow> tracker \<times> event list" where
  "Detect L t s tr =
     (let (tr, out1) = speedingDetect t tr;
          (tr, out2) = idleDetect t s tr;
          (tr, out3) = tripDetect L t s tr
      in (tr, out1 @ out2 @ out3))"

subsection \<open>A run of the tracker\<close>

text \<open>A run feeds points, each with the state it led to, to one tracker and collects the events.\<close>

fun Detect_run :: "go_lib \<Rightarrow> (telemetry \<times> vehicle_state) list \<Rightarrow> tracker \<Rightarrow> tracker \<times> event list" where
  "Detect_run L [] tr = (tr, [])"
| "Detect_run L ((t, s) # ps) tr =
     (let (tr', out) = Detect L t s tr; (tr'', outs) = Detect_run L ps tr' in (tr'', out @ outs))"

lemma Detect_run_Cons:
  "snd (Detect_run L (p # ps) tr) =
     snd (Detect L (fst p) (snd p) tr) @ snd (Detect_run L ps (fst (Detect L (fst p) (snd p) tr)))"
  "fst (Detect_run L (p # ps) tr) = fst (Detect_run L ps (fst (Detect L (fst p) (snd p) tr)))"
  by (cases p; simp add: case_prod_beta Let_def)+

definition speeding_of :: "tracker \<Rightarrow> string \<Rightarrow> speeding_track" where
  "speeding_of tr v = (case tk_speeding tr v of None \<Rightarrow> zero_speeding | Some st \<Rightarrow> st)"

definition idle_of :: "tracker \<Rightarrow> string \<Rightarrow> idle_track" where
  "idle_of tr v = (case tk_idle tr v of None \<Rightarrow> zero_idle | Some st \<Rightarrow> st)"

definition trip_of :: "tracker \<Rightarrow> string \<Rightarrow> trip_track" where
  "trip_of tr v = (case tk_trips tr v of None \<Rightarrow> zero_trip | Some st \<Rightarrow> st)"

lemmas track_of_defs = speeding_of_def idle_of_def trip_of_def

lemma Detect_events:
  "snd (Detect L t s tr) =
     snd (speeding_step (tk_cfg tr) t (speeding_of tr (tel_VehicleID t)))
     @ snd (idle_step (tk_cfg tr) t s (idle_of tr (tel_VehicleID t)))
     @ snd (trip_step L (tk_cfg tr) t s (trip_of tr (tel_VehicleID t)))"
  by (simp add: Detect_def speedingDetect_def idleDetect_def tripDetect_def track_of_defs Let_def
      case_prod_beta)

lemma Detect_tracker [simp]:
  "tk_cfg (fst (Detect L t s tr)) = tk_cfg tr"
  "speeding_of (fst (Detect L t s tr)) v =
     (if v = tel_VehicleID t then fst (speeding_step (tk_cfg tr) t (speeding_of tr v)) else speeding_of tr v)"
  "idle_of (fst (Detect L t s tr)) v =
     (if v = tel_VehicleID t then fst (idle_step (tk_cfg tr) t s (idle_of tr v)) else idle_of tr v)"
  "trip_of (fst (Detect L t s tr)) v =
     (if v = tel_VehicleID t then fst (trip_step L (tk_cfg tr) t s (trip_of tr v)) else trip_of tr v)"
  by (simp_all add: Detect_def speedingDetect_def idleDetect_def tripDetect_def track_of_defs Let_def
      case_prod_beta)

lemma NewTracker_of [simp]:
  "tk_cfg (NewTracker cfg) = cfg" "speeding_of (NewTracker cfg) v = zero_speeding"
  "idle_of (NewTracker cfg) v = zero_idle" "trip_of (NewTracker cfg) v = zero_trip"
  by (simp_all add: NewTracker_def track_of_defs)

lemma mkEvent_simps [simp]:
  "ev_Type (mkEvent ty t c p) = ty" "ev_VehicleID (mkEvent ty t c p) = tel_VehicleID t"
  "ev_TenantID (mkEvent ty t c p) = tel_TenantID t" "ev_Timestamp (mkEvent ty t c p) = tel_Timestamp t"
  "ev_CausationID (mkEvent ty t c p) = tel_ID t"
  "ev_CorrelationID (mkEvent ty t c p) = md_CorrelationID (tel_Metadata t)"
  "ev_ID (mkEvent ty t c p) = DeterministicID ty (tel_VehicleID t) (tel_Timestamp t) c"
  "ev_SchemaVersion (mkEvent ty t c p) = CurrentEventSchemaVersion"
  by (simp_all add: mkEvent_def)

text \<open>Which events one step of each detector may emit.\<close>

lemma speeding_step_events:
  "e \<in> set (snd (speeding_step cfg t st)) \<Longrightarrow>
   \<exists>k \<in> {''started'', ''continued'', ''ended''}.
     e = mkEvent (''vehicle.speeding.'' @ k) t ''speeding'' (speeding_payload cfg t)"
  by (auto simp: speeding_step_def Let_def split: if_splits)

lemma idle_step_events:
  "e \<in> set (snd (idle_step cfg t s st)) \<Longrightarrow>
   \<exists>k \<in> {''started'', ''ended''}. e = mkEvent (''vehicle.idling.'' @ k) t ''idling'' []"
  by (auto simp: idle_step_def Let_def split: if_splits)

lemma trip_step_events:
  "e \<in> set (snd (trip_step L cfg t s st)) \<Longrightarrow>
   \<exists>k \<in> {''started'', ''ended''}. \<exists>p. e = mkEvent (''vehicle.trip.'' @ k) t ''trip'' p"
  by (auto simp: trip_step_def trip_start_def trip_advance_def Let_def split: if_splits)

lemma Detect_event_of_point:
  assumes "e \<in> set (snd (Detect L t s tr))"
  shows "\<exists>ty c p. e = mkEvent ty t c p \<and> transition_type ty"
  using assms unfolding Detect_events
  by (fastforce dest: speeding_step_events idle_step_events trip_step_events)

subsection \<open>Lifecycles\<close>

text \<open>
  The shape of the event stream of one family (speeding, idling or trip) for one vehicle: an
  automaton that is on between a start and the next end. The locale \<open>lifecycle\<close> asks each step of the
  tracker to follow it; then every run does.
\<close>

fun lc_run :: "string \<Rightarrow> bool \<Rightarrow> string list \<Rightarrow> bool option" where
  "lc_run fam on [] = Some on"
| "lc_run fam on (ty # tys) =
     (if ty = fam @ ''.started'' \<and> \<not> on then lc_run fam True tys
      else if ty = fam @ ''.continued'' \<and> on then lc_run fam True tys
      else if ty = fam @ ''.ended'' \<and> on then lc_run fam False tys
      else None)"

definition family_events :: "string \<Rightarrow> string \<Rightarrow> event list \<Rightarrow> string list" where
  "family_events fam v es =
     map ev_Type (filter (\<lambda>e. ev_VehicleID e = v \<and> has_prefix (ev_Type e) (fam @ ''.'')) es)"

lemma family_events_append [simp]:
  "family_events fam v [] = []"
  "family_events fam v (es @ es') = family_events fam v es @ family_events fam v es'"
  by (simp_all add: family_events_def)

lemma lc_run_append: "lc_run fam on xs = Some on' \<Longrightarrow> lc_run fam on (xs @ ys) = lc_run fam on' ys"
  by (induction fam on xs rule: lc_run.induct) (auto split: if_splits)

locale lifecycle =
  fixes fam :: string and on :: "tracker \<Rightarrow> string \<Rightarrow> bool"
  assumes off_initially: "\<not> on (NewTracker cfg) v"
    and step_follows: "lc_run fam (on tr v) (family_events fam v (snd (Detect L t s tr)))
      = Some (on (fst (Detect L t s tr)) v)"
begin

lemma run_follows:
  "lc_run fam (on tr v) (family_events fam v (snd (Detect_run L ps tr)))
     = Some (on (fst (Detect_run L ps tr)) v)"
proof (induction ps arbitrary: tr)
  case Nil
  then show ?case by simp
next
  case (Cons p ps)
  then show ?case
    using lc_run_append [OF step_follows [of tr v L "fst p" "snd p"]] by (simp add: Detect_run_Cons)
qed

lemma run_from_new:
  "lc_run fam False (family_events fam v (snd (Detect_run L ps (NewTracker cfg))))
     = Some (on (fst (Detect_run L ps (NewTracker cfg))) v)"
  using run_follows [of "NewTracker cfg" v L ps] off_initially [of cfg v] by simp

end

lemma family_events_step:
  assumes "\<And>e. e \<in> set es \<Longrightarrow> ev_VehicleID e = w \<and> (\<exists>k. ev_Type e = fam' @ ''.'' @ k)"
    and "\<And>k. has_prefix (fam' @ ''.'' @ k) (fam @ ''.'') \<longleftrightarrow> b"
  shows "family_events fam v es = (if v = w \<and> b then map ev_Type es else [])"
  using assms(1)
proof (induction es)
  case (Cons e es)
  then obtain k where "ev_VehicleID e = w" "ev_Type e = fam' @ ''.'' @ k" by force
  moreover from this have "has_prefix (ev_Type e) (fam @ ''.'') \<longleftrightarrow> b" using assms(2) by metis
  ultimately
  show ?case using Cons by (auto simp: family_events_def)
qed simp

lemma families_disjoint:
  assumes "fam \<in> {''vehicle.speeding'', ''vehicle.idling'', ''vehicle.trip''}"
    and "fam' \<in> {''vehicle.speeding'', ''vehicle.idling'', ''vehicle.trip''}"
  shows "has_prefix (fam' @ ''.'' @ k) (fam @ ''.'') \<longleftrightarrow> fam = fam'"
  using assms by (auto simp: has_prefix_def)

lemma family_events_steps:
  assumes "fam \<in> {''vehicle.speeding'', ''vehicle.idling'', ''vehicle.trip''}"
  shows "family_events fam v (snd (speeding_step cfg t sp)) =
      (if v = tel_VehicleID t \<and> fam = ''vehicle.speeding'' then map ev_Type (snd (speeding_step cfg t sp)) else [])"
    and "family_events fam v (snd (idle_step cfg t s idl)) =
      (if v = tel_VehicleID t \<and> fam = ''vehicle.idling'' then map ev_Type (snd (idle_step cfg t s idl)) else [])"
    and "family_events fam v (snd (trip_step L cfg t s tp)) =
      (if v = tel_VehicleID t \<and> fam = ''vehicle.trip'' then map ev_Type (snd (trip_step L cfg t s tp)) else [])"
proof -
  show "family_events fam v (snd (speeding_step cfg t sp)) =
      (if v = tel_VehicleID t \<and> fam = ''vehicle.speeding'' then map ev_Type (snd (speeding_step cfg t sp)) else [])"
    by (rule family_events_step [of _ _ "''vehicle.speeding''"])
      (use assms in \<open>fastforce dest: speeding_step_events\<close>, use assms in \<open>intro families_disjoint, auto\<close>)
  show "family_events fam v (snd (idle_step cfg t s idl)) =
      (if v = tel_VehicleID t \<and> fam = ''vehicle.idling'' then map ev_Type (snd (idle_step cfg t s idl)) else [])"
    by (rule family_events_step [of _ _ "''vehicle.idling''"])
      (use assms in \<open>fastforce dest: idle_step_events\<close>, use assms in \<open>intro families_disjoint, auto\<close>)
  show "family_events fam v (snd (trip_step L cfg t s tp)) =
      (if v = tel_VehicleID t \<and> fam = ''vehicle.trip'' then map ev_Type (snd (trip_step L cfg t s tp)) else [])"
    by (rule family_events_step [of _ _ "''vehicle.trip''"])
      (use assms in \<open>fastforce dest: trip_step_events\<close>, use assms in \<open>intro families_disjoint, auto\<close>)
qed

lemma Detect_families:
  "family_events ''vehicle.speeding'' v (snd (Detect L t s tr)) =
     (if v = tel_VehicleID t then map ev_Type (snd (speeding_step (tk_cfg tr) t (speeding_of tr v))) else [])"
  "family_events ''vehicle.idling'' v (snd (Detect L t s tr)) =
     (if v = tel_VehicleID t then map ev_Type (snd (idle_step (tk_cfg tr) t s (idle_of tr v))) else [])"
  "family_events ''vehicle.trip'' v (snd (Detect L t s tr)) =
     (if v = tel_VehicleID t then map ev_Type (snd (trip_step L (tk_cfg tr) t s (trip_of tr v))) else [])"
  by (auto simp: Detect_events family_events_steps)

interpretation speeding: lifecycle "''vehicle.speeding''" "\<lambda>tr v. sp_started (speeding_of tr v)"
proof
  show "lc_run ''vehicle.speeding'' (sp_started (speeding_of tr v))
      (family_events ''vehicle.speeding'' v (snd (Detect L t s tr))) =
    Some (sp_started (speeding_of (fst (Detect L t s tr)) v))" for tr v L t s
    unfolding Detect_families by (simp add: speeding_step_def Let_def)
qed (simp add: zero_speeding_def)

interpretation idling: lifecycle "''vehicle.idling''" "\<lambda>tr v. id_started (idle_of tr v)"
proof
  show "lc_run ''vehicle.idling'' (id_started (idle_of tr v))
      (family_events ''vehicle.idling'' v (snd (Detect L t s tr))) =
    Some (id_started (idle_of (fst (Detect L t s tr)) v))" for tr v L t s
    unfolding Detect_families by (simp add: idle_step_def Let_def)
qed (simp add: zero_idle_def)

interpretation trips: lifecycle "''vehicle.trip''" "\<lambda>tr v. tp_active (trip_of tr v)"
proof
  show "lc_run ''vehicle.trip'' (tp_active (trip_of tr v))
      (family_events ''vehicle.trip'' v (snd (Detect L t s tr))) =
    Some (tp_active (trip_of (fst (Detect L t s tr)) v))" for tr v L t s
    unfolding Detect_families by (simp add: trip_step_def trip_start_def trip_advance_def Let_def)
qed (simp add: zero_trip_def)

subsection \<open>Dwell times\<close>

text \<open>
  Speeding and idling start only after their condition has held for a configured number of seconds. The
  locale \<open>dwell\<close> states what one point does to a vehicle's timer and shows when a run starts.
\<close>

definition starts_of :: "string \<Rightarrow> string \<Rightarrow> event list \<Rightarrow> event list" where
  "starts_of ty v es = filter (\<lambda>e. ev_Type e = ty \<and> ev_VehicleID e = v) es"

lemma starts_of_append [simp]:
  "starts_of ty v [] = []" "starts_of ty v (es @ es') = starts_of ty v es @ starts_of ty v es'"
  "starts_of ty v (e # es) = (if ev_Type e = ty \<and> ev_VehicleID e = v then e # starts_of ty v es else starts_of ty v es)"
  by (simp_all add: starts_of_def)

definition points_of :: "string \<Rightarrow> (telemetry \<times> vehicle_state) list \<Rightarrow> (telemetry \<times> vehicle_state) list" where
  "points_of v ps = filter (\<lambda>p. tel_VehicleID (fst p) = v) ps"

locale dwell =
  fixes ty :: string and cond :: "det_config \<Rightarrow> telemetry \<Rightarrow> vehicle_state \<Rightarrow> bool" and secs :: "det_config \<Rightarrow> int"
    and startev :: "det_config \<Rightarrow> telemetry \<Rightarrow> event"
    and since :: "tracker \<Rightarrow> string \<Rightarrow> time" and started :: "tracker \<Rightarrow> string \<Rightarrow> bool"
  assumes wait: "secs_ok (secs (tk_cfg tr)) \<Longrightarrow> cond (tk_cfg tr) t s \<Longrightarrow> \<not> started tr (tel_VehicleID t) \<Longrightarrow>
      s0 = (if since tr (tel_VehicleID t) = 0 then tel_Timestamp t else since tr (tel_VehicleID t)) \<Longrightarrow>
      starts_of ty (tel_VehicleID t) (snd (Detect L t s tr)) =
        (if s0 + secs (tk_cfg tr) * Second \<le> tel_Timestamp t then [startev (tk_cfg tr) t] else [])
      \<and> since (fst (Detect L t s tr)) (tel_VehicleID t) = s0
      \<and> (started (fst (Detect L t s tr)) (tel_VehicleID t) \<longleftrightarrow> s0 + secs (tk_cfg tr) * Second \<le> tel_Timestamp t)"
    and hold: "cond (tk_cfg tr) t s \<Longrightarrow> started tr (tel_VehicleID t) \<Longrightarrow>
      starts_of ty (tel_VehicleID t) (snd (Detect L t s tr)) = []
      \<and> started (fst (Detect L t s tr)) (tel_VehicleID t)"
    and frame: "v \<noteq> tel_VehicleID t \<Longrightarrow> starts_of ty v (snd (Detect L t s tr)) = []
      \<and> since (fst (Detect L t s tr)) v = since tr v \<and> started (fst (Detect L t s tr)) v = started tr v"
begin

lemma no_restart:
  assumes "started tr v" and "\<forall>p \<in> set (points_of v ps). cond (tk_cfg tr) (fst p) (snd p)"
  shows "starts_of ty v (snd (Detect_run L ps tr)) = []"
  using assms
proof (induction ps arbitrary: tr)
  case (Cons p ps)
  then show ?case
    using hold [of tr "fst p" "snd p" L] frame [of v "fst p" L "snd p" tr]
    by (cases "tel_VehicleID (fst p) = v") (auto simp: Detect_run_Cons points_of_def)
qed simp

lemma waiting_run:
  assumes "secs_ok (secs (tk_cfg tr))" and "\<not> started tr v" and "since tr v = s0" and "s0 \<noteq> 0"
    and "\<forall>p \<in> set (points_of v ps). cond (tk_cfg tr) (fst p) (snd p)"
  shows "starts_of ty v (snd (Detect_run L ps tr)) =
    map (startev (tk_cfg tr) \<circ> fst)
      (take 1 (filter (\<lambda>p. s0 + secs (tk_cfg tr) * Second \<le> tel_Timestamp (fst p)) (points_of v ps)))"
  using assms
proof (induction ps arbitrary: tr)
  case Nil
  then show ?case by (simp add: points_of_def)
next
  case (Cons p ps)
  let ?tr = "fst (Detect L (fst p) (snd p) tr)"
  show ?case
  proof (cases "tel_VehicleID (fst p) = v")
    case False
    then show ?thesis
      using Cons.IH [of ?tr] Cons.prems frame [of v "fst p" L "snd p" tr]
      by (auto simp: Detect_run_Cons points_of_def)
  next
    case True
    then have w: "starts_of ty v (snd (Detect L (fst p) (snd p) tr)) =
        (if s0 + secs (tk_cfg tr) * Second \<le> tel_Timestamp (fst p) then [startev (tk_cfg tr) (fst p)] else [])"
      "since ?tr v = s0" "started ?tr v \<longleftrightarrow> s0 + secs (tk_cfg tr) * Second \<le> tel_Timestamp (fst p)"
      using wait [of tr "fst p" "snd p" s0 L] Cons.prems by (auto simp: points_of_def)
    have "\<forall>p \<in> set (points_of v ps). cond (tk_cfg ?tr) (fst p) (snd p)"
      using Cons.prems(5) by (simp add: points_of_def)
    with w True Cons.IH [of ?tr] Cons.prems(1,4) no_restart [of ?tr v ps L] show ?thesis
      by (auto simp: Detect_run_Cons points_of_def)
  qed
qed

text \<open>A run from rest starts exactly once, at the first point that is the dwell time after the first one.\<close>

lemma run_starts:
  assumes "secs_ok (secs (tk_cfg tr))" and "\<not> started tr v" and "since tr v = 0"
    and "\<forall>p \<in> set (points_of v ps). cond (tk_cfg tr) (fst p) (snd p) \<and> tel_Timestamp (fst p) \<noteq> 0"
    and "points_of v ps = p0 # rest"
  shows "starts_of ty v (snd (Detect_run L ps tr)) =
    map (startev (tk_cfg tr) \<circ> fst)
      (take 1 (filter (\<lambda>p. tel_Timestamp (fst p0) + secs (tk_cfg tr) * Second \<le> tel_Timestamp (fst p)) (p0 # rest)))"
  using assms
proof (induction ps arbitrary: tr)
  case Nil
  then show ?case by (simp add: points_of_def)
next
  case (Cons p ps)
  let ?tr = "fst (Detect L (fst p) (snd p) tr)"
  show ?case
  proof (cases "tel_VehicleID (fst p) = v")
    case False
    then show ?thesis
      using Cons.IH [of ?tr] Cons.prems frame [of v "fst p" L "snd p" tr]
      by (auto simp: Detect_run_Cons points_of_def)
  next
    case True
    then have p: "p = p0" "points_of v ps = rest" using Cons.prems(5) by (auto simp: points_of_def)
    let ?d = "tel_Timestamp (fst p0)"
    have w: "starts_of ty v (snd (Detect L (fst p) (snd p) tr)) =
        (if ?d + secs (tk_cfg tr) * Second \<le> ?d then [startev (tk_cfg tr) (fst p)] else [])"
      "since ?tr v = ?d" "started ?tr v \<longleftrightarrow> ?d + secs (tk_cfg tr) * Second \<le> ?d"
      using wait [of tr "fst p" "snd p" ?d L] Cons.prems True p by (auto simp: points_of_def)
    have c: "\<forall>p \<in> set (points_of v ps). cond (tk_cfg ?tr) (fst p) (snd p)" and d: "?d \<noteq> 0"
      using Cons.prems(4) True p by (auto simp: points_of_def)
    with w p Cons.prems(1) no_restart [OF _ c, of L] waiting_run [OF _ _ _ d c, of L] show ?thesis
      by (simp add: Detect_run_Cons)
  qed
qed

end

lemma starts_of_steps:
  "starts_of ''vehicle.speeding.started'' v (snd (idle_step cfg t s idl)) = []"
  "starts_of ''vehicle.speeding.started'' v (snd (trip_step L cfg t s tp)) = []"
  "starts_of ''vehicle.idling.started'' v (snd (speeding_step cfg t sp)) = []"
  "starts_of ''vehicle.idling.started'' v (snd (trip_step L cfg t s tp)) = []"
  "v \<noteq> tel_VehicleID t \<Longrightarrow> starts_of ty v (snd (speeding_step cfg t sp)) = []"
  "v \<noteq> tel_VehicleID t \<Longrightarrow> starts_of ty v (snd (idle_step cfg t s idl)) = []"
  "v \<noteq> tel_VehicleID t \<Longrightarrow> starts_of ty v (snd (trip_step L cfg t s tp)) = []"
  by (auto simp: starts_of_def filter_empty_conv dest!: speeding_step_events idle_step_events trip_step_events)

definition over_limit :: "det_config \<Rightarrow> telemetry \<Rightarrow> bool" where
  "over_limit cfg t \<longleftrightarrow> flt (cfg_SpeedLimitKmh cfg) (speedOf t)"

interpretation speeding_dwell: dwell "''vehicle.speeding.started''" "\<lambda>cfg t s. over_limit cfg t" cfg_SpeedForSecs
  "\<lambda>cfg t. mkEvent ''vehicle.speeding.started'' t ''speeding'' (speeding_payload cfg t)"
  "\<lambda>tr v. sp_since (speeding_of tr v)" "\<lambda>tr v. sp_started (speeding_of tr v)"
  by unfold_locales
    (auto simp: Detect_events starts_of_steps speeding_step_def Let_def over_limit_def dwell_test IsZero_def)

interpretation idling_dwell: dwell "''vehicle.idling.started''" "\<lambda>cfg t s. vs_Motion s = MotionIdle" cfg_IdleForSecs
  "\<lambda>cfg t. mkEvent ''vehicle.idling.started'' t ''idling'' []"
  "\<lambda>tr v. id_since (idle_of tr v)" "\<lambda>tr v. id_started (idle_of tr v)"
  by unfold_locales
    (auto simp: Detect_events starts_of_steps idle_step_def Let_def dwell_test IsZero_def)

subsection \<open>Spacing of the continued events\<close>

definition speeding_marks :: "string \<Rightarrow> event list \<Rightarrow> event list" where
  "speeding_marks v es = filter (\<lambda>e. ev_VehicleID e = v
     \<and> (ev_Type e = ''vehicle.speeding.started'' \<or> ev_Type e = ''vehicle.speeding.continued'')) es"

definition spaced :: "duration \<Rightarrow> event \<Rightarrow> event \<Rightarrow> bool" where
  "spaced d a b \<longleftrightarrow> (ev_Type b = ''vehicle.speeding.continued'' \<longrightarrow> d \<le> ev_Timestamp b - ev_Timestamp a)"

lemma speeding_marks_Detect:
  "speeding_marks v (snd (Detect L t s tr)) =
     (if v = tel_VehicleID t then speeding_marks v (snd (speeding_step (tk_cfg tr) t (speeding_of tr v))) else [])"
proof -
  have "speeding_marks v (snd (idle_step (tk_cfg tr) t s i)) = []"
    "speeding_marks v (snd (trip_step L (tk_cfg tr) t s tp)) = []"
    "v \<noteq> tel_VehicleID t \<Longrightarrow> speeding_marks v (snd (speeding_step (tk_cfg tr) t sp)) = []" for i tp sp
    by (auto simp: speeding_marks_def filter_empty_conv
        dest!: speeding_step_events idle_step_events trip_step_events)
  then show ?thesis by (auto simp: Detect_events speeding_marks_def)
qed

lemma speeding_mark_step:
  assumes "in_int64 (cfg_SpeedContinuedEvery cfg)" "- (2 ^ 63) < cfg_SpeedContinuedEvery cfg"
    and "speeding_step cfg t st = (st', out)"
  shows "(speeding_marks (tel_VehicleID t) out = []
      \<and> (sp_started st' \<longrightarrow> sp_started st \<and> sp_lastContinued st' = sp_lastContinued st))
    \<or> (\<exists>e. speeding_marks (tel_VehicleID t) out = [e] \<and> sp_lastContinued st' = ev_Timestamp e
        \<and> (ev_Type e = ''vehicle.speeding.continued'' \<longrightarrow>
             sp_started st \<and> cfg_SpeedContinuedEvery cfg \<le> ev_Timestamp e - sp_lastContinued st))"
  using assms(3) time_Sub_ge_iff [OF assms(1,2)]
  by (auto simp: speeding_step_def speeding_marks_def Let_def split: if_splits)

lemma speeding_marks_spaced:
  assumes "in_int64 (cfg_SpeedContinuedEvery (tk_cfg tr))" "- (2 ^ 63) < cfg_SpeedContinuedEvery (tk_cfg tr)"
    and "sp_started (speeding_of tr v) \<longrightarrow> ev_Timestamp e0 = sp_lastContinued (speeding_of tr v)"
  shows "successively (spaced (cfg_SpeedContinuedEvery (tk_cfg tr)))
    (e0 # speeding_marks v (snd (Detect_run L ps tr)))"
  using assms
proof (induction ps arbitrary: tr e0)
  case Nil
  then show ?case by (simp add: speeding_marks_def)
next
  case (Cons p ps)
  let ?tr = "fst (Detect L (fst p) (snd p) tr)"
  note IH = Cons.IH [of ?tr, simplified Detect_tracker(1), OF Cons.prems(1,2)]
  have app: "speeding_marks v (snd (Detect_run L (p # ps) tr)) =
      speeding_marks v (snd (Detect L (fst p) (snd p) tr)) @ speeding_marks v (snd (Detect_run L ps ?tr))"
    by (simp add: Detect_run_Cons speeding_marks_def)
  show ?case
  proof (cases "v = tel_VehicleID (fst p)")
    case False
    then show ?thesis using IH [of e0] Cons.prems(3) by (simp add: app speeding_marks_Detect)
  next
    case True
    obtain st' out where st: "speeding_step (tk_cfg tr) (fst p) (speeding_of tr v) = (st', out)" by fastforce
    have tr': "speeding_of ?tr v = st'" and marks: "speeding_marks v (snd (Detect L (fst p) (snd p) tr)) = speeding_marks v out"
      using True st by (simp_all add: speeding_marks_Detect)
    consider (none) "speeding_marks v out = []" "sp_started st' \<longrightarrow> ev_Timestamp e0 = sp_lastContinued st'"
      | (mark) e where "speeding_marks v out = [e]" "sp_lastContinued st' = ev_Timestamp e"
          "spaced (cfg_SpeedContinuedEvery (tk_cfg tr)) e0 e"
      using speeding_mark_step [OF Cons.prems(1,2) st] Cons.prems(3) unfolding True [symmetric] spaced_def by fastforce
    then show ?thesis
      by cases (use IH in \<open>simp_all add: app marks tr' del: Detect_tracker\<close>)
  qed
qed

subsection \<open>Properties\<close>

text \<open>C14: The event stream of every detector is well formed. For every vehicle and whatever points and
  states a new tracker is fed with, the speeding, idling and trip events alternate between a start and an
  end, continued events occur only in between, and the last event tells whether the tracker holds the
  vehicle as speeding, idling or on a trip.\<close>

theorem detector_lifecycles:
  "lc_run ''vehicle.speeding'' False (family_events ''vehicle.speeding'' v (snd (Detect_run L ps (NewTracker cfg))))
     = Some (sp_started (speeding_of (fst (Detect_run L ps (NewTracker cfg))) v))
   \<and> lc_run ''vehicle.idling'' False (family_events ''vehicle.idling'' v (snd (Detect_run L ps (NewTracker cfg))))
     = Some (id_started (idle_of (fst (Detect_run L ps (NewTracker cfg))) v))
   \<and> lc_run ''vehicle.trip'' False (family_events ''vehicle.trip'' v (snd (Detect_run L ps (NewTracker cfg))))
     = Some (tp_active (trip_of (fst (Detect_run L ps (NewTracker cfg))) v))"
  using speeding.run_from_new idling.run_from_new trips.run_from_new by blast

text \<open>Speeding starts after the dwell time. While every point of a vehicle at rest is over the limit,
  exactly one speeding.started event is emitted, for the first point that is at least the configured
  number of seconds after the first one (none when there is no such point), however the points of other
  vehicles are interleaved.\<close>

lemma speeding_starts_after_dwell:
  assumes "secs_ok (cfg_SpeedForSecs (tk_cfg tr))"
    and "\<not> sp_started (speeding_of tr v)" "sp_since (speeding_of tr v) = 0"
    and "\<forall>p \<in> set (points_of v ps). over_limit (tk_cfg tr) (fst p) \<and> tel_Timestamp (fst p) \<noteq> 0"
    and "points_of v ps = p0 # rest"
  shows "starts_of ''vehicle.speeding.started'' v (snd (Detect_run L ps tr)) =
    map (\<lambda>p. mkEvent ''vehicle.speeding.started'' (fst p) ''speeding'' (speeding_payload (tk_cfg tr) (fst p)))
      (take 1 (filter (\<lambda>p. tel_Timestamp (fst p0) + cfg_SpeedForSecs (tk_cfg tr) * Second \<le> tel_Timestamp (fst p))
        (p0 # rest)))"
  using speeding_dwell.run_starts [OF assms, of L] by (simp add: comp_def)

lemma speeding_starts_after_dwell_example:
  "starts_of ''vehicle.speeding.started'' ''v''
     (snd (Detect_run plain_lib
       [(point_at ''v'' 1 (Some (Fin 120)) None None, zero_vehicle_state),
        (point_at ''w'' 2 None None None, zero_vehicle_state),
        (point_at ''v'' (10 * Second + 1) (Some (Fin 130)) None None, zero_vehicle_state)]
       (NewTracker DefaultDetConfig))) =
   [mkEvent ''vehicle.speeding.started'' (point_at ''v'' (10 * Second + 1) (Some (Fin 130)) None None) ''speeding''
      (speeding_payload DefaultDetConfig (point_at ''v'' (10 * Second + 1) (Some (Fin 130)) None None))]"
  by (subst speeding_starts_after_dwell
        [of _ _ _ "(point_at ''v'' 1 (Some (Fin 120)) None None, zero_vehicle_state)"
          "[(point_at ''v'' (10 * Second + 1) (Some (Fin 130)) None None, zero_vehicle_state)]"])
    (simp_all add: secs_ok_def DefaultDetConfig_def zero_speeding_def points_of_def over_limit_def speedOf_def
      point_at_simps)

text \<open>Idling starts after the dwell time. While the state engine holds a vehicle as idle, exactly one
  idling.started event is emitted, for the first point at least the configured number of seconds after
  the first idle one.\<close>

lemma idling_starts_after_dwell:
  assumes "secs_ok (cfg_IdleForSecs (tk_cfg tr))"
    and "\<not> id_started (idle_of tr v)" "id_since (idle_of tr v) = 0"
    and "\<forall>p \<in> set (points_of v ps). vs_Motion (snd p) = MotionIdle \<and> tel_Timestamp (fst p) \<noteq> 0"
    and "points_of v ps = p0 # rest"
  shows "starts_of ''vehicle.idling.started'' v (snd (Detect_run L ps tr)) =
    map (\<lambda>p. mkEvent ''vehicle.idling.started'' (fst p) ''idling'' [])
      (take 1 (filter (\<lambda>p. tel_Timestamp (fst p0) + cfg_IdleForSecs (tk_cfg tr) * Second \<le> tel_Timestamp (fst p))
        (p0 # rest)))"
  using idling_dwell.run_starts [OF assms, of L] by (simp add: comp_def)

lemma idling_starts_after_dwell_example:
  "starts_of ''vehicle.idling.started'' ''v''
     (snd (Detect_run plain_lib
       [(point_at ''v'' 1 None None None, zero_vehicle_state\<lparr>vs_Motion := MotionIdle\<rparr>),
        (point_at ''v'' (299 * Second) None None None, zero_vehicle_state\<lparr>vs_Motion := MotionIdle\<rparr>)]
       (NewTracker DefaultDetConfig))) = []"
  by (subst idling_starts_after_dwell
        [of _ _ _ "(point_at ''v'' 1 None None None, zero_vehicle_state\<lparr>vs_Motion := MotionIdle\<rparr>)"
          "[(point_at ''v'' (299 * Second) None None None, zero_vehicle_state\<lparr>vs_Motion := MotionIdle\<rparr>)]"])
    (simp_all add: secs_ok_def DefaultDetConfig_def zero_idle_def points_of_def point_at_simps)

text \<open>Continued speeding events are spaced. In the stream of one vehicle's speeding.started and
  speeding.continued events every continued event comes at least the configured interval after the event
  before it.\<close>

lemma continued_events_spaced:
  assumes "in_int64 (cfg_SpeedContinuedEvery cfg)" "- (2 ^ 63) < cfg_SpeedContinuedEvery cfg"
  shows "successively (\<lambda>a b. ev_Type b = ''vehicle.speeding.continued'' \<longrightarrow>
       cfg_SpeedContinuedEvery cfg \<le> ev_Timestamp b - ev_Timestamp a)
    (speeding_marks v (snd (Detect_run L ps (NewTracker cfg))))"
  using speeding_marks_spaced [of "NewTracker cfg" v undefined L ps] assms
  by (auto simp: zero_speeding_def spaced_def [abs_def] successively_Cons)

lemma continued_events_spaced_example:
  "successively (\<lambda>a b. ev_Type b = ''vehicle.speeding.continued'' \<longrightarrow>
       cfg_SpeedContinuedEvery DefaultDetConfig \<le> ev_Timestamp b - ev_Timestamp a)
    (speeding_marks ''v'' (snd (Detect_run plain_lib
       [(point_at ''v'' 1 (Some (Fin 120)) None None, zero_vehicle_state),
        (point_at ''v'' (10 * Second + 1) (Some (Fin 130)) None None, zero_vehicle_state)]
       (NewTracker DefaultDetConfig))))"
  by (rule continued_events_spaced) (simp_all add: DefaultDetConfig_def in_int64_def)

text \<open>Every event of the detectors tells where it comes from and is publishable. It carries the
  tenant, vehicle, event time and correlation id of the point that caused it and that point's id as its
  cause, and for a point that passed validation the event passes the event validation exactly when the
  point has a correlation id.\<close>

lemma detector_events_traceable:
  assumes "telemetry_Validate t = None" and "e \<in> set (snd (Detect L t s tr))"
  shows "ev_TenantID e = tel_TenantID t \<and> ev_VehicleID e = tel_VehicleID t \<and> ev_Timestamp e = tel_Timestamp t
    \<and> ev_CorrelationID e = md_CorrelationID (tel_Metadata t) \<and> ev_CausationID e = tel_ID t
    \<and> (event_Validate e = None \<longleftrightarrow> md_CorrelationID (tel_Metadata t) \<noteq> [])"
  using assms Detect_event_of_point [OF assms(2)]
  by (auto simp: event_Validate_ok_iff telemetry_Validate_ok_iff)

lemma detector_events_traceable_example:
  "event_Validate (mkEvent ''vehicle.trip.started'' (point_at ''v'' 1 None None None) ''trip''
     [(''tripId'', JStr (DeterministicID ''trip'' ''v'' 1 ''start''))]) = None"
proof -
  let ?t = "point_at ''v'' 1 None None None" and ?s = "zero_vehicle_state\<lparr>vs_Motion := MotionMoving\<rparr>"
  have "mkEvent ''vehicle.trip.started'' ?t ''trip'' [(''tripId'', JStr (DeterministicID ''trip'' ''v'' 1 ''start''))]
      \<in> set (snd (Detect plain_lib ?t ?s (NewTracker DefaultDetConfig)))"
    by (simp add: Detect_events trip_step_def trip_start_def trip_advance_def zero_trip_def point_at_simps Let_def)
  from detector_events_traceable [OF _ this] show ?thesis
    by (simp add: point_at_valid) (simp add: point_at_simps)
qed



end
