(* ===== verification/Geo.thy ===== *)
theory Geo
  imports Events
begin

section \<open>Geofences (internal/geo)\<close>

text \<open>
  Ray casting, the bounding-box filter and the tracker of fence membership. Coordinates are float64
  values and every arithmetic operation of the ray casting rounds. The inner map of the members, read
  with false for an absent fence, is a total function; the tracker mutex makes one \<open>Evaluate\<close> or
  \<open>SetFences\<close> call one step.
\<close>

record point =
  pt_Lat :: float64
  pt_Lng :: float64

record geofence =
  gf_ID :: string
  gf_TenantID :: string
  gf_Name :: string
  gf_Polygon :: "point list"

text \<open>The test of one edge: it straddles the latitude of the point, and crosses it to the right.\<close>

definition straddles :: "point \<Rightarrow> point \<Rightarrow> point \<Rightarrow> bool" where
  "straddles p vi vj \<longleftrightarrow> flt (pt_Lat p) (pt_Lat vi) \<noteq> flt (pt_Lat p) (pt_Lat vj)"

definition crossing_lng :: "point \<Rightarrow> point \<Rightarrow> point \<Rightarrow> float64" where
  "crossing_lng p vi vj =
     fadd (fdiv (fmul (fsub (pt_Lng vj) (pt_Lng vi)) (fsub (pt_Lat p) (pt_Lat vi)))
                (fsub (pt_Lat vj) (pt_Lat vi)))
          (pt_Lng vi)"

fun contains_loop :: "point \<Rightarrow> point list \<Rightarrow> point \<Rightarrow> bool \<Rightarrow> bool" where
  "contains_loop p [] vj inside = inside"
| "contains_loop p (vi # vs) vj inside =
     contains_loop p vs vi
       (if straddles p vi vj \<and> flt (pt_Lng p) (crossing_lng p vi vj) then \<not> inside else inside)"

definition Contains :: "geofence \<Rightarrow> point \<Rightarrow> bool" where
  "Contains g p =
     (if gf_Polygon g = [] then False else contains_loop p (gf_Polygon g) (last (gf_Polygon g)) False)"

text \<open>The bounding box as \<open>CandidateFilter\<close> computes it: minimum and maximum latitude and longitude.\<close>

definition bbox_step :: "(float64 \<times> float64) \<times> float64 \<times> float64 \<Rightarrow> point \<Rightarrow> (float64 \<times> float64) \<times> float64 \<times> float64" where
  "bbox_step b v =
     (case b of ((minLat, maxLat), minLng, maxLng) \<Rightarrow>
        ((if flt (pt_Lat v) minLat then pt_Lat v else minLat,
          if flt maxLat (pt_Lat v) then pt_Lat v else maxLat),
         (if flt (pt_Lng v) minLng then pt_Lng v else minLng),
         (if flt maxLng (pt_Lng v) then pt_Lng v else maxLng)))"

definition in_bbox :: "geofence \<Rightarrow> point \<Rightarrow> bool" where
  "in_bbox g p =
     (case foldl bbox_step ((Fin 90, Fin (-90)), Fin 180, Fin (-180)) (gf_Polygon g) of
        ((minLat, maxLat), minLng, maxLng) \<Rightarrow>
          fle minLat (pt_Lat p) \<and> fle (pt_Lat p) maxLat \<and> fle minLng (pt_Lng p) \<and> fle (pt_Lng p) maxLng)"

definition CandidateFilter :: "geofence list \<Rightarrow> point \<Rightarrow> geofence list" where
  "CandidateFilter fences p = filter (\<lambda>g. in_bbox g p) fences"

record geo_tracker =
  gt_fences :: "geofence list"
  gt_members :: "string \<rightharpoonup> (string \<Rightarrow> bool)"

definition NewGeoTracker :: "geofence list \<Rightarrow> geo_tracker" where
  "NewGeoTracker fences = \<lparr>gt_fences = fences, gt_members = Map.empty\<rparr>"

definition SetFences :: "geofence list \<Rightarrow> geo_tracker \<Rightarrow> geo_tracker" where
  "SetFences fences tr = tr\<lparr>gt_fences := fences\<rparr>"

definition fence_event :: "string \<Rightarrow> telemetry \<Rightarrow> geofence \<Rightarrow> event" where
  "fence_event ty tel g =
     \<lparr>ev_ID = DeterministicID ty (tel_VehicleID tel) (tel_Timestamp tel) (gf_ID g),
      ev_Type = ty, ev_TenantID = tel_TenantID tel, ev_VehicleID = tel_VehicleID tel,
      ev_Timestamp = tel_Timestamp tel, ev_RuleID = [], ev_RuleVersion = [],
      ev_CorrelationID = md_CorrelationID (tel_Metadata tel), ev_CausationID = tel_ID tel,
      ev_Payload = [(''geofenceId'', JStr (gf_ID g)), (''geofenceName'', JStr (gf_Name g)),
                    (''lat'', JNum (loc_Lat (tel_Location tel))), (''lng'', JNum (loc_Lng (tel_Location tel)))],
      ev_SchemaVersion = CurrentEventSchemaVersion\<rparr>"

definition exitEvent :: "telemetry \<Rightarrow> geofence \<Rightarrow> event" where
  "exitEvent tel g = fence_event ''vehicle.geofence.exited'' tel g"

text \<open>The loop over the candidate fences.\<close>

fun candidate_loop :: "telemetry \<Rightarrow> point \<Rightarrow> geofence list \<Rightarrow> (string \<Rightarrow> bool) \<Rightarrow> (string \<Rightarrow> bool) \<times> event list" where
  "candidate_loop tel p [] mem = (mem, [])"
| "candidate_loop tel p (g # gs) mem =
     (let inside = Contains g p; was = mem (gf_ID g)
      in if inside \<and> \<not> was then
           (let (mem', out) = candidate_loop tel p gs (mem(gf_ID g := True))
            in (mem', fence_event ''vehicle.geofence.entered'' tel g # out))
         else if \<not> inside \<and> was then
           (let (mem', out) = candidate_loop tel p gs (mem(gf_ID g := False))
            in (mem', exitEvent tel g # out))
         else candidate_loop tel p gs mem)"

text \<open>The loop over all fences that finds the members the vehicle left for good.\<close>

fun leave_loop :: "telemetry \<Rightarrow> point \<Rightarrow> geofence list \<Rightarrow> (string \<Rightarrow> bool) \<Rightarrow> (string \<Rightarrow> bool) \<times> event list" where
  "leave_loop tel p [] mem = (mem, [])"
| "leave_loop tel p (g # gs) mem =
     (if \<not> mem (gf_ID g) then leave_loop tel p gs mem
      else let stillCandidate = (\<exists>c \<in> set (CandidateFilter [g] p). gf_ID c = gf_ID g)
      in if stillCandidate then leave_loop tel p gs mem
         else let (mem', out) = leave_loop tel p gs (mem(gf_ID g := False))
              in (mem', exitEvent tel g # out))"

definition Evaluate :: "telemetry \<Rightarrow> geo_tracker \<Rightarrow> geo_tracker \<times> event list" where
  "Evaluate tel tr =
     (let p = \<lparr>pt_Lat = loc_Lat (tel_Location tel), pt_Lng = loc_Lng (tel_Location tel)\<rparr>;
          mem = (case gt_members tr (tel_VehicleID tel) of None \<Rightarrow> (\<lambda>_. False) | Some mem \<Rightarrow> mem);
          (mem, out) = candidate_loop tel p (CandidateFilter (gt_fences tr) p) mem;
          (mem, out') = leave_loop tel p (gt_fences tr) mem
      in (tr\<lparr>gt_members := (gt_members tr)(tel_VehicleID tel \<mapsto> mem)\<rparr>, out @ out'))"

subsection \<open>The bounding box never loses a containing fence\<close>

definition finite_point :: "point \<Rightarrow> bool" where
  "finite_point v \<longleftrightarrow> (\<exists>a b. pt_Lat v = Fin a \<and> pt_Lng v = Fin b)"

lemma bbox_fold:
  assumes "\<forall>v \<in> set vs. finite_point v"
  shows "\<exists>a b c d. foldl bbox_step ((Fin a0, Fin b0), Fin c0, Fin d0) vs = ((Fin a, Fin b), Fin c, Fin d)
    \<and> a \<le> a0 \<and> b0 \<le> b \<and> c \<le> c0 \<and> d0 \<le> d
    \<and> (\<forall>v \<in> set vs. fle (Fin a) (pt_Lat v) \<and> fle (pt_Lat v) (Fin b) \<and> fle (Fin c) (pt_Lng v) \<and> fle (pt_Lng v) (Fin d))"
  using assms
proof (induction vs arbitrary: a0 b0 c0 d0)
  case Nil
  then show ?case by auto
next
  case (Cons v vs)
  obtain x y where v: "pt_Lat v = Fin x" "pt_Lng v = Fin y" using Cons.prems by (auto simp: finite_point_def)
  have "bbox_step ((Fin a0, Fin b0), Fin c0, Fin d0) v = ((Fin (min x a0), Fin (max b0 x)), Fin (min y c0), Fin (max d0 y))"
    by (simp add: bbox_step_def v min_def max_def)
  moreover obtain a b c d where "foldl bbox_step ((Fin (min x a0), Fin (max b0 x)), Fin (min y c0), Fin (max d0 y)) vs
      = ((Fin a, Fin b), Fin c, Fin d)" "a \<le> min x a0" "max b0 x \<le> b" "c \<le> min y c0" "max d0 y \<le> d"
      "\<forall>v \<in> set vs. fle (Fin a) (pt_Lat v) \<and> fle (pt_Lat v) (Fin b) \<and> fle (Fin c) (pt_Lng v) \<and> fle (pt_Lng v) (Fin d)"
    using Cons.IH [of "min x a0" "max b0 x" "min y c0" "max d0 y"] Cons.prems by auto
  ultimately show ?case by (auto simp: v)
qed

text \<open>
  A polygon point for which the rounded crossings stay within the longitudes of the polygon. It holds
  for every polygon whose edges run along the axes.
\<close>

fun edges_from :: "point list \<Rightarrow> point \<Rightarrow> (point \<times> point) list" where
  "edges_from [] vj = []"
| "edges_from (vi # vs) vj = (vi, vj) # edges_from vs vi"

definition edges :: "geofence \<Rightarrow> (point \<times> point) list" where
  "edges g = (if gf_Polygon g = [] then [] else edges_from (gf_Polygon g) (last (gf_Polygon g)))"

definition crossings_bounded :: "geofence \<Rightarrow> point \<Rightarrow> bool" where
  "crossings_bounded g p \<longleftrightarrow> (\<forall>(vi, vj) \<in> set (edges g). straddles p vi vj \<longrightarrow>
     (\<exists>a \<in> set (gf_Polygon g). \<exists>b \<in> set (gf_Polygon g).
        fle (pt_Lng a) (crossing_lng p vi vj) \<and> fle (crossing_lng p vi vj) (pt_Lng b)))"

text \<open>Ray casting counts the straddling edges whose crossing lies to the right.\<close>

lemma contains_loop_parity:
  "contains_loop p vs vj inside \<longleftrightarrow>
     (inside \<noteq> odd (length (filter (\<lambda>(vi, vj). straddles p vi vj \<and> flt (pt_Lng p) (crossing_lng p vi vj))
                          (edges_from vs vj))))"
  by (induction vs arbitrary: vj inside) auto

lemma straddle_parity:
  "odd (length (filter (\<lambda>(vi, vj). straddles p vi vj) (edges_from vs vj))) \<longleftrightarrow>
     (vs \<noteq> [] \<and> flt (pt_Lat p) (pt_Lat (last vs)) \<noteq> flt (pt_Lat p) (pt_Lat vj))"
  by (induction vs arbitrary: vj) (auto simp: straddles_def)

lemma edges_from_vertices: "(vi, vj) \<in> set (edges_from vs v0) \<Longrightarrow> vi \<in> set vs \<and> (vj = v0 \<or> vj \<in> set vs)"
  by (induction vs arbitrary: v0) auto

lemma edges_vertices: "(vi, vj) \<in> set (edges g) \<Longrightarrow> vi \<in> set (gf_Polygon g) \<and> vj \<in> set (gf_Polygon g)"
  by (auto simp: edges_def dest: edges_from_vertices split: if_splits)

lemma Contains_parity:
  "Contains g p \<longleftrightarrow> odd (length (filter (\<lambda>(vi, vj). straddles p vi vj \<and> flt (pt_Lng p) (crossing_lng p vi vj)) (edges g)))"
  by (simp add: Contains_def edges_def contains_loop_parity)

lemma straddles_even: "even (length (filter (\<lambda>(vi, vj). straddles p vi vj) (edges g)))"
  using straddle_parity [of p "gf_Polygon g" "last (gf_Polygon g)"] by (auto simp: edges_def)

lemma Contains_straddles:
  assumes "Contains g p"
  obtains vi vj where "(vi, vj) \<in> set (edges g)" "straddles p vi vj" "flt (pt_Lng p) (crossing_lng p vi vj)"
proof -
  have "filter (\<lambda>(vi, vj). straddles p vi vj \<and> flt (pt_Lng p) (crossing_lng p vi vj)) (edges g) \<noteq> []"
    using assms by (auto simp: Contains_parity)
  then show ?thesis using that by (auto simp: filter_empty_conv)
qed

text \<open>Not every straddling edge crosses to the right of a contained point: their number is even.\<close>

lemma Contains_left_crossing:
  assumes "Contains g p"
  obtains vi vj where "(vi, vj) \<in> set (edges g)" "straddles p vi vj" "\<not> flt (pt_Lng p) (crossing_lng p vi vj)"
proof -
  have "\<exists>e \<in> set (edges g). straddles p (fst e) (snd e) \<and> \<not> flt (pt_Lng p) (crossing_lng p (fst e) (snd e))"
  proof (rule ccontr)
    assume "\<not> ?thesis"
    then have "filter (\<lambda>(vi, vj). straddles p vi vj \<and> flt (pt_Lng p) (crossing_lng p vi vj)) (edges g)
        = filter (\<lambda>(vi, vj). straddles p vi vj) (edges g)"
      by (intro filter_cong) auto
    then show False using assms straddles_even [of p g] by (simp add: Contains_parity)
  qed
  then show ?thesis using that by auto
qed

lemma Contains_in_bbox:
  assumes "Contains g p" "finite_point p" "\<forall>v \<in> set (gf_Polygon g). finite_point v" "crossings_bounded g p"
  shows "in_bbox g p"
proof -
  obtain a b c d where box: "foldl bbox_step ((Fin 90, Fin (-90)), Fin 180, Fin (-180)) (gf_Polygon g) = ((Fin a, Fin b), Fin c, Fin d)"
    and vs: "\<And>v. v \<in> set (gf_Polygon g) \<Longrightarrow>
      fle (Fin a) (pt_Lat v) \<and> fle (pt_Lat v) (Fin b) \<and> fle (Fin c) (pt_Lng v) \<and> fle (pt_Lng v) (Fin d)"
    using bbox_fold [OF assms(3), of 90 "-90" 180 "-180"] by blast
  obtain x y where p: "pt_Lat p = Fin x" "pt_Lng p = Fin y" using assms(2) by (auto simp: finite_point_def)
  obtain vi vj where r: "(vi, vj) \<in> set (edges g)" "straddles p vi vj" "flt (Fin y) (crossing_lng p vi vj)"
    using Contains_straddles [OF assms(1)] p by metis
  obtain wi wj where l: "(wi, wj) \<in> set (edges g)" "straddles p wi wj" "\<not> flt (Fin y) (crossing_lng p wi wj)"
    using Contains_left_crossing [OF assms(1)] p by metis
  obtain e f where ef: "pt_Lat vi = Fin e" "pt_Lat vj = Fin f" "vi \<in> set (gf_Polygon g)" "vj \<in> set (gf_Polygon g)"
    using edges_vertices [OF r(1)] assms(3) unfolding finite_point_def by metis
  have "a \<le> x" "x \<le> b"
    using r(2) vs [OF ef(3)] vs [OF ef(4)] ef(1,2) p by (auto simp: straddles_def)
  moreover obtain m where "m \<in> set (gf_Polygon g)" "fle (crossing_lng p vi vj) (pt_Lng m)"
    using assms(4) r(1,2) by (auto simp: crossings_bounded_def)
  then have "y \<le> d" using r(3) vs [of m] by (meson fle_Fin flt_fle_trans flt_imp_fle)
  moreover obtain n where n: "n \<in> set (gf_Polygon g)" "fle (pt_Lng n) (crossing_lng p wi wj)"
    using assms(4) l(1,2) by (auto simp: crossings_bounded_def)
  then have "fle (crossing_lng p wi wj) (Fin y)"
    using l(3) fle_not_NaN [OF n(2)] not_flt_fle [of "Fin y" "crossing_lng p wi wj"] by simp
  then have "c \<le> y"
    using vs [OF n(1)] n(2) fle_trans [of "Fin c" "pt_Lng n"] fle_trans [of "Fin c" _ "Fin y"] by fastforce
  ultimately show ?thesis by (simp add: in_bbox_def box p)
qed

text \<open>Fences whose edges run along the axes, with float64 coordinates in the usual ranges.\<close>

definition coordinate :: "float64 \<Rightarrow> bool" where
  "coordinate x \<longleftrightarrow> (\<exists>r. x = Fin r \<and> representable r \<and> \<bar>r\<bar> \<le> 180)"

definition axis_fence :: "geofence \<Rightarrow> bool" where
  "axis_fence g \<longleftrightarrow> (\<forall>v \<in> set (gf_Polygon g). coordinate (pt_Lat v) \<and> coordinate (pt_Lng v))
     \<and> (\<forall>(vi, vj) \<in> set (edges g). pt_Lat vi = pt_Lat vj \<or> pt_Lng vi = pt_Lng vj)"

lemma representable_multiple:
  assumes "representable r" and q: "q = - 1074"
  obtains k where "r = of_int k * 2 powi q"
proof -
  obtain m e where r: "r = of_int m * 2 powi e" "q \<le> e" using assms by (auto simp: representable_def)
  have "(2 :: rat) ^ nat (e - q) * 2 powi q = 2 powi (e - q) * 2 powi q"
    using r(2) by (simp add: power_int_def)
  also have "\<dots> = 2 powi e"
    using power_int_add [of "2 :: rat" "e - q" q] by simp
  finally have "(2 :: rat) ^ nat (e - q) * 2 powi q = 2 powi e" .
  with r have "r = of_int (m * 2 ^ nat (e - q)) * 2 powi q" by (simp add: mult.assoc)
  then show ?thesis by (rule that)
qed

lemma smallest_float:
  assumes "q = - 1074"
  shows "representable (2 powi q)" "representable (- (2 powi q))" "(2 :: rat) powi q \<le> 1"
proof -
  show "representable (2 powi q)" using assms by (intro representableI [of _ 1 q]) simp_all
  then show "representable (- (2 powi q))" by (rule representable_minus)
  have "(2 :: rat) powi q \<le> 2 powi 0" using assms by (intro power_int_increasing) auto
  then show "(2 :: rat) powi q \<le> 1" by simp
qed

text \<open>The rounded difference of two different floats is a nonzero float.\<close>

lemma rnd_diff_nonzero:
  assumes "representable a" "representable b" "a \<noteq> b" "\<bar>a\<bar> \<le> 180" "\<bar>b\<bar> \<le> 180"
  obtains d where "rnd (a - b) = Fin d" "d \<noteq> 0"
proof -
  obtain q :: int where q: "q = - 1074" by blast
  define u :: rat where "u = 2 powi q"
  have u: "0 < u" "u \<le> 1" "representable u" "representable (- u)"
    using smallest_float [OF q] by (simp_all add: u_def)
  obtain k l where k: "a = of_int k * u" and l: "b = of_int l * u"
    using assms(1,2) q by (metis representable_multiple u_def)
  have small: "\<bar>u\<bar> < 2 ^ 1024" "\<bar>- u\<bar> < 2 ^ 1024" "\<bar>360 :: rat\<bar> < 2 ^ 1024" "\<bar>- 360 :: rat\<bar> < 2 ^ 1024"
    using u by (auto intro!: pow1024_big)
  have i: "representable 360" "representable (- 360)"
    using representable_of_int [of 360] representable_of_int [of "-360"] by simp_all
  have d: "a - b = of_int (k - l) * u" by (simp add: k l algebra_simps)
  show ?thesis
  proof (cases "l < k")
    case True
    then have "(1 :: rat) \<le> of_int (k - l)" by linarith
    then have "u \<le> a - b" using mult_right_mono [of 1 "of_int (k - l)" u] u(1) d by simp
    moreover have "a - b \<le> 360" using assms(4,5) by linarith
    ultimately obtain y where "rnd (a - b) = Fin y" "u \<le> y"
      using rnd_between [OF u(3) small(1) i(1) small(3)] by blast
    then show ?thesis using that u(1) by fastforce
  next
    case False
    moreover have "k \<noteq> l" using assms(3) k l by auto
    ultimately have "of_int (k - l) \<le> (- 1 :: rat)" by linarith
    then have "a - b \<le> - u" using mult_right_mono [of "of_int (k - l)" "- 1" u] u(1) d by simp
    moreover have "- 360 \<le> a - b" using assms(4,5) by linarith
    ultimately obtain y where "rnd (a - b) = Fin y" "y \<le> - u"
      using rnd_between [OF i(2) small(4) u(4) small(2)] by blast
    then show ?thesis using that u(1) by fastforce
  qed
qed

lemma crossing_vertical:
  assumes "coordinate (pt_Lat vi)" "coordinate (pt_Lat vj)" "coordinate (pt_Lng vi)" "coordinate (pt_Lat p)"
    and "pt_Lng vi = pt_Lng vj" "pt_Lat vi \<noteq> pt_Lat vj"
  shows "crossing_lng p vi vj = pt_Lng vi"
proof -
  obtain yi yj x y where c: "pt_Lat vi = Fin yi" "pt_Lat vj = Fin yj" "pt_Lng vi = Fin x" "pt_Lat p = Fin y"
    "representable yi" "representable yj" "representable x" "representable y"
    "\<bar>yi\<bar> \<le> 180" "\<bar>yj\<bar> \<le> 180" "\<bar>x\<bar> \<le> 180" "\<bar>y\<bar> \<le> 180"
    using assms(1-4) by (auto simp: coordinate_def)
  obtain d where d: "rnd (yj - yi) = Fin d" "d \<noteq> 0"
    using rnd_diff_nonzero [of yj yi] c assms(6) by auto
  obtain e where e: "rnd (y - yi) = Fin e"
    using rnd_diff_nonzero [of y yi] rnd_0 c by (metis right_minus_eq)
  have "rnd x = Fin x" using c by (intro rnd_representable pow1024_big) auto
  moreover have "pt_Lng vj = Fin x" using assms(5) c(3) by simp
  ultimately show ?thesis using c(1-4) d e by (simp add: crossing_lng_def fsub_def fneg_def)
qed

lemma axis_fence_bounded:
  assumes "axis_fence g" "coordinate (pt_Lat p)"
  shows "crossings_bounded g p" "\<forall>v \<in> set (gf_Polygon g). finite_point v"
proof -
  have "fle (pt_Lng vi) (crossing_lng p vi vj) \<and> fle (crossing_lng p vi vj) (pt_Lng vi) \<and> vi \<in> set (gf_Polygon g)"
    if "(vi, vj) \<in> set (edges g)" "straddles p vi vj" for vi vj
  proof -
    have v: "vi \<in> set (gf_Polygon g)" "vj \<in> set (gf_Polygon g)" using edges_vertices [OF that(1)] by auto
    then have "coordinate (pt_Lat vi)" "coordinate (pt_Lat vj)" "coordinate (pt_Lng vi)"
      "pt_Lat vi \<noteq> pt_Lat vj" "pt_Lng vi = pt_Lng vj"
      using assms(1) that by (auto simp: axis_fence_def straddles_def)
    with crossing_vertical [of vi vj p] assms(2) v show ?thesis by (auto simp: coordinate_def)
  qed
  then show "crossings_bounded g p" unfolding crossings_bounded_def by blast
  show "\<forall>v \<in> set (gf_Polygon g). finite_point v"
    using assms(1) by (fastforce simp: axis_fence_def coordinate_def finite_point_def)
qed

subsection \<open>Membership and its events\<close>

text \<open>The enter and exit events of one vehicle and fence, as booleans; they must alternate.\<close>

fun toggles :: "bool \<Rightarrow> bool list \<Rightarrow> bool option" where
  "toggles on [] = Some on"
| "toggles on (b # bs) = (if b = on then None else toggles b bs)"

definition fence_stream :: "string \<Rightarrow> string \<Rightarrow> event list \<Rightarrow> bool list" where
  "fence_stream v f es = map (\<lambda>e. ev_Type e = ''vehicle.geofence.entered'')
     (filter (\<lambda>e. ev_VehicleID e = v \<and> map_of (ev_Payload e) ''geofenceId'' = Some (JStr f)) es)"

definition member :: "geo_tracker \<Rightarrow> string \<Rightarrow> string \<Rightarrow> bool" where
  "member tr v f = (case gt_members tr v of None \<Rightarrow> False | Some mem \<Rightarrow> mem f)"

lemma toggles_append: "toggles on bs = Some on' \<Longrightarrow> toggles on (bs @ bs') = toggles on' bs'"
  by (induction on bs rule: toggles.induct) (auto split: if_splits)

lemma fence_stream_simps [simp]:
  "fence_stream v f [] = []" "fence_stream v f (es @ es') = fence_stream v f es @ fence_stream v f es'"
  "fence_stream v f (fence_event ty tel g # es) =
     (if tel_VehicleID tel = v \<and> gf_ID g = f then (ty = ''vehicle.geofence.entered'') # fence_stream v f es
      else fence_stream v f es)"
  by (simp_all add: fence_stream_def fence_event_def)

lemma candidate_loop_Cons:
  assumes "candidate_loop tel p (g # gs) mem = (mem', out)"
  obtains out' where "candidate_loop tel p gs (mem(gf_ID g := Contains g p)) = (mem', out')"
    and "out = (if Contains g p = mem (gf_ID g) then [] else [fence_event (if Contains g p then ''vehicle.geofence.entered'' else ''vehicle.geofence.exited'') tel g]) @ out'"
proof (cases "Contains g p = mem (gf_ID g)")
  case True
  then have "mem(gf_ID g := Contains g p) = mem" by (auto simp: fun_eq_iff)
  with True assms that show ?thesis by (auto simp: Let_def split: if_splits)
next
  case False
  with assms that show ?thesis
    by (cases "Contains g p") (auto simp: Let_def exitEvent_def split: prod.splits)
qed

lemma leave_loop_Cons:
  assumes "leave_loop tel p (g # gs) mem = (mem', out)"
  obtains out' where "leave_loop tel p gs (mem(gf_ID g := mem (gf_ID g) \<and> in_bbox g p)) = (mem', out')"
    and "out = (if mem (gf_ID g) \<and> \<not> in_bbox g p then [exitEvent tel g] else []) @ out'"
proof (cases "mem (gf_ID g) \<and> \<not> in_bbox g p")
  case True
  with assms that show ?thesis by (auto simp: Let_def CandidateFilter_def split: prod.splits)
next
  case False
  then have "mem(gf_ID g := mem (gf_ID g) \<and> in_bbox g p) = mem" by (auto simp: fun_eq_iff)
  with False assms that show ?thesis by (auto simp: Let_def CandidateFilter_def split: if_splits)
qed

lemma candidate_loop_toggles:
  "candidate_loop tel p gs mem = (mem', out) \<Longrightarrow>
     toggles (mem f) (fence_stream (tel_VehicleID tel) f out) = Some (mem' f)
     \<and> (v \<noteq> tel_VehicleID tel \<longrightarrow> fence_stream v f out = [])"
proof (induction gs arbitrary: mem out)
  case (Cons g gs)
  from Cons.prems obtain out' where *: "candidate_loop tel p gs (mem(gf_ID g := Contains g p)) = (mem', out')"
    "out = (if Contains g p = mem (gf_ID g) then [] else [fence_event (if Contains g p then ''vehicle.geofence.entered'' else ''vehicle.geofence.exited'') tel g]) @ out'"
    by (rule candidate_loop_Cons)
  from Cons.IH [OF *(1)] *(2) show ?case by (auto simp: exitEvent_def split: if_splits)
qed simp

lemma candidate_loop_other:
  "candidate_loop tel p gs mem = (mem', out) \<Longrightarrow> f \<notin> gf_ID ` set gs \<Longrightarrow> fence_stream v f out = []"
proof (induction gs arbitrary: mem out)
  case (Cons g gs)
  from Cons.prems(1) obtain out' where *: "candidate_loop tel p gs (mem(gf_ID g := Contains g p)) = (mem', out')"
    "out = (if Contains g p = mem (gf_ID g) then [] else [fence_event (if Contains g p then ''vehicle.geofence.entered'' else ''vehicle.geofence.exited'') tel g]) @ out'"
    by (rule candidate_loop_Cons)
  from Cons.IH [OF *(1)] *(2) Cons.prems(2) show ?case by (auto simp: exitEvent_def)
qed simp

lemma candidate_loop_once:
  "candidate_loop tel p gs mem = (mem', out) \<Longrightarrow> distinct (map gf_ID gs) \<Longrightarrow> length (fence_stream v f out) \<le> 1"
proof (induction gs arbitrary: mem out)
  case (Cons g gs)
  from Cons.prems(1) obtain out' where *: "candidate_loop tel p gs (mem(gf_ID g := Contains g p)) = (mem', out')"
    "out = (if Contains g p = mem (gf_ID g) then [] else [fence_event (if Contains g p then ''vehicle.geofence.entered'' else ''vehicle.geofence.exited'') tel g]) @ out'"
    by (rule candidate_loop_Cons)
  from Cons.IH [OF *(1)] candidate_loop_other [OF *(1), of "gf_ID g" v] *(2) Cons.prems(2) show ?case
    by (cases "f = gf_ID g") (auto simp: exitEvent_def)
qed simp

lemma candidate_loop_mem:
  "candidate_loop tel p gs mem = (mem', out) \<Longrightarrow> distinct (map gf_ID gs) \<Longrightarrow>
     (\<forall>g \<in> set gs. mem' (gf_ID g) = (Contains g p)) \<and> (\<forall>f. f \<notin> gf_ID ` set gs \<longrightarrow> mem' f = mem f)"
proof (induction gs arbitrary: mem out)
  case (Cons g gs)
  from Cons.prems(1) obtain out' where *: "candidate_loop tel p gs (mem(gf_ID g := Contains g p)) = (mem', out')"
    by (rule candidate_loop_Cons)
  from Cons.IH [OF *] Cons.prems(2) show ?case by (auto simp: image_iff)
qed simp

lemma leave_loop_toggles:
  "leave_loop tel p gs mem = (mem', out) \<Longrightarrow>
     toggles (mem f) (fence_stream (tel_VehicleID tel) f out) = Some (mem' f)
     \<and> (v \<noteq> tel_VehicleID tel \<longrightarrow> fence_stream v f out = [])"
proof (induction gs arbitrary: mem out)
  case (Cons g gs)
  from Cons.prems obtain out' where *: "leave_loop tel p gs (mem(gf_ID g := mem (gf_ID g) \<and> in_bbox g p)) = (mem', out')"
    "out = (if mem (gf_ID g) \<and> \<not> in_bbox g p then [exitEvent tel g] else []) @ out'"
    by (rule leave_loop_Cons)
  from Cons.IH [OF *(1)] *(2) show ?case by (auto simp: exitEvent_def split: if_splits)
qed simp

lemma leave_loop_other:
  "leave_loop tel p gs mem = (mem', out) \<Longrightarrow> f \<notin> gf_ID ` set gs \<Longrightarrow> fence_stream v f out = []"
proof (induction gs arbitrary: mem out)
  case (Cons g gs)
  from Cons.prems(1) obtain out' where *: "leave_loop tel p gs (mem(gf_ID g := mem (gf_ID g) \<and> in_bbox g p)) = (mem', out')"
    "out = (if mem (gf_ID g) \<and> \<not> in_bbox g p then [exitEvent tel g] else []) @ out'"
    by (rule leave_loop_Cons)
  from Cons.IH [OF *(1)] *(2) Cons.prems(2) show ?case by (auto simp: exitEvent_def)
qed simp

lemma leave_loop_once:
  "leave_loop tel p gs mem = (mem', out) \<Longrightarrow> distinct (map gf_ID gs) \<Longrightarrow> length (fence_stream v f out) \<le> 1"
proof (induction gs arbitrary: mem out)
  case (Cons g gs)
  from Cons.prems(1) obtain out' where *: "leave_loop tel p gs (mem(gf_ID g := mem (gf_ID g) \<and> in_bbox g p)) = (mem', out')"
    "out = (if mem (gf_ID g) \<and> \<not> in_bbox g p then [exitEvent tel g] else []) @ out'"
    by (rule leave_loop_Cons)
  from Cons.IH [OF *(1)] leave_loop_other [OF *(1), of "gf_ID g" v] *(2) Cons.prems(2) show ?case
    by (cases "f = gf_ID g") (auto simp: exitEvent_def)
qed simp

lemma leave_loop_mem:
  "leave_loop tel p gs mem = (mem', out) \<Longrightarrow> distinct (map gf_ID gs) \<Longrightarrow>
     (\<forall>g \<in> set gs. mem' (gf_ID g) = (mem (gf_ID g) \<and> in_bbox g p)) \<and> (\<forall>f. f \<notin> gf_ID ` set gs \<longrightarrow> mem' f = mem f)"
proof (induction gs arbitrary: mem out)
  case (Cons g gs)
  from Cons.prems(1) obtain out' where *: "leave_loop tel p gs (mem(gf_ID g := mem (gf_ID g) \<and> in_bbox g p)) = (mem', out')"
    by (rule leave_loop_Cons)
  from Cons.IH [OF *] Cons.prems(2) show ?case by (auto simp: image_iff)
qed simp

lemma leave_loop_candidate:
  "leave_loop tel p gs mem = (mem', out) \<Longrightarrow> \<forall>g \<in> set gs. gf_ID g = f \<longrightarrow> in_bbox g p \<Longrightarrow> fence_stream v f out = []"
proof (induction gs arbitrary: mem out)
  case (Cons g gs)
  from Cons.prems(1) obtain out' where *: "leave_loop tel p gs (mem(gf_ID g := mem (gf_ID g) \<and> in_bbox g p)) = (mem', out')"
    "out = (if mem (gf_ID g) \<and> \<not> in_bbox g p then [exitEvent tel g] else []) @ out'"
    by (rule leave_loop_Cons)
  from Cons.IH [OF *(1)] *(2) Cons.prems(2) show ?case by (auto simp: exitEvent_def)
qed simp

lemma toggles_short: "toggles a bs = Some b \<Longrightarrow> length bs \<le> 1 \<Longrightarrow> bs = (if a = b then [] else [b])"
  by (cases bs) (auto split: if_splits)

lemma Evaluate_fences [simp]: "gt_fences (fst (Evaluate tel tr)) = gt_fences tr"
  by (simp add: Evaluate_def Let_def split: prod.split)

lemma Evaluate_toggles:
  "toggles (member tr v f) (fence_stream v f (snd (Evaluate tel tr))) = Some (member (fst (Evaluate tel tr)) v f)"
proof -
  let ?p = "\<lparr>pt_Lat = loc_Lat (tel_Location tel), pt_Lng = loc_Lng (tel_Location tel)\<rparr>"
  obtain m1 out1 where c: "candidate_loop tel ?p (CandidateFilter (gt_fences tr) ?p) (member tr (tel_VehicleID tel)) = (m1, out1)"
    by fastforce
  obtain m2 out2 where l: "leave_loop tel ?p (gt_fences tr) m1 = (m2, out2)" by fastforce
  have mem: "(case gt_members tr w of None \<Rightarrow> (\<lambda>_. False) | Some mem \<Rightarrow> mem) = member tr w" for w
    by (auto simp: member_def fun_eq_iff split: option.split)
  show ?thesis
    using candidate_loop_toggles [OF c] leave_loop_toggles [OF l] toggles_append
    by (cases "v = tel_VehicleID tel") (simp_all add: Evaluate_def mem c l member_def)
qed

text \<open>A run of the tracker: fence updates and telemetry points in any order.\<close>

fun geo_run :: "(geofence list + telemetry) list \<Rightarrow> geo_tracker \<Rightarrow> geo_tracker \<times> event list" where
  "geo_run [] tr = (tr, [])"
| "geo_run (Inl fences # as) tr = geo_run as (SetFences fences tr)"
| "geo_run (Inr tel # as) tr =
     (let (tr', out) = Evaluate tel tr; (tr'', outs) = geo_run as tr' in (tr'', out @ outs))"

lemma geo_run_toggles:
  "toggles (member tr v f) (fence_stream v f (snd (geo_run as tr))) = Some (member (fst (geo_run as tr)) v f)"
proof (induction as arbitrary: tr)
  case Nil
  then show ?case by simp
next
  case (Cons a as)
  show ?case
  proof (cases a)
    case (Inl fences)
    then show ?thesis using Cons [of "SetFences fences tr"] by (simp add: SetFences_def member_def)
  next
    case (Inr tel)
    then show ?thesis
      using Cons [of "fst (Evaluate tel tr)"] toggles_append [OF Evaluate_toggles]
      by (simp add: case_prod_beta Let_def)
  qed
qed

text \<open>Every event of the tracker belongs to the point and has a transition type.\<close>

lemma loops_events:
  "candidate_loop tel p gs mem = (mem', out) \<Longrightarrow> e \<in> set out \<Longrightarrow>
     \<exists>ty g. e = fence_event ty tel g \<and> ty \<in> {''vehicle.geofence.entered'', ''vehicle.geofence.exited''}"
  "leave_loop tel p gs mem = (mem', out) \<Longrightarrow> e \<in> set out \<Longrightarrow>
     \<exists>ty g. e = fence_event ty tel g \<and> ty \<in> {''vehicle.geofence.entered'', ''vehicle.geofence.exited''}"
proof -
  show "candidate_loop tel p gs mem = (mem', out) \<Longrightarrow> e \<in> set out \<Longrightarrow>
     \<exists>ty g. e = fence_event ty tel g \<and> ty \<in> {''vehicle.geofence.entered'', ''vehicle.geofence.exited''}"
  proof (induction gs arbitrary: mem out)
    case (Cons g gs)
    from Cons.prems(1) show ?case by (rule candidate_loop_Cons) (use Cons in \<open>auto split: if_splits\<close>)
  qed simp
  show "leave_loop tel p gs mem = (mem', out) \<Longrightarrow> e \<in> set out \<Longrightarrow>
     \<exists>ty g. e = fence_event ty tel g \<and> ty \<in> {''vehicle.geofence.entered'', ''vehicle.geofence.exited''}"
  proof (induction gs arbitrary: mem out)
    case (Cons g gs)
    from Cons.prems(1) show ?case by (rule leave_loop_Cons) (use Cons in \<open>auto simp: exitEvent_def split: if_splits\<close>)
  qed simp
qed

lemma Evaluate_events:
  assumes "e \<in> set (snd (Evaluate tel tr))"
  shows "\<exists>ty g. e = fence_event ty tel g \<and> transition_type ty"
proof -
  obtain ty g where "e = fence_event ty tel g" "ty \<in> {''vehicle.geofence.entered'', ''vehicle.geofence.exited''}"
    using assms loops_events unfolding Evaluate_def Let_def by (auto split: prod.splits) blast+
  then show ?thesis by auto
qed

lemma fence_event_valid:
  assumes "telemetry_Validate tel = None" "transition_type ty"
  shows "event_Validate (fence_event ty tel g) = None \<longleftrightarrow> md_CorrelationID (tel_Metadata tel) \<noteq> []"
  using assms by (auto simp: event_Validate_ok_iff fence_event_def telemetry_Validate_ok_iff)

definition position :: "telemetry \<Rightarrow> point" where
  "position tel = \<lparr>pt_Lat = loc_Lat (tel_Location tel), pt_Lng = loc_Lng (tel_Location tel)\<rparr>"

lemma Evaluate_member:
  assumes "distinct (map gf_ID (gt_fences tr))" "g \<in> set (gt_fences tr)"
  shows "member (fst (Evaluate tel tr)) (tel_VehicleID tel) (gf_ID g) \<longleftrightarrow>
    in_bbox g (position tel) \<and> Contains g (position tel)"
proof -
  let ?p = "position tel"
  obtain mem where mem: "mem = (case gt_members tr (tel_VehicleID tel) of None \<Rightarrow> (\<lambda>_. False) | Some mem \<Rightarrow> mem)" by blast
  obtain m1 out1 where c: "candidate_loop tel ?p (CandidateFilter (gt_fences tr) ?p) mem = (m1, out1)" by fastforce
  obtain m2 out2 where l: "leave_loop tel ?p (gt_fences tr) m1 = (m2, out2)" by fastforce
  have "distinct (map gf_ID (CandidateFilter (gt_fences tr) ?p))"
    using assms(1) by (simp add: CandidateFilter_def distinct_map_filter)
  from candidate_loop_mem [OF c this] assms(2)
  have "in_bbox g ?p \<Longrightarrow> m1 (gf_ID g) = Contains g ?p" by (simp add: CandidateFilter_def)
  moreover have "m2 (gf_ID g) \<longleftrightarrow> m1 (gf_ID g) \<and> in_bbox g ?p"
    using leave_loop_mem [OF l assms(1)] assms(2) by blast
  moreover have "member (fst (Evaluate tel tr)) (tel_VehicleID tel) = m2"
    using c l by (simp add: Evaluate_def mem [symmetric] position_def [symmetric] member_def fun_eq_iff)
  ultimately show ?thesis by auto
qed

lemma Evaluate_once:
  assumes "distinct (map gf_ID (gt_fences tr))" "g \<in> set (gt_fences tr)"
  shows "length (fence_stream v (gf_ID g) (snd (Evaluate tel tr))) \<le> 1"
proof -
  let ?p = "position tel"
  obtain mem where mem: "mem = (case gt_members tr (tel_VehicleID tel) of None \<Rightarrow> (\<lambda>_. False) | Some mem \<Rightarrow> mem)" by blast
  obtain m1 out1 where c: "candidate_loop tel ?p (CandidateFilter (gt_fences tr) ?p) mem = (m1, out1)" by fastforce
  obtain m2 out2 where l: "leave_loop tel ?p (gt_fences tr) m1 = (m2, out2)" by fastforce
  have ids: "h = g" if "h \<in> set (gt_fences tr)" "gf_ID h = gf_ID g" for h
    using assms that by (metis distinct_map inj_onD)
  have d: "distinct (map gf_ID (CandidateFilter (gt_fences tr) ?p))"
    using assms(1) by (simp add: CandidateFilter_def distinct_map_filter)
  have "length (fence_stream v (gf_ID g) (out1 @ out2)) \<le> 1"
  proof (cases "in_bbox g ?p")
    case True
    then have "fence_stream v (gf_ID g) out2 = []" using ids by (intro leave_loop_candidate [OF l]) auto
    then show ?thesis using candidate_loop_once [OF c d] by simp
  next
    case False
    then have "gf_ID g \<notin> gf_ID ` set (CandidateFilter (gt_fences tr) ?p)"
      by (auto simp: CandidateFilter_def dest: ids)
    then show ?thesis using candidate_loop_other [OF c] leave_loop_once [OF l assms(1)] by simp
  qed
  then show ?thesis using c l by (simp add: Evaluate_def mem [symmetric] position_def [symmetric])
qed

subsection \<open>Properties\<close>

text \<open>Enter and exit events alternate. Whatever fences are configured and whatever points arrive, in
  any order, every vehicle and fence id sees an entered event first, then exited and entered events in
  turn, and the last one tells the membership the tracker holds.\<close>

lemma fence_events_alternate:
  "toggles False (fence_stream v f (snd (geo_run as (NewGeoTracker fences))))
     = Some (member (fst (geo_run as (NewGeoTracker fences))) v f)"
  using geo_run_toggles [of "NewGeoTracker fences" v f as] by (simp add: NewGeoTracker_def member_def)


definition sample_square :: geofence where
  "sample_square = \<lparr>gf_ID = ''f'', gf_TenantID = ''t'', gf_Name = ''yard'',
     gf_Polygon = [\<lparr>pt_Lat = Fin (-1), pt_Lng = Fin (-1)\<rparr>, \<lparr>pt_Lat = Fin (-1), pt_Lng = Fin 1\<rparr>,
                   \<lparr>pt_Lat = Fin 1, pt_Lng = Fin 1\<rparr>, \<lparr>pt_Lat = Fin 1, pt_Lng = Fin (-1)\<rparr>]\<rparr>"

lemma sample_square_axis: "axis_fence sample_square" "coordinate (Fin 0)"
proof -
  have "coordinate (Fin 1)" "coordinate (Fin (-1))" "coordinate (Fin 0)"
    using representable_of_int [of 1] representable_of_int [of "-1"] representable_of_int [of 0]
    by (simp_all add: coordinate_def)
  then show "axis_fence sample_square" "coordinate (Fin 0)"
    by (simp_all add: axis_fence_def sample_square_def edges_def)
qed


end
