(* ===== verification/Eventbus.thy ===== *)
theory Eventbus
  imports Events
begin

section \<open>The event bus (internal/eventbus)\<close>

text \<open>
  \<open>MemoryBus\<close>, \<open>NATSBus\<close>, \<open>FanOut\<close>, \<open>ResilientBus\<close> and the subscription loop. A bus operation takes an
  event and a state and returns the error, if any, with the state afterwards. The NATS client is not part
  of the sources: connecting and publishing on a connection are arguments. The locale \<open>event_bus\<close> is the
  contract of the interface \<open>Bus\<close> that the pipeline relies on; \<open>MemoryBus\<close> interprets it.
\<close>

subsection \<open>MemoryBus\<close>

type_synonym memory_bus = "event list"

definition MemoryBus_Publish :: "event \<Rightarrow> memory_bus \<Rightarrow> go_error option \<times> memory_bus" where
  "MemoryBus_Publish e m =
     (case event_Validate e of Some err \<Rightarrow> (Some err, m) | None \<Rightarrow> (None, m @ [e]))"

definition MemoryBus_Reset :: "memory_bus \<Rightarrow> memory_bus" where
  "MemoryBus_Reset m = []"

definition MemoryBus_Snapshot :: "memory_bus \<Rightarrow> event list" where
  "MemoryBus_Snapshot m = [] @ m"

subsection \<open>NATSBus\<close>

text \<open>
  \<open>marshal\<close> stands for \<open>json.Marshal\<close> of an event and \<open>nc_publish\<close> for \<open>Publish\<close> of the connection, with
  the subject and the message.
\<close>

definition NATSBus_Publish ::
  "(event \<Rightarrow> go_error + string) \<Rightarrow> (string \<Rightarrow> string \<Rightarrow> 'n \<Rightarrow> go_error option \<times> 'n) \<Rightarrow> event \<Rightarrow> 'n
    \<Rightarrow> go_error option \<times> 'n" where
  "NATSBus_Publish marshal nc_publish e n =
     (case event_Validate e of
        Some err \<Rightarrow> (Some err, n)
      | None \<Rightarrow>
          (case marshal e of
             Inl err \<Rightarrow> (Some err, n)
           | Inr raw \<Rightarrow> nc_publish (Subject e) raw n))"

subsection \<open>FanOut\<close>

fun fanout_loop :: "(event \<Rightarrow> 's \<Rightarrow> go_error option \<times> 's) list \<Rightarrow> event \<Rightarrow> go_error option \<Rightarrow> 's \<Rightarrow> go_error option \<times> 's" where
  "fanout_loop [] e first s = (first, s)"
| "fanout_loop (c # cs) e first s =
     (let (err, s') = c e s
      in fanout_loop cs e (if err \<noteq> None \<and> first = None then err else first) s')"

definition FanOut_Publish :: "(event \<Rightarrow> 's \<Rightarrow> go_error option \<times> 's) list \<Rightarrow> event \<Rightarrow> 's \<Rightarrow> go_error option \<times> 's" where
  "FanOut_Publish children e s = fanout_loop children e None s"

subsection \<open>ResilientBus\<close>

text \<open>
  The wrapped bus is a handle of type \<open>'b\<close>; \<open>pub\<close>, \<open>dial\<close> and \<open>close\<close> act on the outside world \<open>'w\<close>
  (\<open>close\<close> leaves it alone for a handle without a method Close). \<open>now\<close> is the clock reading of \<open>fail\<close>.
\<close>

record 'b resilient_bus =
  rb_bus :: 'b
  rb_lastErr :: time
  rb_lastMsg :: string

definition NewResilientBus :: "'b \<Rightarrow> 'b resilient_bus" where
  "NewResilientBus initial = \<lparr>rb_bus = initial, rb_lastErr = 0, rb_lastMsg = []\<rparr>"

definition rb_fail :: "time \<Rightarrow> go_error \<Rightarrow> 'b resilient_bus \<Rightarrow> go_error option \<times> 'b resilient_bus" where
  "rb_fail now err r = (Some err, r\<lparr>rb_lastErr := now, rb_lastMsg := err\<rparr>)"

definition LastError :: "'b resilient_bus \<Rightarrow> time \<times> string" where
  "LastError r = (rb_lastErr r, rb_lastMsg r)"

definition ResilientBus_Publish ::
  "('b \<Rightarrow> event \<Rightarrow> 'w \<Rightarrow> go_error option \<times> 'w) \<Rightarrow> ('w \<Rightarrow> (go_error + 'b) \<times> 'w) \<Rightarrow> ('b \<Rightarrow> 'w \<Rightarrow> 'w) \<Rightarrow> time
    \<Rightarrow> event \<Rightarrow> 'b resilient_bus \<Rightarrow> 'w \<Rightarrow> (go_error option \<times> 'b resilient_bus) \<times> 'w" where
  "ResilientBus_Publish pub dial close now e r w =
     (case pub (rb_bus r) e w of
        (None, w) \<Rightarrow> ((None, r), w)
      | (Some _, w) \<Rightarrow>
          (case dial w of
             (Inl derr, w) \<Rightarrow> (rb_fail now derr r, w)
           | (Inr nb, w) \<Rightarrow>
               (let w = close (rb_bus r) w; r = r\<lparr>rb_bus := nb\<rparr>
                in case pub nb e w of
                     (Some err, w) \<Rightarrow> (rb_fail now err r, w)
                   | (None, w) \<Rightarrow> ((None, r), w))))"

subsection \<open>SubscribeResilient\<close>

text \<open>
  The goroutine of \<open>SubscribeResilient\<close> as a machine: what it waits for, what it may observe, and the
  next phase. A failed dial waits for the current backoff and then doubles it while it is below 30 s.
\<close>

datatype sub_phase = Dialing duration | Subscribed | Unsubscribed

datatype sub_input = CtxDone | ConnectFailed | SubscribeFailed | SubscribeOk | Tick bool

fun sub_step :: "sub_phase \<Rightarrow> sub_input \<Rightarrow> sub_phase" where
  "sub_step (Dialing backoff) CtxDone = Unsubscribed"
| "sub_step (Dialing backoff) ConnectFailed = Dialing (if backoff < 30 * Second then backoff * 2 else backoff)"
| "sub_step (Dialing backoff) SubscribeFailed = Dialing Second"
| "sub_step (Dialing backoff) SubscribeOk = Subscribed"
| "sub_step (Dialing backoff) (Tick _) = Dialing backoff"
| "sub_step Subscribed CtxDone = Unsubscribed"
| "sub_step Subscribed (Tick alive) = (if alive then Subscribed else Dialing Second)"
| "sub_step Subscribed _ = Subscribed"
| "sub_step Unsubscribed _ = Unsubscribed"

definition SubscribeResilient :: "sub_input list \<Rightarrow> sub_phase" where
  "SubscribeResilient inputs = foldl sub_step (Dialing Second) inputs"

subsection \<open>The contract of a bus\<close>

text \<open>Publishing a list of events in order and stopping at the first failure, as the pipeline does.\<close>

fun publish_all :: "(event \<Rightarrow> 'b \<Rightarrow> go_error option \<times> 'b) \<Rightarrow> event list \<Rightarrow> 'b \<Rightarrow> go_error option \<times> 'b" where
  "publish_all pub [] b = (None, b)"
| "publish_all pub (e # es) b =
     (case pub e b of (Some err, b') \<Rightarrow> (Some err, b') | (None, b') \<Rightarrow> publish_all pub es b')"

locale event_bus =
  fixes pub :: "event \<Rightarrow> 'b \<Rightarrow> go_error option \<times> 'b" and contents :: "'b \<Rightarrow> event list"
  assumes pub_invalid: "event_Validate e = Some err \<Longrightarrow> pub e b = (Some err, b)"
    and pub_valid: "event_Validate e = None \<Longrightarrow> fst (pub e b) = None \<and> contents (snd (pub e b)) = contents b @ [e]"
begin

lemma publish_all_contents:
  "contents (snd (publish_all pub es b)) = contents b @ takeWhile (\<lambda>e. event_Validate e = None) es"
proof (induction es arbitrary: b)
  case (Cons e es)
  show ?case
  proof (cases "event_Validate e")
    case None
    then obtain b' where "pub e b = (None, b')" "contents b' = contents b @ [e]"
      using pub_valid [of e b] by (metis prod.collapse)
    with Cons None show ?thesis by simp
  qed (simp add: pub_invalid)
qed simp

lemma publish_all_error:
  "fst (publish_all pub es b) = (case dropWhile (\<lambda>e. event_Validate e = None) es of [] \<Rightarrow> None | e # _ \<Rightarrow> event_Validate e)"
proof (induction es arbitrary: b)
  case (Cons e es)
  show ?case
  proof (cases "event_Validate e")
    case None
    then obtain b' where "pub e b = (None, b')" using pub_valid [of e b] by (metis prod.collapse)
    with Cons None show ?thesis by simp
  qed (simp add: pub_invalid)
qed simp

lemma publish_all_ok:
  assumes "\<forall>e \<in> set es. event_Validate e = None"
  shows "fst (publish_all pub es b) = None" "contents (snd (publish_all pub es b)) = contents b @ es"
proof -
  have "dropWhile (\<lambda>e. event_Validate e = None) es = []" using assms by simp
  then show "fst (publish_all pub es b) = None" unfolding publish_all_error by (simp only: list.case)
  show "contents (snd (publish_all pub es b)) = contents b @ es"
    using assms by (simp add: publish_all_contents takeWhile_eq_all_conv [THEN iffD2])
qed

end

interpretation mem_bus: event_bus MemoryBus_Publish MemoryBus_Snapshot
  by unfold_locales (simp_all add: MemoryBus_Publish_def MemoryBus_Snapshot_def)

subsection \<open>Properties\<close>

lemma fanout_loop_state:
  "snd (fanout_loop cs e first s) = foldl (\<lambda>s c. snd (c e s)) s cs"
  by (induction cs arbitrary: first s) (simp_all add: case_prod_beta Let_def)

lemma fanout_loop_first: "first \<noteq> None \<Longrightarrow> fst (fanout_loop cs e first s) = first"
  by (induction cs arbitrary: s) (auto simp: case_prod_beta Let_def)

fun child_errors :: "(event \<Rightarrow> 's \<Rightarrow> go_error option \<times> 's) list \<Rightarrow> event \<Rightarrow> 's \<Rightarrow> go_error list" where
  "child_errors [] e s = []"
| "child_errors (c # cs) e s =
     (case fst (c e s) of None \<Rightarrow> child_errors cs e (snd (c e s)) | Some err \<Rightarrow> err # child_errors cs e (snd (c e s)))"

lemma fanout_loop_error:
  "fst (fanout_loop cs e None s) = (case child_errors cs e s of [] \<Rightarrow> None | err # _ \<Rightarrow> Some err)"
  by (induction cs arbitrary: s) (auto simp: case_prod_beta Let_def fanout_loop_first split: option.splits)

text \<open>Fan-out reaches every child. Whatever some children answer, the event is handed to all of them in
  order, and the error returned is the first one reported.\<close>

lemma fanout_reaches_every_child:
  "FanOut_Publish cs e s =
     (case child_errors cs e s of [] \<Rightarrow> None | err # _ \<Rightarrow> Some err, foldl (\<lambda>s c. snd (c e s)) s cs)"
  by (rule prod_eqI) (simp_all add: FanOut_Publish_def fanout_loop_error fanout_loop_state)

definition backoffs :: "duration set" where
  "backoffs = {Second, 2 * Second, 4 * Second, 8 * Second, 16 * Second, 32 * Second}"

lemma sub_backoff_step:
  "(\<forall>b. ph = Dialing b \<longrightarrow> b \<in> backoffs) \<Longrightarrow> sub_step ph i = Dialing b \<Longrightarrow> b \<in> backoffs"
  by (cases "(ph, i)" rule: sub_step.cases) (auto simp: backoffs_def split: if_splits)

lemma sub_backoff_run: "(\<forall>b. ph = Dialing b \<longrightarrow> b \<in> backoffs) \<Longrightarrow> foldl sub_step ph is = Dialing b \<Longrightarrow> b \<in> backoffs"
  by (induction "is" arbitrary: ph) (auto dest: sub_backoff_step)

lemma sub_stopped: "foldl sub_step Unsubscribed is = Unsubscribed"
  by (induction "is") simp_all

lemma sub_done: "sub_step ph CtxDone = Unsubscribed"
  by (cases ph) simp_all

text \<open>The redial backoff of a subscription is bounded. Whatever happens to the connection, the delay before
  the next dial is one of 1, 2, 4, 8, 16 or 32 seconds, and once the context has ended the loop has stopped
  for good.\<close>

lemma subscription_backoff_bounded:
  "(\<forall>b. SubscribeResilient is = Dialing b \<longrightarrow> b \<in> backoffs)
   \<and> SubscribeResilient (is @ CtxDone # js) = Unsubscribed"
  using sub_backoff_run [of "Dialing Second" "is"]
  by (auto simp: SubscribeResilient_def sub_stopped sub_done backoffs_def)

lemma subscription_backoff_bounded_example:
  "SubscribeResilient (replicate 6 ConnectFailed) = Dialing (32 * Second) \<and> 32 * Second \<in> backoffs"
proof -
  have "SubscribeResilient (replicate 6 ConnectFailed) = Dialing (32 * Second)"
    by (simp add: SubscribeResilient_def numeral_eq_Suc)
  with subscription_backoff_bounded [of "replicate 6 ConnectFailed" "[]"] show ?thesis by blast
qed

end
