(* ===== verification/Rules.thy ===== *)
theory Rules
  imports Vehicle_State Webhooks
begin

section \<open>The rule engine (internal/rules)\<close>

text \<open>
  Versioned rules, their publication, and \<open>Evaluate\<close> with the safety valves (cooldown and actions per hour),
  the emitted events, the webhooks and the trigger trace. The engine mutex makes one call one step. The YAML
  decoder is an argument of \<open>ParseSpec\<close>; the order in which Go ranges over the rule map is an argument
  \<open>ord\<close>; the dispatcher is used through the argument \<open>disp\<close>, which acts on a state \<open>'d\<close>.
\<close>

record condition =
  cn_Field :: string
  cn_Op :: string
  cn_Value :: float64

text \<open>A nil slice of conditions is \<^term>\<open>None\<close>.\<close>

record when_spec =
  wh_EventType :: string
  wh_Conditions :: "condition list option"

record then_spec =
  th_Emit :: string
  th_Webhook :: string
  th_Secret :: string

record spec =
  sc_ID :: string
  sc_Version :: string
  sc_When :: when_spec
  sc_Then :: then_spec
  sc_CooldownSecs :: int
  sc_MaxActionsPerHour :: int

record rule =
  rl_Spec :: spec
  rl_Published :: time

record trigger =
  tg_RuleID :: string
  tg_RuleVersion :: string
  tg_VehicleID :: string
  tg_At :: time
  tg_MatchedInputs :: jobj
  tg_ConditionsDesc :: "string list"
  tg_ActionsTaken :: "string list"

definition conditions :: "spec \<Rightarrow> condition list" where
  "conditions sp = (case wh_Conditions (sc_When sp) of None \<Rightarrow> [] | Some cs \<Rightarrow> cs)"

definition known_ops :: "string list" where
  "known_ops = [''>'', ''>='', ''<'', ''<='', ''=='']"

definition ParseSpec :: "(string \<Rightarrow> go_error + spec) \<Rightarrow> string \<Rightarrow> go_error + spec" where
  "ParseSpec yaml_Unmarshal data =
     (case yaml_Unmarshal data of
        Inl err \<Rightarrow> Inl (''rules: parse: '' @ err)
      | Inr sp \<Rightarrow>
          if sc_ID sp = [] \<or> sc_Version sp = [] \<or> wh_EventType (sc_When sp) = []
          then Inl ''rules: id, version, when.eventType required''
          else (case find (\<lambda>c. cn_Op c \<notin> set known_ops) (conditions sp) of
                  Some c \<Rightarrow> Inl (''rules: unknown op '' @ quoted (cn_Op c))
                | None \<Rightarrow>
                    Inr (if sc_MaxActionsPerHour sp = 0 then sp\<lparr>sc_MaxActionsPerHour := 100\<rparr> else sp)))"

record engine =
  en_rules :: "string \<rightharpoonup> rule"
  en_triggers :: "trigger list"
  en_lastFire :: "string \<rightharpoonup> time"
  en_fireLog :: "string \<Rightarrow> time list"
  en_dispatches :: bool

text \<open>\<open>en_dispatches\<close> tells whether the engine has a dispatcher.\<close>

definition NewEngine :: "bool \<Rightarrow> engine" where
  "NewEngine has_dispatcher =
     \<lparr>en_rules = Map.empty, en_triggers = [], en_lastFire = Map.empty, en_fireLog = (\<lambda>_. []),
      en_dispatches = has_dispatcher\<rparr>"

subsection \<open>Publish\<close>

text \<open>\<open>reflect.DeepEqual\<close> on specs: floats are compared with \<open>==\<close>, a nil slice differs from an empty one.\<close>

definition condition_DeepEqual :: "condition \<Rightarrow> condition \<Rightarrow> bool" where
  "condition_DeepEqual c c' \<longleftrightarrow> cn_Field c = cn_Field c' \<and> cn_Op c = cn_Op c' \<and> feq (cn_Value c) (cn_Value c')"

definition spec_DeepEqual :: "spec \<Rightarrow> spec \<Rightarrow> bool" where
  "spec_DeepEqual s s' \<longleftrightarrow> sc_ID s = sc_ID s' \<and> sc_Version s = sc_Version s'
     \<and> wh_EventType (sc_When s) = wh_EventType (sc_When s')
     \<and> rel_option (list_all2 condition_DeepEqual) (wh_Conditions (sc_When s)) (wh_Conditions (sc_When s'))
     \<and> sc_Then s = sc_Then s' \<and> sc_CooldownSecs s = sc_CooldownSecs s'
     \<and> sc_MaxActionsPerHour s = sc_MaxActionsPerHour s'"

definition rule_key :: "spec \<Rightarrow> string" where
  "rule_key s = sc_ID s @ ''/'' @ sc_Version s"

definition Engine_Publish :: "spec \<Rightarrow> time \<Rightarrow> engine \<Rightarrow> go_error option \<times> engine" where
  "Engine_Publish s pubAt e =
     (let k = rule_key s
      in case en_rules e k of
           Some existing \<Rightarrow>
             if \<not> spec_DeepEqual (rl_Spec existing) s
             then (Some (''rules: '' @ k @ '' is published and immutable''), e)
             else (None, e\<lparr>en_rules := (en_rules e)(k \<mapsto> \<lparr>rl_Spec = s, rl_Published = pubAt\<rparr>)\<rparr>)
         | None \<Rightarrow> (None, e\<lparr>en_rules := (en_rules e)(k \<mapsto> \<lparr>rl_Spec = s, rl_Published = pubAt\<rparr>)\<rparr>))"

subsection \<open>Evaluate\<close>

definition fieldValue :: "telemetry \<Rightarrow> vehicle_state \<Rightarrow> string \<Rightarrow> float64 \<times> bool" where
  "fieldValue t s field =
     (let val = (if field = ''speedKmh'' then tel_SpeedKmh t
                 else if field = ''stateSpeedKmh'' then vs_SpeedKmh s
                 else if field = ''fuelLevel'' then tel_FuelLevelL t
                 else None)
      in case val of None \<Rightarrow> (Fin 0, False) | Some v \<Rightarrow> (v, True))"

definition matchOp :: "string \<Rightarrow> float64 \<Rightarrow> float64 \<Rightarrow> bool" where
  "matchOp op got want =
     (if op = ''>'' then flt want got else if op = ''>='' then fle want got
      else if op = ''<'' then flt got want else if op = ''<='' then fle got want
      else if op = ''=='' then feq got want else False)"

text \<open>The loop over the conditions: the matched inputs, the descriptions, and whether all hold.\<close>

definition cond_step :: "go_lib \<Rightarrow> telemetry \<Rightarrow> vehicle_state \<Rightarrow> jobj \<times> string list \<times> bool \<Rightarrow> condition
    \<Rightarrow> jobj \<times> string list \<times> bool" where
  "cond_step L t s acc c =
     (let (matched, descs, ok) = acc; (v, found) = fieldValue t s (cn_Field c)
      in (jset (cn_Field c) (JNum v) matched,
          descs @ [cn_Field c @ '' '' @ cn_Op c @ '' '' @ fmt_float L (cn_Value c) @ '' (saw '' @ fmt_float L v @ '')''],
          ok \<and> found \<and> matchOp (cn_Op c) v (cn_Value c)))"

definition match_conditions :: "go_lib \<Rightarrow> telemetry \<Rightarrow> vehicle_state \<Rightarrow> spec \<Rightarrow> event \<Rightarrow> jobj \<times> string list \<times> bool" where
  "match_conditions L t s sp ev =
     foldl (cond_step L t s) ([(''event'', JStr (ev_Type ev)), (''eventId'', JStr (ev_ID ev))], [], True) (conditions sp)"

definition valve_key :: "spec \<Rightarrow> string \<Rightarrow> string" where
  "valve_key sp vid = sc_ID sp @ ''/'' @ sc_Version sp @ ''/'' @ vid"

definition cooling :: "spec \<Rightarrow> time \<Rightarrow> time option \<Rightarrow> bool" where
  "cooling sp now lastFire \<longleftrightarrow> 0 < sc_CooldownSecs sp
     \<and> (case lastFire of None \<Rightarrow> False
        | Some lastT \<Rightarrow> flt (Seconds (time_Sub now lastT)) (f_of_int (sc_CooldownSecs sp)))"

definition recent_fires :: "time \<Rightarrow> time list \<Rightarrow> time list" where
  "recent_fires now fires = filter (\<lambda>ts. now - Hour < ts) fires"

definition emit_event :: "telemetry \<Rightarrow> spec \<Rightarrow> event \<Rightarrow> jobj \<Rightarrow> event" where
  "emit_event t sp ev matched =
     \<lparr>ev_ID = DeterministicID (th_Emit (sc_Then sp)) (tel_VehicleID t) (tel_Timestamp t) (sc_ID sp @ ''/'' @ sc_Version sp),
      ev_Type = th_Emit (sc_Then sp), ev_TenantID = tel_TenantID t, ev_VehicleID = tel_VehicleID t,
      ev_Timestamp = tel_Timestamp t, ev_RuleID = sc_ID sp, ev_RuleVersion = sc_Version sp,
      ev_CorrelationID = md_CorrelationID (tel_Metadata t), ev_CausationID = ev_ID ev,
      ev_Payload = [(''ruleId'', JStr (sc_ID sp)), (''ruleVersion'', JStr (sc_Version sp)),
                    (''matchedEvent'', JStr (ev_Type ev)), (''matchedInputs'', JObj matched)],
      ev_SchemaVersion = CurrentEventSchemaVersion\<rparr>"

text \<open>The events the action \<open>then.emit\<close> adds: none when no type is set or the event is not valid.\<close>

definition emitted :: "telemetry \<Rightarrow> spec \<Rightarrow> event \<Rightarrow> jobj \<Rightarrow> event list" where
  "emitted t sp ev matched =
     (if th_Emit (sc_Then sp) \<noteq> [] \<and> event_Validate (emit_event t sp ev matched) = None
      then [emit_event t sp ev matched] else [])"

definition webhook_target :: "spec \<Rightarrow> event \<Rightarrow> event list \<Rightarrow> event" where
  "webhook_target sp ev out = foldl (\<lambda>target ob. if ev_RuleID ob = sc_ID sp then ob else target) ev out"

text \<open>The webhook action: the label it adds to the trace, and the dispatcher state afterwards.\<close>

definition webhook_action ::
  "(string \<Rightarrow> string \<Rightarrow> event \<Rightarrow> 'd \<Rightarrow> go_error option \<times> 'd) \<Rightarrow> bool \<Rightarrow> spec \<Rightarrow> event \<Rightarrow> event list \<Rightarrow> 'd \<Rightarrow> string list \<times> 'd" where
  "webhook_action disp has sp ev out d =
     (if th_Webhook (sc_Then sp) \<noteq> [] \<and> has then
        (case disp (th_Webhook (sc_Then sp)) (th_Secret (sc_Then sp)) (webhook_target sp ev out) d of
           (Some _, d') \<Rightarrow> ([''webhook:failed''], d')
         | (None, d') \<Rightarrow> ([''webhook:delivered''], d'))
      else ([], d))"

text \<open>One rule against one event: the body of the inner loop.\<close>

definition rule_step ::
  "go_lib \<Rightarrow> (string \<Rightarrow> string \<Rightarrow> event \<Rightarrow> 'd \<Rightarrow> go_error option \<times> 'd) \<Rightarrow> time \<Rightarrow> telemetry \<Rightarrow> vehicle_state \<Rightarrow> spec
    \<Rightarrow> engine \<times> event list \<times> 'd \<Rightarrow> event \<Rightarrow> engine \<times> event list \<times> 'd" where
  "rule_step L disp now t s sp st ev =
     (let (e, out, d) = st
      in if ev_Type ev \<noteq> wh_EventType (sc_When sp) \<or> ev_VehicleID ev \<noteq> tel_VehicleID t then st
      else let (matched, descs, ok) = match_conditions L t s sp ev
      in if \<not> ok then st
      else let vk = valve_key sp (tel_VehicleID t)
      in if cooling sp now (en_lastFire e vk) then st
      else let recent = recent_fires now (en_fireLog e vk);
               e = e\<lparr>en_fireLog := (en_fireLog e)(vk := recent)\<rparr>
      in if int (length recent) \<ge> sc_MaxActionsPerHour sp then (e, out, d)
      else let new = emitted t sp ev matched;
               out = out @ new;
               (hook, d) = webhook_action disp (en_dispatches e) sp ev out d;
               actions = (if new \<noteq> [] then [''emit:'' @ th_Emit (sc_Then sp)] else []) @ hook;
               tg = \<lparr>tg_RuleID = sc_ID sp, tg_RuleVersion = sc_Version sp, tg_VehicleID = tel_VehicleID t,
                     tg_At = now, tg_MatchedInputs = matched, tg_ConditionsDesc = descs, tg_ActionsTaken = actions\<rparr>
      in (e\<lparr>en_lastFire := (en_lastFire e)(vk \<mapsto> now),
            en_fireLog := (en_fireLog e)(vk := recent @ [now]),
            en_triggers := en_triggers e @ [tg]\<rparr>, out, d))"

definition rule_loop ::
  "go_lib \<Rightarrow> (string \<Rightarrow> string \<Rightarrow> event \<Rightarrow> 'd \<Rightarrow> go_error option \<times> 'd) \<Rightarrow> time \<Rightarrow> telemetry \<Rightarrow> vehicle_state \<Rightarrow> event list
    \<Rightarrow> engine \<times> event list \<times> 'd \<Rightarrow> rule \<Rightarrow> engine \<times> event list \<times> 'd" where
  "rule_loop L disp now t s evs st r = foldl (rule_step L disp now t s (rl_Spec r)) st evs"

definition Engine_Evaluate ::
  "go_lib \<Rightarrow> (string set \<Rightarrow> string list) \<Rightarrow> (string \<Rightarrow> string \<Rightarrow> event \<Rightarrow> 'd \<Rightarrow> go_error option \<times> 'd) \<Rightarrow> time
    \<Rightarrow> telemetry \<Rightarrow> vehicle_state \<Rightarrow> event list \<Rightarrow> engine \<times> 'd \<Rightarrow> (engine \<times> 'd) \<times> event list" where
  "Engine_Evaluate L ord disp now t s evs ed =
     (let (e, d) = ed;
          rs = map (\<lambda>k. the (en_rules e k)) (ord (dom (en_rules e)));
          (e', out, d') = foldl (rule_loop L disp now t s evs) (e, [], d) rs
      in ((e', d'), out))"

definition Triggers :: "engine \<Rightarrow> trigger list" where
  "Triggers e = [] @ en_triggers e"

subsection \<open>What one rule does with one event\<close>

definition trigger_key :: "trigger \<Rightarrow> string" where
  "trigger_key tg = tg_RuleID tg @ ''/'' @ tg_RuleVersion tg @ ''/'' @ tg_VehicleID tg"

text \<open>A step does nothing, only prunes the fire log, or fires once.\<close>

lemma rule_step_cases:
  assumes "rule_step L disp now t s sp (e, out, d) ev = (e', out', d')"
  obtains (idle) "e' = e" "out' = out" "d' = d"
  | (held) "e' = e\<lparr>en_fireLog := (en_fireLog e)(valve_key sp (tel_VehicleID t) :=
        recent_fires now (en_fireLog e (valve_key sp (tel_VehicleID t))))\<rparr>" "out' = out" "d' = d"
  | (fired) tg matched where
      "e' = e\<lparr>en_lastFire := (en_lastFire e)(valve_key sp (tel_VehicleID t) \<mapsto> now),
        en_fireLog := (en_fireLog e)(valve_key sp (tel_VehicleID t) :=
          recent_fires now (en_fireLog e (valve_key sp (tel_VehicleID t))) @ [now]),
        en_triggers := en_triggers e @ [tg]\<rparr>"
      "trigger_key tg = valve_key sp (tel_VehicleID t)" "tg_At tg = now"
      "\<not> cooling sp now (en_lastFire e (valve_key sp (tel_VehicleID t)))"
      "int (length (recent_fires now (en_fireLog e (valve_key sp (tel_VehicleID t))))) < sc_MaxActionsPerHour sp"
      "matched = fst (match_conditions L t s sp ev)" "out' = out @ emitted t sp ev matched"
proof -
  let ?vk = "valve_key sp (tel_VehicleID t)"
  obtain m ds ok where c: "match_conditions L t s sp ev = (m, ds, ok)" by (metis prod.collapse)
  let ?r = "recent_fires now (en_fireLog e ?vk)"
  consider "ev_Type ev \<noteq> wh_EventType (sc_When sp) \<or> ev_VehicleID ev \<noteq> tel_VehicleID t \<or> \<not> ok \<or> cooling sp now (en_lastFire e ?vk)"
    | "ev_Type ev = wh_EventType (sc_When sp)" "ev_VehicleID ev = tel_VehicleID t" ok "\<not> cooling sp now (en_lastFire e ?vk)"
        "int (length ?r) \<ge> sc_MaxActionsPerHour sp"
    | "ev_Type ev = wh_EventType (sc_When sp)" "ev_VehicleID ev = tel_VehicleID t" ok "\<not> cooling sp now (en_lastFire e ?vk)"
        "int (length ?r) < sc_MaxActionsPerHour sp"
    by linarith
  then show ?thesis
  proof cases
    case 1
    then have "(e', out', d') = (e, out, d)" using assms c by (auto simp: rule_step_def Let_def split: if_splits)
    then show ?thesis by (intro idle) auto
  next
    case 2
    then show ?thesis using assms c by (intro held) (auto simp: rule_step_def Let_def)
  next
    case 3
    let ?tg = "\<lparr>tg_RuleID = sc_ID sp, tg_RuleVersion = sc_Version sp, tg_VehicleID = tel_VehicleID t,
        tg_At = now, tg_MatchedInputs = m, tg_ConditionsDesc = ds,
        tg_ActionsTaken = (if emitted t sp ev m \<noteq> [] then [''emit:'' @ th_Emit (sc_Then sp)] else []) @
          fst (webhook_action disp (en_dispatches e) sp ev (out @ emitted t sp ev m) d)\<rparr>"
    show ?thesis
      using 3 assms c
      by (intro fired [of ?tg m])
        (auto simp: rule_step_def Let_def case_prod_beta trigger_key_def valve_key_def)
  qed
qed

lemma rule_step_frame:
  assumes "rule_step L disp now t s sp (e, out, d) ev = (e', out', d')"
  shows "en_rules e' = en_rules e" "en_dispatches e' = en_dispatches e"
    and "vk \<noteq> valve_key sp (tel_VehicleID t) \<Longrightarrow> en_lastFire e' vk = en_lastFire e vk \<and> en_fireLog e' vk = en_fireLog e vk"
  using assms by (auto elim!: rule_step_cases)

subsection \<open>Invariants of the engine\<close>

text \<open>The fires of one valve key, oldest first, as the trigger trace records them.\<close>

definition fires_of :: "string \<Rightarrow> engine \<Rightarrow> time list" where
  "fires_of vk e = map tg_At (filter (\<lambda>tg. trigger_key tg = vk) (en_triggers e))"

definition engine_wf :: "engine \<Rightarrow> bool" where
  "engine_wf e \<longleftrightarrow> finite (dom (en_rules e)) \<and> (\<forall>k r. en_rules e k = Some r \<longrightarrow> rule_key (rl_Spec r) = k)"

datatype rule_op = OpPublish spec time | OpEvaluate time telemetry vehicle_state "event list"

text \<open>A run of the engine: publications and evaluations in any order, the clock of an evaluation never going back.\<close>

fun rules_run ::
  "go_lib \<Rightarrow> (string set \<Rightarrow> string list) \<Rightarrow> (string \<Rightarrow> string \<Rightarrow> event \<Rightarrow> 'd \<Rightarrow> go_error option \<times> 'd) \<Rightarrow> rule_op list
    \<Rightarrow> engine \<times> 'd \<Rightarrow> engine \<times> 'd" where
  "rules_run L ord disp [] ed = ed"
| "rules_run L ord disp (OpPublish sp pubAt # ops) (e, d) = rules_run L ord disp ops (snd (Engine_Publish sp pubAt e), d)"
| "rules_run L ord disp (OpEvaluate now t s evs # ops) ed =
     rules_run L ord disp ops (fst (Engine_Evaluate L ord disp now t s evs ed))"

fun clock_ok :: "time \<Rightarrow> rule_op list \<Rightarrow> bool" where
  "clock_ok c [] \<longleftrightarrow> True"
| "clock_ok c (OpPublish sp pubAt # ops) \<longleftrightarrow> clock_ok c ops"
| "clock_ok c (OpEvaluate now t s evs # ops) \<longleftrightarrow> c \<le> now \<and> clock_ok now ops"

fun published :: "rule_op list \<Rightarrow> spec list" where
  "published [] = []"
| "published (OpPublish sp pubAt # ops) = sp # published ops"
| "published (OpEvaluate now t s evs # ops) = published ops"

text \<open>
  An invariant that a firing rule with an admissible spec keeps, that survives the passing of time and does
  not look at the rules, holds after every run in which only admissible specs are published.
\<close>

locale engine_invariant =
  fixes P :: "time \<Rightarrow> engine \<Rightarrow> bool" and admissible :: "spec \<Rightarrow> bool"
  assumes fire: "admissible sp \<Longrightarrow> P now e \<Longrightarrow>
      rule_step L disp now t s sp (e, out, d :: 'd) ev = (e', out', d') \<Longrightarrow> P now e'"
    and advance: "P clock e \<Longrightarrow> clock \<le> now \<Longrightarrow> P now e"
    and rules_irrelevant: "P clock e \<Longrightarrow> P clock (e\<lparr>en_rules := rs\<rparr>)"
    and start: "P clock (NewEngine b)"
begin

lemma fold_steps:
  assumes "admissible sp" "P now e" "en_rules e = rs"
    and "foldl (rule_step L disp now t s sp) (e, out, d :: 'd) evs = (e', out', d')"
  shows "P now e' \<and> en_rules e' = rs"
  using assms
proof (induction evs arbitrary: e out d)
  case (Cons ev evs)
  obtain e1 out1 d1 where st: "rule_step L disp now t s sp (e, out, d) ev = (e1, out1, d1)" by (metis prod.collapse)
  show ?case
    using Cons.IH [OF Cons.prems(1) fire [OF Cons.prems(1,2) st]] Cons.prems(3,4) rule_step_frame(1) [OF st] st by auto
qed auto

lemma fold_rules:
  assumes "\<forall>r \<in> set rs. admissible (rl_Spec r)" "P now e" "en_rules e = m"
    and "foldl (rule_loop L disp now t s evs) (e, out, d :: 'd) rs = (e', out', d')"
  shows "P now e' \<and> en_rules e' = m"
  using assms
proof (induction rs arbitrary: e out d)
  case (Cons r rs)
  obtain e1 out1 d1 where st: "rule_loop L disp now t s evs (e, out, d) r = (e1, out1, d1)" by (metis prod.collapse)
  then have "P now e1 \<and> en_rules e1 = m"
    using fold_steps [of "rl_Spec r" now e m L disp t s out d evs e1 out1 d1] Cons.prems by (simp add: rule_loop_def)
  then show ?case using Cons.IH [of e1 out1 d1] Cons.prems st by auto
qed auto

lemma evaluate:
  assumes "enumerates ord" "engine_wf e" "P now e" "\<forall>k r. en_rules e k = Some r \<longrightarrow> admissible (rl_Spec r)"
    and "Engine_Evaluate L ord disp now t s evs (e, d :: 'd) = ((e', d'), out)"
  shows "P now e' \<and> en_rules e' = en_rules e"
proof -
  let ?rs = "map (\<lambda>k. the (en_rules e k)) (ord (dom (en_rules e)))"
  have "set (ord (dom (en_rules e))) = dom (en_rules e)" using assms(1,2) by (simp add: enumerates_def engine_wf_def)
  then have "\<forall>r \<in> set ?rs. admissible (rl_Spec r)" using assms(4) by auto
  moreover obtain e1 out1 d1 where f: "foldl (rule_loop L disp now t s evs) (e, [], d) ?rs = (e1, out1, d1)"
    by (metis prod.collapse)
  ultimately show ?thesis using fold_rules [OF _ assms(3) refl f] assms(5) by (auto simp: Engine_Evaluate_def)
qed

end

lemma engine_wf_publish: "engine_wf e \<Longrightarrow> engine_wf (snd (Engine_Publish sp pubAt e))"
  by (auto simp: engine_wf_def Engine_Publish_def Let_def split: option.split)

lemma engine_wf_rules: "en_rules e' = en_rules e \<Longrightarrow> engine_wf e \<Longrightarrow> engine_wf e'"
  by (simp add: engine_wf_def)

lemma publish_rules:
  assumes "\<forall>k r. en_rules e k = Some r \<longrightarrow> A (rl_Spec r)" "A sp"
  shows "\<forall>k r. en_rules (snd (Engine_Publish sp pubAt e)) k = Some r \<longrightarrow> A (rl_Spec r)"
  using assms by (auto simp: Engine_Publish_def Let_def split: option.split)

lemma publish_frame: "\<exists>rs. snd (Engine_Publish sp pubAt e) = e\<lparr>en_rules := rs\<rparr>"
  by (auto simp: Engine_Publish_def Let_def split: option.split intro: exI [of _ "en_rules e"])

context engine_invariant
begin

lemma run:
  assumes "enumerates ord" "engine_wf e" "P c e" "\<forall>k r. en_rules e k = Some r \<longrightarrow> admissible (rl_Spec r)"
    and "clock_ok c ops" "\<forall>sp \<in> set (published ops). admissible sp"
    and "rules_run L ord disp ops (e, d :: 'd) = (e', d')"
  shows "\<exists>c'. P c' e'"
  using assms
proof (induction ops arbitrary: c e d)
  case Nil
  then show ?case by auto
next
  case (Cons op ops)
  show ?case
  proof (cases op)
    case (OpPublish sp pubAt)
    let ?e = "snd (Engine_Publish sp pubAt e)"
    have "P c ?e" using publish_frame [of sp pubAt e] rules_irrelevant [OF Cons.prems(3)] by auto
    moreover have "\<forall>k r. en_rules ?e k = Some r \<longrightarrow> admissible (rl_Spec r)"
      using publish_rules [OF Cons.prems(4)] Cons.prems(6) OpPublish by auto
    ultimately show ?thesis
      using Cons.IH [OF Cons.prems(1) engine_wf_publish [OF Cons.prems(2)], of c sp pubAt d] Cons.prems(5-7) OpPublish by auto
  next
    case (OpEvaluate now t s evs)
    obtain e1 d1 out where ev: "Engine_Evaluate L ord disp now t s evs (e, d) = ((e1, d1), out)" by (metis prod.collapse)
    have "P now e1 \<and> en_rules e1 = en_rules e"
      using evaluate [OF Cons.prems(1,2) _ Cons.prems(4) ev] advance [OF Cons.prems(3)] Cons.prems(5) OpEvaluate by auto
    then show ?thesis
      using Cons.IH [of e1 now d1] Cons.prems engine_wf_rules [of e1 e] ev OpEvaluate by auto
  qed
qed

lemma run_from_new:
  assumes "enumerates ord" "clock_ok c ops" "\<forall>sp \<in> set (published ops). admissible sp"
    and "rules_run L ord disp ops (NewEngine b, d :: 'd) = (e', d')"
  shows "\<exists>c'. P c' e'"
  using run [OF assms(1) _ start _ assms(2-4)] by (simp add: engine_wf_def NewEngine_def)

end

subsection \<open>The safety valves\<close>

definition in_hour :: "time \<Rightarrow> time list \<Rightarrow> nat" where
  "in_hour T fs = length (filter (\<lambda>x. T - Hour < x \<and> x \<le> T) fs)"

lemma recent_fires_simps [simp]:
  "recent_fires now [] = []" "recent_fires now (xs @ ys) = recent_fires now xs @ recent_fires now ys"
  "recent_fires now [now] = [now]" "recent_fires now (recent_fires now xs) = recent_fires now xs"
  by (simp_all add: recent_fires_def)

lemma recent_fires_advance: "c \<le> now \<Longrightarrow> recent_fires now (recent_fires c xs) = recent_fires now xs"
  by (auto simp: recent_fires_def intro!: filter_cong)

lemma in_hour_snoc:
  assumes "\<forall>T. in_hour T fs \<le> N" "length (recent_fires now fs) < N"
  shows "\<forall>T. in_hour T (fs @ [now]) \<le> N"
proof
  fix T
  have "in_hour T fs \<le> length (recent_fires now fs)" if "now \<le> T"
    using that unfolding in_hour_def recent_fires_def by (intro length_filter_mono) auto
  then show "in_hour T (fs @ [now]) \<le> N"
    using assms(1) [rule_format, of T] assms(2) by (auto simp: in_hour_def)
qed

lemma fires_of_fired:
  "fires_of vk (e\<lparr>en_lastFire := lf, en_fireLog := fl, en_triggers := en_triggers e @ [tg]\<rparr>) =
     fires_of vk e @ (if trigger_key tg = vk then [tg_At tg] else [])"
  "fires_of vk (e\<lparr>en_fireLog := fl\<rparr>) = fires_of vk e" "fires_of vk (e\<lparr>en_rules := rs\<rparr>) = fires_of vk e"
  "fires_of vk (NewEngine b) = []"
  by (simp_all add: fires_of_def NewEngine_def)

definition window_inv :: "nat \<Rightarrow> string \<Rightarrow> time \<Rightarrow> engine \<Rightarrow> bool" where
  "window_inv N vk clock e \<longleftrightarrow> recent_fires clock (en_fireLog e vk) = recent_fires clock (fires_of vk e)
     \<and> (\<forall>T. in_hour T (fires_of vk e) \<le> N)"

interpretation max_actions: engine_invariant "window_inv N vk"
  "\<lambda>sp. \<forall>vid. valve_key sp vid = vk \<longrightarrow> sc_MaxActionsPerHour sp \<le> int N" for N vk
proof
  fix sp now e L t s out ev e' out'
    and disp :: "string \<Rightarrow> string \<Rightarrow> event \<Rightarrow> 'd \<Rightarrow> go_error option \<times> 'd" and d d' :: 'd
  assume adm: "\<forall>vid. valve_key sp vid = vk \<longrightarrow> sc_MaxActionsPerHour sp \<le> int N"
    and inv: "window_inv N vk now e" and st: "rule_step L disp now t s sp (e, out, d) ev = (e', out', d')"
  from st show "window_inv N vk now e'"
  proof (cases rule: rule_step_cases)
    case (fired tg matched)
    show ?thesis
    proof (cases "valve_key sp (tel_VehicleID t) = vk")
      case True
      then have "length (recent_fires now (fires_of vk e)) < N"
        using adm fired(5) inv by (auto simp: window_inv_def)
      with True show ?thesis
        using inv fired(1-3) in_hour_snoc [of "fires_of vk e" N now] by (auto simp: window_inv_def fires_of_fired)
    next
      case False
      then show ?thesis using inv fired(1-3) by (auto simp: window_inv_def fires_of_fired)
    qed
  qed (use inv in \<open>auto simp: window_inv_def fires_of_fired\<close>)
next
  fix clock e now
  assume "window_inv N vk clock e" "clock \<le> now"
  then show "window_inv N vk now e"
    unfolding window_inv_def by (metis recent_fires_advance)
qed (auto simp: window_inv_def fires_of_fired, simp_all add: NewEngine_def in_hour_def)

definition cooldown_inv :: "int \<Rightarrow> string \<Rightarrow> time \<Rightarrow> engine \<Rightarrow> bool" where
  "cooldown_inv C vk clock e \<longleftrightarrow>
     en_lastFire e vk = (if fires_of vk e = [] then None else Some (last (fires_of vk e)))
     \<and> successively (\<lambda>a b. a + C * Second \<le> b) (fires_of vk e)"

interpretation cooldown: engine_invariant "cooldown_inv C vk"
  "\<lambda>sp. \<forall>vid. valve_key sp vid = vk \<longrightarrow> 0 < sc_CooldownSecs sp \<and> C \<le> sc_CooldownSecs sp \<and> secs_ok (sc_CooldownSecs sp)" for C vk
proof
  fix sp now e L t s out ev e' out'
    and disp :: "string \<Rightarrow> string \<Rightarrow> event \<Rightarrow> 'd \<Rightarrow> go_error option \<times> 'd" and d d' :: 'd
  assume adm: "\<forall>vid. valve_key sp vid = vk \<longrightarrow> 0 < sc_CooldownSecs sp \<and> C \<le> sc_CooldownSecs sp \<and> secs_ok (sc_CooldownSecs sp)"
    and inv: "cooldown_inv C vk now e" and st: "rule_step L disp now t s sp (e, out, d) ev = (e', out', d')"
  from st show "cooldown_inv C vk now e'"
  proof (cases rule: rule_step_cases)
    case (fired tg matched)
    show ?thesis
    proof (cases "valve_key sp (tel_VehicleID t) = vk")
      case True
      then have a: "0 < sc_CooldownSecs sp" "C * Second \<le> sc_CooldownSecs sp * Second" "secs_ok (sc_CooldownSecs sp)"
        using adm by auto
      have "last (fires_of vk e) + C * Second \<le> now" if "fires_of vk e \<noteq> []"
        using fired(4) True inv that a(1,2) cooldown_test [OF a(3), of now "last (fires_of vk e)"]
        by (auto simp: cooling_def cooldown_inv_def)
      with True show ?thesis
        using inv fired(1-3) by (auto simp: cooldown_inv_def fires_of_fired successively_append_iff)
    next
      case False
      then show ?thesis using inv fired(1-3) by (auto simp: cooldown_inv_def fires_of_fired)
    qed
  qed (use inv in \<open>auto simp: cooldown_inv_def fires_of_fired\<close>)
qed (auto simp: cooldown_inv_def fires_of_fired, simp_all add: NewEngine_def)

subsection \<open>Independence of the map order\<close>

text \<open>What a rule emits for a list of events depends only on the two entries of its own valve key.\<close>

definition valve_step :: "go_lib \<Rightarrow> time \<Rightarrow> telemetry \<Rightarrow> vehicle_state \<Rightarrow> spec \<Rightarrow> event \<Rightarrow> time option \<times> time list
    \<Rightarrow> event list \<times> time option \<times> time list" where
  "valve_step L now t s sp ev v =
     (let (lf, fl) = v; (matched, descs, ok) = match_conditions L t s sp ev; recent = recent_fires now fl
      in if ev_Type ev \<noteq> wh_EventType (sc_When sp) \<or> ev_VehicleID ev \<noteq> tel_VehicleID t \<or> \<not> ok \<or> cooling sp now lf
         then ([], lf, fl)
         else if int (length recent) \<ge> sc_MaxActionsPerHour sp then ([], lf, recent)
         else (emitted t sp ev matched, Some now, recent @ [now]))"

fun rule_emits :: "go_lib \<Rightarrow> time \<Rightarrow> telemetry \<Rightarrow> vehicle_state \<Rightarrow> spec \<Rightarrow> event list \<Rightarrow> time option \<times> time list \<Rightarrow> event list" where
  "rule_emits L now t s sp [] v = []"
| "rule_emits L now t s sp (ev # evs) v =
     (let (new, v') = valve_step L now t s sp ev v in new @ rule_emits L now t s sp evs v')"

definition valve_of :: "engine \<Rightarrow> string \<Rightarrow> time option \<times> time list" where
  "valve_of e vk = (en_lastFire e vk, en_fireLog e vk)"

lemma rule_step_valve:
  assumes "rule_step L disp now t s sp (e, out, d) ev = (e', out', d')"
  shows "valve_step L now t s sp ev (valve_of e (valve_key sp (tel_VehicleID t))) = (new, v') \<Longrightarrow>
      out' = out @ new \<and> valve_of e' (valve_key sp (tel_VehicleID t)) = v'"
  using assms
  by (auto simp: rule_step_def valve_step_def valve_of_def Let_def split: if_splits prod.splits)

lemma rule_loop_emits:
  assumes "foldl (rule_step L disp now t s sp) (e, out, d) evs = (e', out', d')"
  shows "out' = out @ rule_emits L now t s sp evs (valve_of e (valve_key sp (tel_VehicleID t)))
    \<and> (\<forall>vk. vk \<noteq> valve_key sp (tel_VehicleID t) \<longrightarrow> valve_of e' vk = valve_of e vk)"
  using assms
proof (induction evs arbitrary: e out d)
  case (Cons ev evs)
  obtain e1 out1 d1 where st: "rule_step L disp now t s sp (e, out, d) ev = (e1, out1, d1)" by (metis prod.collapse)
  obtain new v' where v: "valve_step L now t s sp ev (valve_of e (valve_key sp (tel_VehicleID t))) = (new, v')" by (metis surj_pair)
  show ?case
    using Cons.IH [of e1 out1 d1] Cons.prems st rule_step_valve [OF st v] rule_step_frame(3) [OF st] v
    by (auto simp: valve_of_def)
qed simp

lemma rules_emit:
  assumes "foldl (rule_loop L disp now t s evs) (e, out, d) rs = (e', out', d')"
    and "distinct (map (\<lambda>r. valve_key (rl_Spec r) (tel_VehicleID t)) rs)"
  shows "out' = out @ concat (map (\<lambda>r. rule_emits L now t s (rl_Spec r) evs
    (valve_of e (valve_key (rl_Spec r) (tel_VehicleID t)))) rs)"
  using assms
proof (induction rs arbitrary: e out d)
  case (Cons r rs)
  obtain e1 out1 d1 where st: "rule_loop L disp now t s evs (e, out, d) r = (e1, out1, d1)" by (metis prod.collapse)
  note l = rule_loop_emits [OF st [unfolded rule_loop_def]]
  have "valve_of e1 (valve_key (rl_Spec r') (tel_VehicleID t)) = valve_of e (valve_key (rl_Spec r') (tel_VehicleID t))"
    if "r' \<in> set rs" for r'
  proof -
    have "valve_key (rl_Spec r') (tel_VehicleID t) \<noteq> valve_key (rl_Spec r) (tel_VehicleID t)"
      using that Cons.prems(2) by (auto simp: image_iff)
    then show ?thesis using l by blast
  qed
  then have m: "map (\<lambda>r. rule_emits L now t s (rl_Spec r) evs (valve_of e1 (valve_key (rl_Spec r) (tel_VehicleID t)))) rs
      = map (\<lambda>r. rule_emits L now t s (rl_Spec r) evs (valve_of e (valve_key (rl_Spec r) (tel_VehicleID t)))) rs" by simp
  show ?case using Cons.IH [of e1 out1 d1, unfolded m] Cons.prems st l by simp
qed simp

lemma Evaluate_emits:
  assumes "enumerates ord" "engine_wf e"
  shows "snd (Engine_Evaluate L ord disp now t s evs (e, d)) =
    concat (map (\<lambda>k. rule_emits L now t s (rl_Spec (the (en_rules e k))) evs (valve_of e (k @ ''/'' @ tel_VehicleID t)))
      (ord (dom (en_rules e))))"
proof -
  let ?ks = "ord (dom (en_rules e))"
  let ?rs = "map (\<lambda>k. the (en_rules e k)) ?ks"
  obtain e1 out d1 where f: "foldl (rule_loop L disp now t s evs) (e, [], d) ?rs = (e1, out, d1)" by (metis prod.collapse)
  have ks: "set ?ks = dom (en_rules e)" "distinct ?ks" using assms by (simp_all add: enumerates_def engine_wf_def)
  have key: "valve_key (rl_Spec (the (en_rules e k))) v = k @ ''/'' @ v" if "k \<in> set ?ks" for k v
    using that ks(1) assms(2) by (auto simp: engine_wf_def valve_key_def rule_key_def)
  then have "map (\<lambda>r. valve_key (rl_Spec r) (tel_VehicleID t)) ?rs = map (\<lambda>k. k @ ''/'' @ tel_VehicleID t) ?ks" by simp
  moreover have "distinct (map (\<lambda>k. k @ ''/'' @ tel_VehicleID t) ?ks)"
    using ks(2) by (simp add: distinct_map inj_on_def)
  ultimately have "distinct (map (\<lambda>r. valve_key (rl_Spec r) (tel_VehicleID t)) ?rs)" by (simp only:)
  from rules_emit [OF f this] show ?thesis
    using f key by (simp add: Engine_Evaluate_def comp_def cong: map_cong)
qed

lemma rule_emits_valid: "ev \<in> set (rule_emits L now t s sp evs v) \<Longrightarrow>
    event_Validate ev = None \<and> ev_RuleID ev = sc_ID sp \<and> ev_RuleVersion ev = sc_Version sp
    \<and> ev_VehicleID ev = tel_VehicleID t \<and> ev_TenantID ev = tel_TenantID t \<and> ev_CausationID ev \<in> ev_ID ` set evs"
  by (induction evs arbitrary: v)
    (fastforce simp: valve_step_def emitted_def emit_event_def Let_def split: if_splits prod.splits)+

text \<open>Every emitted event is valid, whatever the rules.\<close>

lemma Evaluate_valid: "\<forall>ev \<in> set (snd (Engine_Evaluate L ord disp now t s evs ed)). event_Validate ev = None"
proof -
  let ?P = "\<lambda>st :: engine \<times> event list \<times> 'a. \<forall>ev \<in> set (fst (snd st)). event_Validate ev = None"
  have step: "?P (rule_step L disp now t s sp st ev)" if "?P st" for sp ev and st :: "engine \<times> event list \<times> 'a"
  proof -
    obtain e1 out1 d1 e2 out2 d2 where st: "st = (e1, out1, d1)" "rule_step L disp now t s sp (e1, out1, d1) ev = (e2, out2, d2)"
      by (metis surj_pair)
    from st(2) show ?thesis using \<open>?P st\<close> st by (cases rule: rule_step_cases) (auto simp: emitted_def)
  qed
  have loop: "?P (rule_loop L disp now t s evs st r)" if "?P st" for r and st :: "engine \<times> event list \<times> 'a"
    unfolding rule_loop_def using foldl_invariant [of ?P st evs "rule_step L disp now t s (rl_Spec r)"] that step by blast
  have "?P (foldl (rule_loop L disp now t s evs) (fst ed, [], snd ed) rs)" for rs
    using foldl_invariant [of ?P "(fst ed, [], snd ed)" rs "rule_loop L disp now t s evs"] loop by simp
  then show ?thesis by (simp add: Engine_Evaluate_def case_prod_beta Let_def)
qed

subsection \<open>Published versions are immutable\<close>

lemma condition_DeepEqual_eq: "condition_DeepEqual c c' \<Longrightarrow> c = c'"
  by (cases c; cases c') (auto simp: condition_DeepEqual_def feq_iff)

lemma spec_DeepEqual_eq: "spec_DeepEqual s s' \<Longrightarrow> s = s'"
proof -
  assume a: "spec_DeepEqual s s'"
  have "list_all2 condition_DeepEqual xs ys \<Longrightarrow> xs = ys" for xs ys
    by (induction rule: list_all2_induct) (auto dest: condition_DeepEqual_eq)
  then have "wh_Conditions (sc_When s) = wh_Conditions (sc_When s')"
    using a by (cases "wh_Conditions (sc_When s)"; cases "wh_Conditions (sc_When s')") (auto simp: spec_DeepEqual_def)
  then show ?thesis
    using a by (cases s; cases s'; cases "sc_When s"; cases "sc_When s'") (auto simp: spec_DeepEqual_def)
qed

lemma publish_keeps:
  "en_rules e k = Some r \<Longrightarrow> \<exists>r'. en_rules (snd (Engine_Publish sp pubAt e)) k = Some r' \<and> rl_Spec r' = rl_Spec r"
  by (auto simp: Engine_Publish_def Let_def dest: spec_DeepEqual_eq split: option.split)

lemma evaluate_keeps: "en_rules (fst (fst (Engine_Evaluate L ord disp now t s evs (e, d)))) = en_rules e"
proof -
  have step: "en_rules (fst (rule_step L disp now t s sp st ev)) = en_rules (fst st)" for sp ev and st :: "engine \<times> event list \<times> 'a"
  proof -
    obtain e1 out1 d1 e2 out2 d2 where "st = (e1, out1, d1)" "rule_step L disp now t s sp (e1, out1, d1) ev = (e2, out2, d2)"
      by (metis surj_pair)
    then show ?thesis using rule_step_frame(1) [of L disp now t s sp e1 out1 d1 ev e2 out2 d2] by simp
  qed
  have "en_rules (fst (rule_loop L disp now t s evs st r)) = en_rules (fst st)" for r and st :: "engine \<times> event list \<times> 'a"
    unfolding rule_loop_def by (rule foldl_invariant) (simp_all add: step)
  then have "en_rules (fst (foldl (rule_loop L disp now t s evs) (e, [], d) rs)) = en_rules e" for rs
    using foldl_invariant [of "\<lambda>st. en_rules (fst st) = en_rules e" "(e, [], d)" rs "rule_loop L disp now t s evs"] by simp
  then show ?thesis by (simp add: Engine_Evaluate_def case_prod_beta Let_def)
qed

lemma run_keeps:
  "en_rules e k = Some r \<Longrightarrow> \<exists>r'. en_rules (fst (rules_run L ord disp ops (e, d))) k = Some r' \<and> rl_Spec r' = rl_Spec r"
proof (induction ops arbitrary: e d r)
  case (Cons op ops)
  show ?case
  proof (cases op)
    case (OpPublish sp pubAt)
    then show ?thesis using publish_keeps [OF Cons.prems, of sp pubAt] Cons.IH [of "snd (Engine_Publish sp pubAt e)" _ d] by auto
  next
    case (OpEvaluate now t s evs)
    let ?r = "Engine_Evaluate L ord disp now t s evs (e, d)"
    have "en_rules (fst (fst ?r)) k = Some r" using Cons.prems by (simp add: evaluate_keeps)
    then show ?thesis using Cons.IH [of "fst (fst ?r)" r "snd (fst ?r)"] OpEvaluate by simp
  qed
qed simp

subsection \<open>Properties\<close>

text \<open>A published rule version never changes. Once a version is published under its key, every later
  sequence of publications and evaluations leaves its spec as it is; a publication with other content under
  the same key is refused and changes nothing.\<close>

lemma published_version_immutable:
  assumes "en_rules e k = Some r"
  shows "(\<exists>r'. en_rules (fst (rules_run L ord disp ops (e, d))) k = Some r' \<and> rl_Spec r' = rl_Spec r)
    \<and> (rule_key sp = k \<longrightarrow> sp \<noteq> rl_Spec r \<longrightarrow>
        Engine_Publish sp pubAt e = (Some (''rules: '' @ k @ '' is published and immutable''), e))"
  using run_keeps [OF assms] assms by (auto simp: Engine_Publish_def Let_def dest: spec_DeepEqual_eq)

definition sample_spec :: spec where
  "sample_spec = \<lparr>sc_ID = ''r'', sc_Version = ''1'',
     sc_When = \<lparr>wh_EventType = ''vehicle.trip.started'', wh_Conditions = None\<rparr>,
     sc_Then = \<lparr>th_Emit = ''incident.created'', th_Webhook = [], th_Secret = []\<rparr>,
     sc_CooldownSecs = 60, sc_MaxActionsPerHour = 2\<rparr>"

lemma published_version_immutable_example:
  "Engine_Publish (sample_spec\<lparr>sc_CooldownSecs := 0\<rparr>) 2 (snd (Engine_Publish sample_spec 1 (NewEngine False)))
     = (Some ''rules: r/1 is published and immutable'', snd (Engine_Publish sample_spec 1 (NewEngine False)))"
proof -
  have "en_rules (snd (Engine_Publish sample_spec 1 (NewEngine False))) ''r/1'' = Some \<lparr>rl_Spec = sample_spec, rl_Published = 1\<rparr>"
    by (simp add: Engine_Publish_def NewEngine_def sample_spec_def rule_key_def)
  from published_version_immutable [OF this, of plain_lib sorted_list_of_set "\<lambda>_ _ _ d. (None, d)" "[]" "()" "sample_spec\<lparr>sc_CooldownSecs := 0\<rparr>" 2]
  show ?thesis by (simp add: sample_spec_def rule_key_def)
qed

text \<open>C9: The valve on actions per hour holds over any hour. In every run of publications and evaluations whose
  clock does not go back, if every spec published under a valve key (rule, version and vehicle) allows at
  most N actions per hour, no window of one hour contains more than N fires of that key.\<close>

theorem actions_per_hour_bounded:
  assumes "enumerates ord" "clock_ok c ops"
    and "\<forall>sp \<in> set (published ops). \<forall>vid. valve_key sp vid = vk \<longrightarrow> sc_MaxActionsPerHour sp \<le> int N"
    and "rules_run L ord disp ops (NewEngine b, d) = (e', d')"
  shows "length (filter (\<lambda>x. T - Hour < x \<and> x \<le> T) (fires_of vk e')) \<le> N"
  using max_actions.run_from_new [OF assms] by (auto simp: window_inv_def in_hour_def)

theorem actions_per_hour_bounded_witness:
  "length (filter (\<lambda>x. 9 - Hour < x \<and> x \<le> 9) (fires_of ''r/1/v''
     (fst (rules_run plain_lib sorted_list_of_set (\<lambda>_ _ _ d. (None, d))
       [OpPublish sample_spec 1, OpEvaluate 2 (point_at ''v'' 1 None None None) zero_vehicle_state []] (NewEngine False, ()))))) \<le> 2"
proof -
  let ?ops = "[OpPublish sample_spec 1, OpEvaluate 2 (point_at ''v'' 1 None None None) zero_vehicle_state []]"
  obtain e' d' where r: "rules_run plain_lib sorted_list_of_set (\<lambda>_ _ _ d. (None, d)) ?ops (NewEngine False, ()) = (e', d')"
    by (metis surj_pair)
  have "clock_ok 0 ?ops" "\<forall>sp \<in> set (published ?ops). \<forall>vid. valve_key sp vid = ''r/1/v'' \<longrightarrow> sc_MaxActionsPerHour sp \<le> int 2"
    by (simp_all add: sample_spec_def)
  from actions_per_hour_bounded [OF enumerates_sorted this r, of 9] show ?thesis by (simp only: r fst_conv)
qed

text \<open>The cooldown separates fires. If every spec published under a valve key has a cooldown of at least C
  seconds (and at most 2 to the 23 seconds), two consecutive fires of that key are at least C seconds
  apart.\<close>

lemma cooldown_separates_fires:
  assumes "enumerates ord" "clock_ok c ops"
    and "\<forall>sp \<in> set (published ops). \<forall>vid. valve_key sp vid = vk \<longrightarrow>
      0 < sc_CooldownSecs sp \<and> C \<le> sc_CooldownSecs sp \<and> secs_ok (sc_CooldownSecs sp)"
    and "rules_run L ord disp ops (NewEngine b, d) = (e', d')"
  shows "successively (\<lambda>a b. a + C * Second \<le> b) (fires_of vk e')"
  using cooldown.run_from_new [OF assms] by (auto simp: cooldown_inv_def)

lemma cooldown_separates_fires_example:
  "successively (\<lambda>a b. a + 60 * Second \<le> b) (fires_of ''r/1/v''
     (fst (rules_run plain_lib sorted_list_of_set (\<lambda>_ _ _ d. (None, d))
       [OpPublish sample_spec 1, OpEvaluate 2 (point_at ''v'' 1 None None None) zero_vehicle_state []] (NewEngine False, ()))))"
proof -
  let ?ops = "[OpPublish sample_spec 1, OpEvaluate 2 (point_at ''v'' 1 None None None) zero_vehicle_state []]"
  obtain e' d' where r: "rules_run plain_lib sorted_list_of_set (\<lambda>_ _ _ d. (None, d)) ?ops (NewEngine False, ()) = (e', d')"
    by (metis surj_pair)
  have "clock_ok 0 ?ops" "\<forall>sp \<in> set (published ?ops). \<forall>vid. valve_key sp vid = ''r/1/v'' \<longrightarrow>
      0 < sc_CooldownSecs sp \<and> 60 \<le> sc_CooldownSecs sp \<and> secs_ok (sc_CooldownSecs sp)"
    by (simp_all add: sample_spec_def secs_ok_def)
  from cooldown_separates_fires [OF enumerates_sorted this r] show ?thesis by (simp only: r fst_conv)
qed

text \<open>What the rules emit does not depend on the order of the rule map. For an engine whose rules are stored
  under their keys, two evaluations of the same point with different iteration orders, and with whatever
  webhook outcomes, emit the same events up to order; each is valid, names a published rule version, and is
  caused by one of the given events.\<close>

lemma emitted_events_order_independent:
  assumes "engine_wf e" "enumerates ord" "enumerates ord'"
  shows "mset (snd (Engine_Evaluate L ord disp now t s evs (e, d))) =
      mset (snd (Engine_Evaluate L ord' disp' now t s evs (e, d')))
    \<and> (\<forall>ev \<in> set (snd (Engine_Evaluate L ord disp now t s evs (e, d))).
        event_Validate ev = None \<and> ev_CausationID ev \<in> ev_ID ` set evs
        \<and> (\<exists>r. en_rules e (ev_RuleID ev @ ''/'' @ ev_RuleVersion ev) = Some r))"
proof -
  let ?f = "\<lambda>k. rule_emits L now t s (rl_Spec (the (en_rules e k))) evs (valve_of e (k @ ''/'' @ tel_VehicleID t))"
  let ?D = "dom (en_rules e)"
  have keys: "set (ord ?D) = ?D" "distinct (ord ?D)" "set (ord' ?D) = ?D" "distinct (ord' ?D)"
    using assms by (simp_all add: enumerates_def engine_wf_def)
  then have "mset (ord ?D) = mset (ord' ?D)" by (simp add: set_eq_iff_mset_eq_distinct [symmetric])
  then have "mset (concat (map ?f (ord ?D))) = mset (concat (map ?f (ord' ?D)))"
    by (simp only: mset_concat map_map sum_mset_sum_list [symmetric] mset_map)
  moreover have "event_Validate ev = None \<and> ev_CausationID ev \<in> ev_ID ` set evs
      \<and> (\<exists>r. en_rules e (ev_RuleID ev @ ''/'' @ ev_RuleVersion ev) = Some r)"
    if in_out: "ev \<in> set (concat (map ?f (ord ?D)))" for ev
  proof -
    obtain k r where k: "en_rules e k = Some r" "ev \<in> set (?f k)" using in_out keys(1) by auto
    with rule_emits_valid [OF k(2)] assms(1) show ?thesis by (auto simp: engine_wf_def rule_key_def)
  qed
  ultimately show ?thesis by (simp add: Evaluate_emits assms)
qed

lemma emitted_events_order_independent_example:
  "mset (snd (Engine_Evaluate plain_lib sorted_list_of_set (\<lambda>_ _ _ d. (None, d)) 5 (point_at ''v'' 1 None None None)
       zero_vehicle_state [sample_event] (snd (Engine_Publish sample_spec 1 (NewEngine False)), ()))) =
   mset (snd (Engine_Evaluate plain_lib (rev \<circ> sorted_list_of_set) (\<lambda>_ _ _ d. (Some ''e'', d)) 5 (point_at ''v'' 1 None None None)
       zero_vehicle_state [sample_event] (snd (Engine_Publish sample_spec 1 (NewEngine False)), ())))"
proof -
  have "engine_wf (snd (Engine_Publish sample_spec 1 (NewEngine False)))"
    by (intro engine_wf_publish) (simp add: engine_wf_def NewEngine_def)
  moreover have "enumerates (rev \<circ> sorted_list_of_set :: string set \<Rightarrow> string list)"
    using enumerates_sorted by (simp add: enumerates_def)
  ultimately show ?thesis by (rule emitted_events_order_independent [OF _ enumerates_sorted, THEN conjunct1])
qed

end
