(* ===== verification/Pipeline.thy ===== *)
theory Pipeline
  imports Dedup Detectors Geo Eventbus Rules
begin

section \<open>The processing pipeline (internal/pipeline)\<close>

text \<open>
  \<open>Process\<close> is the one path every point takes: validation, future-skew guard, dedup, log, state, detectors,
  geofences, rules, bus. It is written once over the operations of the interfaces the struct \<open>Pipeline\<close> holds
  (the record \<open>pipeline_ops\<close> on a state \<open>'p\<close>), and instantiated with the in-memory implementations of the
  other theories (\<open>mem_pipeline\<close>). The clock is read at four places of the code; the readings are the fields
  of \<open>clocks\<close>. One call of \<open>Process\<close> is one step here.
\<close>

definition MaxFutureSkew :: duration where
  "MaxFutureSkew = Hour"

definition MemoryLog_Append :: "telemetry \<Rightarrow> telemetry list \<Rightarrow> go_error option \<times> telemetry list" where
  "MemoryLog_Append t m = (None, m @ [t])"

text \<open>An error of \<open>Process\<close>: a plain one, or a \<open>PublishError\<close> with the events already computed.\<close>

datatype process_error = PlainError go_error | PublishError "event list" go_error

definition process_error_string :: "process_error \<Rightarrow> string" where
  "process_error_string pe = (case pe of PlainError err \<Rightarrow> err | PublishError evs err \<Rightarrow> ''publish: '' @ err)"

text \<open>\<open>Format(time.RFC3339)\<close> of an instant in UTC.\<close>

definition format_rfc3339 :: "time \<Rightarrow> string" where
  "format_rfc3339 t =
     format_date (t div (86400 * Second)) @ ''T'' @ format_clock (t mod (86400 * Second) div Second) @ ''Z''"

record clocks =
  ck_skew :: time
  ck_seen :: time
  ck_apply :: time
  ck_rules :: time

record 'p pipeline_ops =
  po_Seen :: "string \<Rightarrow> 'p \<Rightarrow> (bool \<times> go_error option) \<times> 'p"
  po_Append :: "telemetry \<Rightarrow> 'p \<Rightarrow> go_error option \<times> 'p"
  po_Get :: "string \<Rightarrow> 'p \<Rightarrow> (vehicle_state \<times> bool) \<times> go_error option"
  po_Set :: "vehicle_state \<Rightarrow> 'p \<Rightarrow> go_error option \<times> 'p"
  po_Detect :: "telemetry \<Rightarrow> vehicle_state \<Rightarrow> 'p \<Rightarrow> 'p \<times> event list"
  po_Geo :: "(telemetry \<Rightarrow> 'p \<Rightarrow> 'p \<times> event list) option"
  po_Rules :: "(telemetry \<Rightarrow> vehicle_state \<Rightarrow> event list \<Rightarrow> 'p \<Rightarrow> 'p \<times> event list) option"
  po_Publish :: "event \<Rightarrow> 'p \<Rightarrow> go_error option \<times> 'p"

type_synonym process_result = "event list \<times> bool \<times> process_error option"

text \<open>The part of \<open>Process\<close> after the state was stored: detection, geofences, rules and publication.\<close>

definition detect_and_publish :: "'p pipeline_ops \<Rightarrow> telemetry \<Rightarrow> vehicle_state \<Rightarrow> 'p \<Rightarrow> process_result \<times> 'p" where
  "detect_and_publish ops t next_state p =
     (let (p, evs) = po_Detect ops t next_state p;
          (p, evs) = (case po_Geo ops of None \<Rightarrow> (p, evs) | Some geo \<Rightarrow> (let (p, g) = geo t p in (p, evs @ g)));
          (p, evs) = (case po_Rules ops of None \<Rightarrow> (p, evs)
                      | Some rls \<Rightarrow> (let (p, r) = rls t next_state evs p in (p, evs @ r)))
      in case publish_all (po_Publish ops) evs p of
           (Some err, p) \<Rightarrow> ((evs, False, Some (PublishError evs err)), p)
         | (None, p) \<Rightarrow> ((evs, False, None), p))"

definition Process :: "go_lib \<Rightarrow> 'p pipeline_ops \<Rightarrow> clocks \<Rightarrow> telemetry \<Rightarrow> 'p \<Rightarrow> process_result \<times> 'p" where
  "Process L ops clk t p =
     (case telemetry_Validate t of
        Some err \<Rightarrow> (([], False, Some (PlainError err)), p)
      | None \<Rightarrow>
      if ck_skew clk + MaxFutureSkew < tel_Timestamp t
      then (([], False, Some (PlainError (''timestamp '' @ format_rfc3339 (tel_Timestamp t) @ '' too far in future''))), p)
      else case po_Seen ops (DedupKey L t) p of
        ((dup, Some err), p) \<Rightarrow> (([], False, Some (PlainError err)), p)
      | ((dup, None), p) \<Rightarrow>
      if dup then (([], True, None), p)
      else case po_Append ops t p of
        (Some err, p) \<Rightarrow> (([], False, Some (PlainError err)), p)
      | (None, p) \<Rightarrow>
      (case po_Get ops (tel_VehicleID t) p of
        (_, Some err) \<Rightarrow> (([], False, Some (PlainError err)), p)
      | ((prev, _), None) \<Rightarrow>
      (let (next_state, _) = Apply (ck_apply clk) prev t
       in case po_Set ops next_state p of
            (Some err, p) \<Rightarrow> (([], False, Some (PlainError err)), p)
          | (None, p) \<Rightarrow> detect_and_publish ops t next_state p)))"

subsection \<open>The in-memory pipeline\<close>

record 'd mem_pipeline =
  mp_dedup :: dedup_memory
  mp_states :: memory_store
  mp_log :: "telemetry list"
  mp_bus :: memory_bus
  mp_tracker :: tracker
  mp_geo :: "geo_tracker option"
  mp_rules :: "(engine \<times> 'd) option"

definition mem_ops ::
  "go_lib \<Rightarrow> (string set \<Rightarrow> string list) \<Rightarrow> (string \<Rightarrow> string \<Rightarrow> event \<Rightarrow> 'd \<Rightarrow> go_error option \<times> 'd) \<Rightarrow> clocks
    \<Rightarrow> 'd mem_pipeline \<Rightarrow> ('d mem_pipeline) pipeline_ops" where
  "mem_ops L ord disp clk p0 =
     \<lparr>po_Seen = (\<lambda>k p. let (r, m) = MemoryStore_Seen (ck_seen clk) k (mp_dedup p) in (r, p\<lparr>mp_dedup := m\<rparr>)),
      po_Append = (\<lambda>t p. let (err, l) = MemoryLog_Append t (mp_log p) in (err, p\<lparr>mp_log := l\<rparr>)),
      po_Get = (\<lambda>v p. MemoryStore_Get v (mp_states p)),
      po_Set = (\<lambda>s p. let (err, m) = MemoryStore_Set s (mp_states p) in (err, p\<lparr>mp_states := m\<rparr>)),
      po_Detect = (\<lambda>t s p. let (tr, evs) = Detect L t s (mp_tracker p) in (p\<lparr>mp_tracker := tr\<rparr>, evs)),
      po_Geo = (if mp_geo p0 = None then None
                else Some (\<lambda>t p. let (g, evs) = Evaluate t (the (mp_geo p)) in (p\<lparr>mp_geo := Some g\<rparr>, evs))),
      po_Rules = (if mp_rules p0 = None then None
                  else Some (\<lambda>t s evs p. let (r, out) = Engine_Evaluate L ord disp (ck_rules clk) t s evs (the (mp_rules p))
                                         in (p\<lparr>mp_rules := Some r\<rparr>, out))),
      po_Publish = (\<lambda>e p. let (err, b) = MemoryBus_Publish e (mp_bus p) in (err, p\<lparr>mp_bus := b\<rparr>))\<rparr>"

text \<open>\<open>Process\<close> on the in-memory pipeline; whether geofences and rules are configured does not change.\<close>

definition mem_Process ::
  "go_lib \<Rightarrow> (string set \<Rightarrow> string list) \<Rightarrow> (string \<Rightarrow> string \<Rightarrow> event \<Rightarrow> 'd \<Rightarrow> go_error option \<times> 'd) \<Rightarrow> clocks
    \<Rightarrow> telemetry \<Rightarrow> 'd mem_pipeline \<Rightarrow> process_result \<times> 'd mem_pipeline" where
  "mem_Process L ord disp clk t p = Process L (mem_ops L ord disp clk p) clk t p"

definition NewTestPipeline :: "'d mem_pipeline" where
  "NewTestPipeline =
     \<lparr>mp_dedup = NewDedupStore 0, mp_states = NewMemoryStore, mp_log = [], mp_bus = [],
      mp_tracker = NewTracker DefaultDetConfig, mp_geo = None, mp_rules = None\<rparr>"

subsection \<open>One call on the in-memory pipeline\<close>

definition accepted :: "clocks \<Rightarrow> telemetry \<Rightarrow> bool" where
  "accepted clk t \<longleftrightarrow> telemetry_Validate t = None \<and> tel_Timestamp t \<le> ck_skew clk + MaxFutureSkew"

definition duplicate :: "go_lib \<Rightarrow> clocks \<Rightarrow> telemetry \<Rightarrow> 'd mem_pipeline \<Rightarrow> bool" where
  "duplicate L clk t p \<longleftrightarrow> fst (fst (MemoryStore_Seen (ck_seen clk) (DedupKey L t) (mp_dedup p)))"

lemma MemoryStore_Seen_cases:
  "MemoryStore_Seen now k m = (if fst (fst (MemoryStore_Seen now k m)) then ((True, None), m)
     else ((False, None), m\<lparr>dm_seen := (dm_seen m)(k \<mapsto> now)\<rparr>))"
  by (simp add: MemoryStore_Seen_def split: option.split)

lemma mem_Process_rejected:
  "\<not> accepted clk t \<Longrightarrow> \<exists>err. mem_Process L ord disp clk t p = (([], False, Some (PlainError err)), p)"
  by (cases "telemetry_Validate t") (auto simp: accepted_def mem_Process_def Process_def)

lemma mem_Process_duplicate:
  assumes "accepted clk t" "duplicate L clk t p"
  shows "mem_Process L ord disp clk t p = (([], True, None), p)"
proof -
  have "MemoryStore_Seen (ck_seen clk) (DedupKey L t) (mp_dedup p) = ((True, None), mp_dedup p)"
    using assms(2) MemoryStore_Seen_cases [of "ck_seen clk" "DedupKey L t" "mp_dedup p"] by (simp add: duplicate_def)
  then show ?thesis using assms(1) by (simp add: mem_Process_def Process_def accepted_def mem_ops_def)
qed

text \<open>A fresh accepted point: the dedup, log and state effects, then detection and publication.\<close>

definition state_of :: "'d mem_pipeline \<Rightarrow> string \<Rightarrow> vehicle_state" where
  "state_of p v = (case mp_states p v of None \<Rightarrow> zero_vehicle_state | Some s \<Rightarrow> s)"

definition ingested :: "go_lib \<Rightarrow> clocks \<Rightarrow> telemetry \<Rightarrow> 'd mem_pipeline \<Rightarrow> 'd mem_pipeline" where
  "ingested L clk t p =
     p\<lparr>mp_dedup := (mp_dedup p)\<lparr>dm_seen := (dm_seen (mp_dedup p))(DedupKey L t \<mapsto> ck_seen clk)\<rparr>,
       mp_log := mp_log p @ [t],
       mp_states := (mp_states p)(tel_VehicleID t \<mapsto> fst (Apply (ck_apply clk) (state_of p (tel_VehicleID t)) t))\<rparr>"

lemma mem_Process_fresh:
  assumes "accepted clk t" "\<not> duplicate L clk t p"
  shows "mem_Process L ord disp clk t p =
    detect_and_publish (mem_ops L ord disp clk p) t (fst (Apply (ck_apply clk) (state_of p (tel_VehicleID t)) t)) (ingested L clk t p)"
proof -
  have "MemoryStore_Seen (ck_seen clk) (DedupKey L t) (mp_dedup p) =
      ((False, None), (mp_dedup p)\<lparr>dm_seen := (dm_seen (mp_dedup p))(DedupKey L t \<mapsto> ck_seen clk)\<rparr>)"
    using assms(2) MemoryStore_Seen_cases [of "ck_seen clk" "DedupKey L t" "mp_dedup p"] by (simp add: duplicate_def)
  then show ?thesis
    using assms(1)
    by (simp add: mem_Process_def Process_def accepted_def mem_ops_def MemoryLog_Append_def MemoryStore_Get_def
        MemoryStore_Set_def ingested_def state_of_def case_prod_beta Let_def split: option.split)
qed

lemma publish_all_lift:
  "publish_all (\<lambda>e p. let (err, b) = MemoryBus_Publish e (mp_bus p) in (err, p\<lparr>mp_bus := b\<rparr>)) evs p =
     (fst (publish_all MemoryBus_Publish evs (mp_bus p)), p\<lparr>mp_bus := snd (publish_all MemoryBus_Publish evs (mp_bus p))\<rparr>)"
proof (induction evs arbitrary: p)
  case (Cons e evs)
  obtain err b where b: "MemoryBus_Publish e (mp_bus p) = (err, b)" by fastforce
  show ?case using Cons [of "p\<lparr>mp_bus := b\<rparr>"] b by (cases err) simp_all
qed simp

subsection \<open>Detection and publication\<close>

definition geo_part :: "telemetry \<Rightarrow> 'd mem_pipeline \<Rightarrow> geo_tracker option \<times> event list" where
  "geo_part t p = (case mp_geo p of None \<Rightarrow> (None, [])
     | Some g \<Rightarrow> (Some (fst (Evaluate t g)), snd (Evaluate t g)))"

definition rules_part ::
  "go_lib \<Rightarrow> (string set \<Rightarrow> string list) \<Rightarrow> (string \<Rightarrow> string \<Rightarrow> event \<Rightarrow> 'd \<Rightarrow> go_error option \<times> 'd) \<Rightarrow> clocks \<Rightarrow> telemetry
    \<Rightarrow> vehicle_state \<Rightarrow> event list \<Rightarrow> 'd mem_pipeline \<Rightarrow> (engine \<times> 'd) option \<times> event list" where
  "rules_part L ord disp clk t s evs p = (case mp_rules p of None \<Rightarrow> (None, [])
     | Some r \<Rightarrow> (Some (fst (Engine_Evaluate L ord disp (ck_rules clk) t s evs r)),
                  snd (Engine_Evaluate L ord disp (ck_rules clk) t s evs r)))"

text \<open>The events of a point, and the pipeline with the detector, fence and rule effects.\<close>

definition point_events ::
  "go_lib \<Rightarrow> (string set \<Rightarrow> string list) \<Rightarrow> (string \<Rightarrow> string \<Rightarrow> event \<Rightarrow> 'd \<Rightarrow> go_error option \<times> 'd) \<Rightarrow> clocks \<Rightarrow> telemetry
    \<Rightarrow> vehicle_state \<Rightarrow> 'd mem_pipeline \<Rightarrow> event list" where
  "point_events L ord disp clk t s p =
     (let evs = snd (Detect L t s (mp_tracker p)) @ snd (geo_part t p)
      in evs @ snd (rules_part L ord disp clk t s evs p))"

definition detected ::
  "go_lib \<Rightarrow> (string set \<Rightarrow> string list) \<Rightarrow> (string \<Rightarrow> string \<Rightarrow> event \<Rightarrow> 'd \<Rightarrow> go_error option \<times> 'd) \<Rightarrow> clocks \<Rightarrow> telemetry
    \<Rightarrow> vehicle_state \<Rightarrow> 'd mem_pipeline \<Rightarrow> 'd mem_pipeline" where
  "detected L ord disp clk t s p =
     p\<lparr>mp_tracker := fst (Detect L t s (mp_tracker p)), mp_geo := fst (geo_part t p),
       mp_rules := fst (rules_part L ord disp clk t s (snd (Detect L t s (mp_tracker p)) @ snd (geo_part t p)) p)\<rparr>"

lemma detect_and_publish_mem:
  assumes "mp_geo p0 = mp_geo p" "mp_rules p0 = mp_rules p"
  shows "detect_and_publish (mem_ops L ord disp clk p0) t s p =
    (let evs = point_events L ord disp clk t s p; (err, b) = publish_all MemoryBus_Publish evs (mp_bus p)
     in ((evs, False, map_option (PublishError evs) err), (detected L ord disp clk t s p)\<lparr>mp_bus := b\<rparr>))"
proof -
  have pub: "po_Publish (mem_ops L ord disp clk p0) = (\<lambda>e p. let (err, b) = MemoryBus_Publish e (mp_bus p) in (err, p\<lparr>mp_bus := b\<rparr>))"
    by (simp add: mem_ops_def)
  show ?thesis
    unfolding detect_and_publish_def pub publish_all_lift
    using assms
    by (cases "mp_geo p"; cases "mp_rules p")
      (auto simp: mem_ops_def point_events_def detected_def geo_part_def rules_part_def case_prod_beta Let_def
        split: option.split)
qed

lemma ingested_frame [simp]:
  "mp_geo (ingested L clk t p) = mp_geo p" "mp_rules (ingested L clk t p) = mp_rules p"
  "mp_bus (ingested L clk t p) = mp_bus p" "mp_tracker (ingested L clk t p) = mp_tracker p"
  "mp_log (ingested L clk t p) = mp_log p @ [t]"
  "dm_seen (mp_dedup (ingested L clk t p)) = (dm_seen (mp_dedup p))(DedupKey L t \<mapsto> ck_seen clk)"
  "dm_ttl (mp_dedup (ingested L clk t p)) = dm_ttl (mp_dedup p)"
  by (simp_all add: ingested_def)

lemma detected_frame [simp]:
  "mp_dedup (detected L ord disp clk t s p) = mp_dedup p" "mp_log (detected L ord disp clk t s p) = mp_log p"
  "mp_states (detected L ord disp clk t s p) = mp_states p" "mp_bus (detected L ord disp clk t s p) = mp_bus p"
  by (simp_all add: detected_def)

text \<open>A fresh accepted point, in one equation.\<close>

lemma mem_Process_fresh_result:
  assumes "accepted clk t" "\<not> duplicate L clk t p"
    and "s = fst (Apply (ck_apply clk) (state_of p (tel_VehicleID t)) t)" and "evs = point_events L ord disp clk t s (ingested L clk t p)"
  shows "mem_Process L ord disp clk t p =
    ((evs, False, map_option (PublishError evs) (fst (publish_all MemoryBus_Publish evs (mp_bus p)))),
     (detected L ord disp clk t s (ingested L clk t p))\<lparr>mp_bus := snd (publish_all MemoryBus_Publish evs (mp_bus p))\<rparr>)"
  unfolding mem_Process_fresh [OF assms(1,2)] using assms(3,4)
  by (subst detect_and_publish_mem) (simp_all add: Let_def case_prod_beta)

lemma point_events_valid:
  assumes "telemetry_Validate t = None" "md_CorrelationID (tel_Metadata t) \<noteq> []"
  shows "\<forall>e \<in> set (point_events L ord disp clk t s p). event_Validate e = None"
proof -
  have "event_Validate e = None" if "e \<in> set (snd (Detect L t s (mp_tracker p)))" for e
    using Detect_event_of_point [OF that] assms by (auto simp: event_Validate_ok_iff telemetry_Validate_ok_iff)
  moreover have "event_Validate e = None" if "e \<in> set (snd (geo_part t p))" for e
    using that Evaluate_events fence_event_valid [OF assms(1)] assms(2)
    by (fastforce simp: geo_part_def split: option.splits)
  ultimately show ?thesis
    using Evaluate_valid by (fastforce simp: point_events_def rules_part_def Let_def split: option.splits)
qed

subsection \<open>Runs\<close>

fun mem_run ::
  "go_lib \<Rightarrow> (string set \<Rightarrow> string list) \<Rightarrow> (string \<Rightarrow> string \<Rightarrow> event \<Rightarrow> 'd \<Rightarrow> go_error option \<times> 'd) \<Rightarrow> (clocks \<times> telemetry) list
    \<Rightarrow> 'd mem_pipeline \<Rightarrow> process_result list \<times> 'd mem_pipeline" where
  "mem_run L ord disp [] p = ([], p)"
| "mem_run L ord disp (ct # cts) p =
     (let (r, p') = mem_Process L ord disp (fst ct) (snd ct) p; (rs, p'') = mem_run L ord disp cts p' in (r # rs, p''))"

text \<open>The points of a stream that pass the checks and whose dedup key was not seen before.\<close>

fun effective :: "go_lib \<Rightarrow> string set \<Rightarrow> (clocks \<times> telemetry) list \<Rightarrow> (clocks \<times> telemetry) list" where
  "effective L S [] = []"
| "effective L S (ct # cts) =
     (if accepted (fst ct) (snd ct) \<and> DedupKey L (snd ct) \<notin> S
      then ct # effective L (insert (DedupKey L (snd ct)) S) cts else effective L S cts)"

text \<open>The clock readings of a stream lie within one dedup window of each other and of what was recorded.\<close>

definition in_window :: "'d mem_pipeline \<Rightarrow> (clocks \<times> telemetry) list \<Rightarrow> bool" where
  "in_window p cts \<longleftrightarrow> dedup_inv (mp_dedup p)
     \<and> (\<forall>a \<in> set cts. \<forall>b \<in> set cts. ck_seen (fst b) - ck_seen (fst a) < dm_ttl (mp_dedup p))
     \<and> (\<forall>k ts. dm_seen (mp_dedup p) k = Some ts \<longrightarrow> (\<forall>b \<in> set cts. ck_seen (fst b) - ts < dm_ttl (mp_dedup p)))"

lemma duplicate_iff:
  assumes "in_window p (ct # cts)"
  shows "duplicate L (fst ct) (snd ct) p \<longleftrightarrow> DedupKey L (snd ct) \<in> dom (dm_seen (mp_dedup p))"
  using mem_dedup.seen_flag [of "mp_dedup p" "ck_seen (fst ct)" "DedupKey L (snd ct)"] assms
  by (auto simp: duplicate_def in_window_def)

lemma in_window_fresh:
  assumes "in_window p (ct # cts)" "mp_dedup p' = mp_dedup (ingested L (fst ct) (snd ct) p)"
  shows "in_window p' cts"
  using assms(1) by (auto simp: in_window_def assms(2) dedup_inv_def split: if_splits)

lemma in_window_skip: "in_window p (ct # cts) \<Longrightarrow> in_window p cts"
  by (simp add: in_window_def)

lemma mem_run_effective:
  assumes "in_window p cts" "S = dom (dm_seen (mp_dedup p))"
  shows "snd (mem_run L ord disp cts p) = snd (mem_run L ord disp (effective L S cts) p)
    \<and> mp_log (snd (mem_run L ord disp cts p)) = mp_log p @ map snd (effective L S cts)"
  using assms
proof (induction cts arbitrary: p S)
  case (Cons ct cts)
  note dup = duplicate_iff [OF Cons.prems(1), of L]
  show ?case
  proof (cases "accepted (fst ct) (snd ct) \<and> DedupKey L (snd ct) \<notin> S")
    case True
    let ?p = "snd (mem_Process L ord disp (fst ct) (snd ct) p)"
    have p': "mp_dedup ?p = mp_dedup (ingested L (fst ct) (snd ct) p)" "mp_log ?p = mp_log p @ [snd ct]"
      using mem_Process_fresh_result [of "fst ct" "snd ct" L p _ _ ord disp] True dup Cons.prems(2) by simp_all
    have "dom (dm_seen (mp_dedup ?p)) = insert (DedupKey L (snd ct)) S" using p'(1) Cons.prems(2) by simp
    with Cons.IH [OF in_window_fresh [OF Cons.prems(1) p'(1)], of "insert (DedupKey L (snd ct)) S"] True p'(2)
    show ?thesis by (auto simp: case_prod_beta Let_def)
  next
    case False
    have "snd (mem_Process L ord disp (fst ct) (snd ct) p) = p"
    proof (cases "accepted (fst ct) (snd ct)")
      case acc: True
      then show ?thesis using mem_Process_duplicate [OF acc, of L p ord disp] False dup Cons.prems(2) by simp
    next
      case acc: False
      then show ?thesis using mem_Process_rejected [OF acc, of L ord disp p] by auto
    qed
    with Cons.IH [OF in_window_skip [OF Cons.prems(1)] Cons.prems(2)] False show ?thesis
      by (auto simp: case_prod_beta Let_def)
  qed
qed simp

text \<open>An accepted point leaves its key in the dedup store, and no key is forgotten.\<close>

lemma mem_Process_remembers:
  assumes "mem_Process L ord disp clk t p = ((evs, dup, None), p')"
  shows "DedupKey L t \<in> dom (dm_seen (mp_dedup p')) \<and> dom (dm_seen (mp_dedup p)) \<subseteq> dom (dm_seen (mp_dedup p'))
    \<and> dm_ttl (mp_dedup p') = dm_ttl (mp_dedup p) \<and> accepted clk t
    \<and> (dm_seen (mp_dedup p') = dm_seen (mp_dedup p) \<or> dm_seen (mp_dedup p') = (dm_seen (mp_dedup p))(DedupKey L t \<mapsto> ck_seen clk))"
proof -
  have acc: "accepted clk t" using assms mem_Process_rejected [of clk t L ord disp p] by fastforce
  show ?thesis
  proof (cases "duplicate L clk t p")
    case True
    then have "DedupKey L t \<in> dom (dm_seen (mp_dedup p))"
      by (auto simp: duplicate_def MemoryStore_Seen_def split: option.splits)
    then show ?thesis using mem_Process_duplicate [OF acc True, of ord disp] assms acc by simp
  next
    case False
    then have "mp_dedup p' = mp_dedup (ingested L clk t p)"
      using mem_Process_fresh_result [OF acc False refl refl, of ord disp] assms by auto
    then show ?thesis using acc by auto
  qed
qed

text \<open>A point with the key of an accepted one is absorbed while the window remembers it.\<close>

lemma mem_Process_again:
  assumes "mem_Process L ord disp clk t p = ((evs, dup, None), p')" "DedupKey L t' = DedupKey L t" "accepted clk' t'"
    and "dedup_inv (mp_dedup p)" "\<And>ts. dm_seen (mp_dedup p') (DedupKey L t) = Some ts \<Longrightarrow> ck_seen clk' - ts < dm_ttl (mp_dedup p')"
  shows "mem_Process L ord' disp' clk' t' p' = (([], True, None), p')"
proof (rule mem_Process_duplicate [OF assms(3)])
  note r = mem_Process_remembers [OF assms(1)]
  have "dedup_inv (mp_dedup p')" using r assms(4) by (simp add: dedup_inv_def)
  with r assms(2,5) show "duplicate L clk' t' p'"
    using mem_dedup.seen_flag [of "mp_dedup p'" "ck_seen clk'" "DedupKey L t"] by (auto simp: duplicate_def)
qed

lemma NewTestPipeline_start:
  "dm_seen (mp_dedup NewTestPipeline) = Map.empty" "mp_log NewTestPipeline = []" "mp_states NewTestPipeline v = None"
  "dm_ttl (mp_dedup NewTestPipeline) = 24 * Hour" "dedup_inv (mp_dedup NewTestPipeline)"
  using dedup_inv_New [of 0] by (simp_all add: NewTestPipeline_def NewDedupStore_def NewMemoryStore_def in_int64_def)

lemma NewTestPipeline_window:
  "\<forall>a \<in> set cts. \<forall>b \<in> set cts. ck_seen (fst b) - ck_seen (fst a) < 24 * Hour \<Longrightarrow> in_window NewTestPipeline cts"
  unfolding in_window_def by (simp add: NewTestPipeline_start)

text \<open>With correlation ids present, every event of a run reaches the bus.\<close>

lemma mem_run_publishes:
  assumes "\<forall>ct \<in> set cts. accepted (fst ct) (snd ct) \<and> md_CorrelationID (tel_Metadata (snd ct)) \<noteq> []"
  shows "(\<forall>r \<in> set (fst (mem_run L ord disp cts p)). snd (snd r) = None)
    \<and> mp_bus (snd (mem_run L ord disp cts p)) = mp_bus p @ concat (map fst (fst (mem_run L ord disp cts p)))"
  using assms
proof (induction cts arbitrary: p)
  case (Cons ct cts)
  obtain evs d err p' where r: "mem_Process L ord disp (fst ct) (snd ct) p = ((evs, d, err), p')" by (metis surj_pair)
  have acc: "accepted (fst ct) (snd ct)" using Cons.prems by simp
  have one: "err = None \<and> mp_bus p' = mp_bus p @ evs"
  proof (cases "duplicate L (fst ct) (snd ct) p")
    case True
    then show ?thesis using mem_Process_duplicate [OF acc True, of ord disp] r by simp
  next
    case False
    let ?s = "fst (Apply (ck_apply (fst ct)) (state_of p (tel_VehicleID (snd ct))) (snd ct))"
    let ?evs = "point_events L ord disp (fst ct) (snd ct) ?s (ingested L (fst ct) (snd ct) p)"
    have "\<forall>e \<in> set ?evs. event_Validate e = None"
      by (rule point_events_valid) (use Cons.prems in \<open>auto simp: accepted_def\<close>)
    from mem_bus.publish_all_ok [OF this, of "mp_bus p"] mem_Process_fresh_result [OF acc False refl refl, of ord disp] r
    show ?thesis by (simp add: MemoryBus_Snapshot_def)
  qed
  then show ?case using Cons.IH [of p'] Cons.prems r by (simp add: case_prod_beta Let_def)
qed simp

text \<open>The watermark of a vehicle never runs more than the allowed skew ahead of the clock.\<close>

definition watermarks_below :: "time \<Rightarrow> 'd mem_pipeline \<Rightarrow> bool" where
  "watermarks_below c p \<longleftrightarrow> (\<forall>v s. mp_states p v = Some s \<longrightarrow> vs_LastSeen s \<le> c + MaxFutureSkew)"

lemma watermark_step:
  assumes "watermarks_below c p" "ck_skew clk \<le> c"
  shows "watermarks_below c (snd (mem_Process L ord disp clk t p))"
proof (cases "accepted clk t \<and> \<not> duplicate L clk t p")
  case True
  have "vs_LastSeen (fst (Apply (ck_apply clk) (state_of p v) t)) \<le> c + MaxFutureSkew" for v
    using True assms
    by (auto simp: Apply_LastSeen accepted_def watermarks_below_def state_of_def is_late_def zero_vehicle_state_def IsZero_def
        split: option.split)
  then show ?thesis
    using True assms(1) mem_Process_fresh_result [of clk t L p _ _ ord disp]
    by (simp add: watermarks_below_def ingested_def)
next
  case False
  then have "snd (mem_Process L ord disp clk t p) = p"
    using mem_Process_rejected [of clk t L ord disp p] mem_Process_duplicate [of clk t L p ord disp] by fastforce
  then show ?thesis using assms(1) by simp
qed

lemma watermark_run:
  "watermarks_below c p \<Longrightarrow> \<forall>ct \<in> set cts. ck_skew (fst ct) \<le> c \<Longrightarrow> watermarks_below c (snd (mem_run L ord disp cts p))"
  by (induction cts arbitrary: p) (simp_all add: case_prod_beta Let_def watermark_step)

subsection \<open>Properties\<close>

text \<open>C1: Processing is idempotent within a dedup window. Fed with any stream of points whose clock readings lie
  within one window, a fresh pipeline ends in exactly the state it reaches on the sub-stream of the
  acceptable points with a dedup key not seen before: duplicates and rejected points leave no trace in the
  dedup store, log, states, detectors, fences, rules or bus, and the log holds exactly that sub-stream.\<close>

theorem processing_is_idempotent:
  assumes "\<forall>a \<in> set cts. \<forall>b \<in> set cts. ck_seen (fst b) - ck_seen (fst a) < 24 * Hour"
  shows "snd (mem_run L ord disp cts NewTestPipeline) = snd (mem_run L ord disp (effective L {} cts) NewTestPipeline)
    \<and> mp_log (snd (mem_run L ord disp cts NewTestPipeline)) = map snd (effective L {} cts)"
  by (rule mem_run_effective [OF NewTestPipeline_window [OF assms] refl, of L ord disp,
        unfolded NewTestPipeline_start dom_empty append_Nil])

definition clk_at :: "time \<Rightarrow> clocks" where
  "clk_at n = \<lparr>ck_skew = n, ck_seen = n, ck_apply = n, ck_rules = n\<rparr>"

theorem processing_is_idempotent_witness:
  "mp_log (snd (mem_run plain_lib sorted_list_of_set (\<lambda>_ _ _ d. (None, d))
     [(clk_at 5, point_at ''v'' 1 None None (Some 7)), (clk_at 6, point_at ''v'' 1 None None (Some 7))] (NewTestPipeline :: unit mem_pipeline)))
   = map snd (effective plain_lib {} [(clk_at 5, point_at ''v'' 1 None None (Some 7)), (clk_at 6, point_at ''v'' 1 None None (Some 7))])"
  by (rule processing_is_idempotent [THEN conjunct2]) (simp add: clk_at_def)

text \<open>Every computed event is published. When all points of a run pass the checks and carry a correlation
  id, no call reports an error, and the bus receives exactly the events the calls return, in order.\<close>

lemma events_reach_the_bus:
  assumes "\<forall>ct \<in> set cts. accepted (fst ct) (snd ct) \<and> md_CorrelationID (tel_Metadata (snd ct)) \<noteq> []"
  shows "(\<forall>r \<in> set (fst (mem_run L ord disp cts p)). snd (snd r) = None)
    \<and> mp_bus (snd (mem_run L ord disp cts p)) = mp_bus p @ concat (map fst (fst (mem_run L ord disp cts p)))"
  by (rule mem_run_publishes [OF assms])

lemma events_reach_the_bus_example:
  "mp_bus (snd (mem_run plain_lib sorted_list_of_set (\<lambda>_ _ _ d. (None, d)) [(clk_at 5, point_at ''v'' 1 (Some (Fin 50)) None None)]
      (NewTestPipeline :: unit mem_pipeline))) =
   concat (map fst (fst (mem_run plain_lib sorted_list_of_set (\<lambda>_ _ _ d. (None, d)) [(clk_at 5, point_at ''v'' 1 (Some (Fin 50)) None None)]
      (NewTestPipeline :: unit mem_pipeline))))"
  using events_reach_the_bus [of "[(clk_at 5, point_at ''v'' 1 (Some (Fin 50)) None None)]" plain_lib sorted_list_of_set
      "\<lambda>_ _ _ d. (None, d)" "NewTestPipeline :: unit mem_pipeline"]
  by (simp add: accepted_def point_at_valid clk_at_def MaxFutureSkew_def NewTestPipeline_def) (simp add: point_at_simps)

text \<open>No point can push a vehicle's watermark far into the future. In any run from a fresh pipeline, the last
  seen event time of every vehicle is at most one hour ahead of the latest clock reading, so a vehicle's state
  is not frozen by a bad device clock for longer than that.\<close>

lemma watermark_bounded_by_clock:
  assumes "\<forall>ct \<in> set cts. ck_skew (fst ct) \<le> c"
    and "mp_states (snd (mem_run L ord disp cts NewTestPipeline)) v = Some s"
  shows "vs_LastSeen s \<le> c + Hour"
proof -
  have "watermarks_below c (snd (mem_run L ord disp cts NewTestPipeline))"
    by (rule watermark_run [OF _ assms(1)]) (simp add: watermarks_below_def NewTestPipeline_start)
  with assms(2) show ?thesis by (simp add: watermarks_below_def MaxFutureSkew_def)
qed

lemma watermark_bounded_by_clock_example:
  "\<exists>s. mp_states (snd (mem_run plain_lib sorted_list_of_set (\<lambda>_ _ _ d. (None, d)) [(clk_at 5, point_at ''v'' 9 None None None)]
      (NewTestPipeline :: unit mem_pipeline))) ''v'' = Some s \<and> vs_LastSeen s \<le> 5 + Hour"
proof -
  let ?t = "point_at ''v'' 9 None None None"
  let ?r = "mem_run plain_lib sorted_list_of_set (\<lambda>_ _ _ d. (None, d)) [(clk_at 5, ?t)] (NewTestPipeline :: unit mem_pipeline)"
  have a: "accepted (clk_at 5) ?t" by (simp add: accepted_def point_at_valid clk_at_def MaxFutureSkew_def) (simp add: point_at_simps)
  have d: "\<not> duplicate plain_lib (clk_at 5) ?t (NewTestPipeline :: unit mem_pipeline)"
    by (simp add: duplicate_def NewTestPipeline_start MemoryStore_Seen_def)
  have "mp_states (snd ?r) (tel_VehicleID ?t) \<noteq> None"
    using mem_Process_fresh_result [OF a d refl refl, of sorted_list_of_set "\<lambda>_ _ _ d. (None, d)"]
    by (simp add: case_prod_beta Let_def ingested_def)
  moreover have "tel_VehicleID ?t = ''v''" by (simp add: point_at_simps)
  ultimately obtain s where s: "mp_states (snd ?r) ''v'' = Some s" by auto
  have "vs_LastSeen s \<le> 5 + Hour" by (rule watermark_bounded_by_clock [OF _ s]) (simp add: clk_at_def)
  with s show ?thesis by blast
qed

text \<open>C31: A point whose event cannot be published is lost to a retry. A valid point without a correlation id
  whose processing yields an event ends in a \<open>PublishError\<close>; the same point sent again within the window is
  reported as an absorbed duplicate, and the bus stays without its events.\<close>

theorem retry_after_publish_error_absorbed:
  assumes "accepted clk t" "\<not> duplicate L clk t p" "dedup_inv (mp_dedup p)"
    and "mem_Process L ord disp clk t p = ((evs, False, Some (PublishError evs err)), p')"
    and "accepted clk' t" "ck_seen clk' - ck_seen clk < dm_ttl (mp_dedup p)"
  shows "mem_Process L ord disp clk' t p' = (([], True, None), p')"
proof -
  have m: "mp_dedup p' = mp_dedup (ingested L clk t p)"
    using mem_Process_fresh_result [OF assms(1,2) refl refl, of ord disp] assms(4) by auto
  have "dedup_inv (mp_dedup p')" using assms(3) m by (simp add: dedup_inv_def)
  then have "duplicate L clk' t p'"
    using mem_dedup.seen_flag [of "mp_dedup p'" "ck_seen clk'" "DedupKey L t"] m assms(6) by (simp add: duplicate_def)
  then show ?thesis by (rule mem_Process_duplicate [OF assms(5)])
qed

definition uncorrelated :: telemetry where
  "uncorrelated = (point_at ''v'' 9 (Some (Fin 50)) None None)\<lparr>tel_Metadata := \<lparr>md_CorrelationID = [], md_SchemaVersion = 1,
     md_Sequence = None, md_Quality = ''good''\<rparr>\<rparr>"

lemma uncorrelated_fails:
  assumes "p = (NewTestPipeline :: unit mem_pipeline)" "disp = (\<lambda>_ _ _ d. (None, d))"
  shows "\<exists>evs err p'. mem_Process plain_lib sorted_list_of_set disp (clk_at 5) uncorrelated p
    = ((evs, False, Some (PublishError evs err)), p')"
proof -
  let ?s = "fst (Apply (ck_apply (clk_at 5)) (state_of p (tel_VehicleID uncorrelated)) uncorrelated)"
  let ?evs = "point_events plain_lib sorted_list_of_set disp (clk_at 5) uncorrelated ?s (ingested plain_lib (clk_at 5) uncorrelated p)"
  have v: "telemetry_Validate uncorrelated = None" "md_CorrelationID (tel_Metadata uncorrelated) = []"
    using point_at_valid [of "''v''" 9 "Some (Fin 50)" None None]
    by (simp_all add: uncorrelated_def telemetry_Validate_ok_iff CurrentSchemaVersion_def)
  have a: "accepted (clk_at 5) uncorrelated"
    using v by (simp add: accepted_def uncorrelated_def clk_at_def MaxFutureSkew_def point_at_simps)
  have d: "\<not> duplicate plain_lib (clk_at 5) uncorrelated p"
    by (simp add: duplicate_def assms NewTestPipeline_start MemoryStore_Seen_def)
  have "vs_Motion ?s = MotionMoving"
    by (simp add: Apply_Motion is_late_def state_of_def assms NewTestPipeline_start zero_vehicle_state_def IsZero_def
        classifyMotion_def uncorrelated_def point_at_simps MovingThresholdKmh_def StoppedThresholdKmh_def)
  then have "\<exists>e es. ?evs = e # es \<and> event_Validate e \<noteq> None"
  proof -
    assume m: "vs_Motion ?s = MotionMoving"
    have "snd (Detect plain_lib uncorrelated ?s (NewTracker DefaultDetConfig)) \<noteq> []"
      using m by (simp add: Detect_events trip_step_def trip_start_def zero_trip_def Let_def case_prod_beta)
    then obtain e es where es: "?evs = e # es" "e \<in> set (snd (Detect plain_lib uncorrelated ?s (NewTracker DefaultDetConfig)))"
      by (auto simp: point_events_def Let_def assms NewTestPipeline_def neq_Nil_conv)
    then have "event_Validate e \<noteq> None"
      using Detect_event_of_point [OF es(2)] v by (auto simp: event_Validate_ok_iff)
    with es(1) show ?thesis by blast
  qed
  then obtain err where "fst (publish_all MemoryBus_Publish ?evs (mp_bus p)) = Some err"
    by (auto simp: MemoryBus_Publish_def)
  with mem_Process_fresh_result [OF a d refl refl, of sorted_list_of_set disp] show ?thesis by auto
qed

theorem retry_after_publish_error_absorbed_witness:
  "\<exists>p'. mem_Process plain_lib sorted_list_of_set (\<lambda>_ _ _ d. (None, d)) (clk_at 6) uncorrelated (p' :: unit mem_pipeline) = (([], True, None), p')
     \<and> p' = snd (mem_Process plain_lib sorted_list_of_set (\<lambda>_ _ _ d. (None, d)) (clk_at 5) uncorrelated NewTestPipeline)"
proof -
  let ?P = "mem_Process plain_lib sorted_list_of_set (\<lambda>_ _ _ d. (None, d))"
  obtain evs err and p' :: "unit mem_pipeline"
    where f: "?P (clk_at 5) uncorrelated NewTestPipeline = ((evs, False, Some (PublishError evs err)), p')"
    using uncorrelated_fails [OF refl refl] by blast
  have "telemetry_Validate uncorrelated = None"
    using point_at_valid [of "''v''" 9 "Some (Fin 50)" None None]
    by (simp add: uncorrelated_def telemetry_Validate_ok_iff CurrentSchemaVersion_def)
  then have a: "accepted (clk_at 5) uncorrelated" "accepted (clk_at 6) uncorrelated"
    by (simp_all add: accepted_def uncorrelated_def clk_at_def MaxFutureSkew_def point_at_simps)
  have d: "\<not> duplicate plain_lib (clk_at 5) uncorrelated (NewTestPipeline :: unit mem_pipeline)"
    by (simp add: duplicate_def NewTestPipeline_start MemoryStore_Seen_def)
  from retry_after_publish_error_absorbed [OF a(1) d NewTestPipeline_start(5) f a(2)] f show ?thesis
    by (simp add: clk_at_def NewTestPipeline_start)
qed

end
