(* ===== verification/Adapters.thy ===== *)
theory Adapters
  imports Pipeline
begin

section \<open>The adapter contract (adapters/adapters.go)\<close>

text \<open>
  What every source of telemetry has: health states, capabilities, an inventory of vehicles, and a normalizer
  that turns provider payloads into canonical telemetry. The locale \<open>normalizer\<close> states what the pipeline
  may expect of one; the three providers interpret it in their own theories.
\<close>

definition StateConfigured :: string where "StateConfigured = ''CONFIGURED''"
definition StateConnecting :: string where "StateConnecting = ''CONNECTING''"
definition StateHealthy :: string where "StateHealthy = ''HEALTHY''"
definition StateDegraded :: string where "StateDegraded = ''DEGRADED''"
definition StateReconnecting :: string where "StateReconnecting = ''RECONNECTING''"
definition StateFailed :: string where "StateFailed = ''FAILED''"

lemmas health_states = StateConfigured_def StateConnecting_def StateHealthy_def StateDegraded_def
  StateReconnecting_def StateFailed_def

record health_status =
  hs_State :: string
  hs_Message :: string
  hs_DeviceCount :: int
  hs_MsgPerSec :: float64

record capabilities =
  cp_LiveTelemetry :: bool
  cp_HistoricalData :: bool
  cp_DeviceList :: bool
  cp_Events :: bool
  cp_Webhooks :: bool
  cp_Commands :: bool

record provider_vehicle =
  pv_ProviderID :: string
  pv_Name :: string

subsection \<open>REST access of the polling adapters\<close>

text \<open>
  What a REST adapter keeps, and the HTTP client as an argument: \<open>http url auth w\<close> is one GET with an
  authorization header, which yields an error or the status and the body.
\<close>

record rest_adapter =
  ra_baseURL :: string
  ra_auth :: string
  ra_tenant :: string
  ra_state :: string

type_synonym 'w http_get = "string \<Rightarrow> string \<Rightarrow> 'w \<Rightarrow> (go_error + int \<times> string) \<times> 'w"

definition find_vehicle :: "string \<Rightarrow> provider_vehicle list \<Rightarrow> provider_vehicle option" where
  "find_vehicle vid vs = find (\<lambda>v. pv_ProviderID v = vid) vs"

subsection \<open>What the pipeline gets from a normalizer\<close>

text \<open>A normalizer takes an input (payload, configuration, random bytes) and the time of receipt.\<close>

locale normalizer =
  fixes norm :: "'i \<Rightarrow> time \<Rightarrow> telemetry option"
  assumes norm_valid: "norm x now = Some t \<Longrightarrow> telemetry_Validate t = None"
    and norm_correlated: "norm x now = Some t \<Longrightarrow> md_CorrelationID (tel_Metadata t) \<noteq> []"
    and norm_received: "norm x now = Some t \<Longrightarrow> tel_ReceivedAt t = now"
begin

text \<open>A normalized point that is not from the future is processed without error, and its events are published.\<close>

lemma norm_published:
  assumes "norm x now = Some t" "tel_Timestamp t \<le> ck_skew clk + MaxFutureSkew"
  shows "snd (snd (fst (mem_Process L ord disp clk t p))) = None
    \<and> mp_bus (snd (mem_Process L ord disp clk t p)) = mp_bus p @ fst (fst (mem_Process L ord disp clk t p))"
proof -
  have "accepted clk t" using norm_valid [OF assms(1)] assms(2) by (simp add: accepted_def)
  then show ?thesis
    using mem_run_publishes [of "[(clk, t)]" L ord disp p] norm_correlated [OF assms(1)]
    by (simp add: case_prod_beta Let_def)
qed

end

end
