(* ===== verification/Mqtt.thy ===== *)
theory Mqtt
  imports Adapters
begin

section \<open>The generic MQTT adapter (adapters/mqtt)\<close>

text \<open>
  The field mapping that turns any JSON payload into canonical telemetry (mapping.go), and the connection
  life cycle of the subscriber (mqtt.go). The decoders of JSON, YAML, numbers and times are the fields of
  \<open>mqtt_env\<close>; random bytes and the clock are arguments. A decoded document holds numbers, strings, booleans,
  arrays and objects, so the cases of \<open>toFloat\<close> for other Go types do not occur. \<^term>\<open>None\<close> as the result of
  the mapping is the panic of a negative segment index.
\<close>

record mapping_config =
  mc_Broker :: string
  mc_Topics :: "string list"
  mc_Defaults :: "string \<rightharpoonup> string"
  mc_Fields :: "string \<rightharpoonup> string"
  mc_SpeedUnit :: string
  mc_TopicVehicleIndex :: "int option"

record mqtt_env =
  me_Unmarshal :: "string \<Rightarrow> go_error + jobj option"
  me_ParseFloat :: "string \<Rightarrow> float64 option"
  me_FormatFloat :: "float64 \<Rightarrow> string"
  me_TimeParse :: "string \<Rightarrow> string \<Rightarrow> time option"

subsection \<open>The mapping\<close>

definition newCorrID :: "(nat \<Rightarrow> 8 word) \<Rightarrow> string" where
  "newCorrID random = hex_EncodeToString (map random [0..<8])"

definition LoadMapping :: "(string \<Rightarrow> go_error + mapping_config) \<Rightarrow> string \<Rightarrow> go_error + mapping_config" where
  "LoadMapping yaml_Unmarshal data =
     (case yaml_Unmarshal data of
        Inl err \<Rightarrow> Inl (''mqtt: parse mapping: '' @ err)
      | Inr c \<Rightarrow>
          if mc_Broker c = [] \<or> mc_Topics c = [] then Inl ''mqtt: mapping requires broker + topics''
          else if mc_SpeedUnit c \<notin> {[], ''kmh'', ''mph'', ''ms''}
          then Inl (''mqtt: unknown speedUnit '' @ quoted (mc_SpeedUnit c))
          else Inr c)"

fun lookup_segs :: "json \<Rightarrow> string list \<Rightarrow> json option" where
  "lookup_segs cur [] = Some cur"
| "lookup_segs cur (seg # segs) =
     (case cur of
        JObj m \<Rightarrow> (case map_of m seg of None \<Rightarrow> None | Some v \<Rightarrow> lookup_segs v segs)
      | _ \<Rightarrow> None)"

definition lookup_path :: "jobj \<Rightarrow> string \<Rightarrow> json option" where
  "lookup_path doc path = lookup_segs (JObj doc) (split_on (CHR ''.'') path)"

definition mqtt_toFloat :: "mqtt_env \<Rightarrow> json \<Rightarrow> float64 option" where
  "mqtt_toFloat E v = (case v of JNum x \<Rightarrow> Some x | JStr x \<Rightarrow> me_ParseFloat E (TrimSpace x) | _ \<Rightarrow> None)"

definition mqtt_toString :: "mqtt_env \<Rightarrow> json \<Rightarrow> string option" where
  "mqtt_toString E v =
     (case v of JStr x \<Rightarrow> Some x | JNum x \<Rightarrow> Some (me_FormatFloat E x)
      | JBool x \<Rightarrow> Some (if x then ''true'' else ''false'') | _ \<Rightarrow> None)"

definition defaults :: "mapping_config \<Rightarrow> string \<Rightarrow> string" where
  "defaults cfg k = (case mc_Defaults cfg k of None \<Rightarrow> [] | Some v \<Rightarrow> v)"

definition get_field :: "mapping_config \<Rightarrow> jobj \<Rightarrow> string \<Rightarrow> json option" where
  "get_field cfg doc name = (case mc_Fields cfg name of None \<Rightarrow> None | Some p \<Rightarrow> lookup_path doc p)"

text \<open>The vehicle id of the payload, or else the configured segment of the topic.\<close>

definition vehicle_id :: "mqtt_env \<Rightarrow> mapping_config \<Rightarrow> string \<Rightarrow> jobj \<Rightarrow> string option" where
  "vehicle_id E cfg topic doc =
     (let vid = (case get_field cfg doc ''vehicleId'' of None \<Rightarrow> []
                 | Some v \<Rightarrow> (case mqtt_toString E v of None \<Rightarrow> [] | Some s \<Rightarrow> s))
      in case mc_TopicVehicleIndex cfg of
           None \<Rightarrow> Some vid
         | Some i \<Rightarrow>
             if vid \<noteq> [] then Some vid
             else let segs = split_on (CHR ''/'') topic
             in if i < int (length segs) then (if i < 0 then None else Some (segs ! nat i)) else Some vid)"

definition speed_value :: "mapping_config \<Rightarrow> float64 \<Rightarrow> float64" where
  "speed_value cfg f =
     (if mc_SpeedUnit cfg = ''mph'' then fmul f (rnd (160934 / 100000))
      else if mc_SpeedUnit cfg = ''ms'' then fmul f (rnd (36 / 10)) else f)"

definition ignition_value :: "json \<Rightarrow> bool option" where
  "ignition_value v =
     (case v of JBool x \<Rightarrow> Some x | JStr x \<Rightarrow> Some (x = ''true'' \<or> x = ''1'' \<or> x = ''on'')
      | JNum x \<Rightarrow> Some (\<not> feq x (Fin 0)) | _ \<Rightarrow> None)"

definition layouts :: "string list" where
  "layouts = [''2006-01-02T15:04:05.999999999Z07:00'', ''2006-01-02T15:04:05Z07:00'', ''2006-01-02T15:04:05'']"

text \<open>\<open>time.Unix(s, 0)\<close>, whose second count is an int64.\<close>

definition unix_time :: "int \<Rightarrow> time" where
  "unix_time s = wrap64 (s + 62135596800) * Second"

fun first_layout :: "mqtt_env \<Rightarrow> string \<Rightarrow> string list \<Rightarrow> time" where
  "first_layout E s [] = 0"
| "first_layout E s (l # ls) = (case me_TimeParse E l s of Some ts \<Rightarrow> ts | None \<Rightarrow> first_layout E s ls)"

text \<open>The time a payload carries; the zero time when there is none.\<close>

definition time_value :: "mqtt_env \<Rightarrow> json \<Rightarrow> time" where
  "time_value E v =
     (let ts = (case mqtt_toString E v of None \<Rightarrow> 0 | Some s \<Rightarrow> first_layout E s layouts)
      in case mqtt_toFloat E v of
           None \<Rightarrow> ts
         | Some f \<Rightarrow> if IsZero ts \<and> flt (Fin 1000000000) f then unix_time (int64_of_float f) else ts)"

definition mapped_telemetry :: "mqtt_env \<Rightarrow> mapping_config \<Rightarrow> jobj option \<Rightarrow> string \<Rightarrow> (nat \<Rightarrow> 8 word) \<Rightarrow> time \<Rightarrow> telemetry" where
  "mapped_telemetry E cfg raw vid random now =
     (let doc = (case raw of None \<Rightarrow> [] | Some m \<Rightarrow> m);
          number = (\<lambda>name. case get_field cfg doc name of None \<Rightarrow> None | Some v \<Rightarrow> mqtt_toFloat E v);
          ts = (case get_field cfg doc ''timestamp'' of None \<Rightarrow> 0 | Some v \<Rightarrow> time_value E v)
      in zero_telemetry
         \<lparr>tel_TenantID := defaults cfg ''tenant'', tel_VehicleID := vid, tel_DeviceID := vid,
          tel_Timestamp := (if IsZero ts then now else ts), tel_ReceivedAt := now,
          tel_Location := zero_location
            \<lparr>loc_Lat := (case number ''lat'' of None \<Rightarrow> Fin 0 | Some f \<Rightarrow> f),
             loc_Lng := (case number ''lng'' of None \<Rightarrow> Fin 0 | Some f \<Rightarrow> f)\<rparr>,
          tel_SpeedKmh := map_option (speed_value cfg) (number ''speed''),
          tel_Ignition := (case get_field cfg doc ''ignition'' of None \<Rightarrow> None | Some v \<Rightarrow> ignition_value v),
          tel_Raw := raw,
          tel_Source := \<lparr>src_Provider = (if defaults cfg ''provider'' = [] then ''mqtt'' else defaults cfg ''provider''),
                         src_Protocol = ''mqtt'', src_DeviceID = vid\<rparr>,
          tel_Metadata := \<lparr>md_CorrelationID = newCorrID random, md_SchemaVersion = CurrentSchemaVersion,
                           md_Sequence = map_option int64_of_float (number ''sequence''),
                           md_Quality = (if IsZero ts then ''degraded:no-timestamp'' else ''good'')\<rparr>\<rparr>)"

definition MapPayload ::
  "mqtt_env \<Rightarrow> mapping_config \<Rightarrow> string \<Rightarrow> string \<Rightarrow> (nat \<Rightarrow> 8 word) \<Rightarrow> time \<Rightarrow> (go_error + telemetry) option" where
  "MapPayload E cfg topic payload random now =
     (case me_Unmarshal E payload of
        Inl err \<Rightarrow> Some (Inl (''mqtt: invalid JSON: '' @ err))
      | Inr raw \<Rightarrow>
          (case vehicle_id E cfg topic (case raw of None \<Rightarrow> [] | Some m \<Rightarrow> m) of
             None \<Rightarrow> None
           | Some vid \<Rightarrow>
               (let t = mapped_telemetry E cfg raw vid random now
                in if tel_TenantID t = [] \<or> tel_VehicleID t = []
                   then Some (Inl ''mqtt: mapping must yield tenant + vehicleId'')
                   else case telemetry_Validate t of
                     Some err \<Rightarrow> Some (Inl (''mqtt: mapped payload invalid: '' @ err))
                   | None \<Rightarrow> Some (Inr t))))"

definition mqtt_norm :: "mqtt_env \<times> mapping_config \<times> string \<times> string \<times> (nat \<Rightarrow> 8 word) \<Rightarrow> time \<Rightarrow> telemetry option" where
  "mqtt_norm x now =
     (let (E, cfg, topic, payload, random) = x
      in case MapPayload E cfg topic payload random now of Some (Inr t) \<Rightarrow> Some t | _ \<Rightarrow> None)"

subsection \<open>The subscriber\<close>

record mqtt_adapter =
  ma_cfg :: mapping_config
  ma_state :: string
  ma_message :: string
  ma_count :: int
  ma_start :: time

definition mqtt_New :: "mapping_config \<Rightarrow> mqtt_adapter" where
  "mqtt_New cfg = \<lparr>ma_cfg = cfg, ma_state = StateConfigured, ma_message = [], ma_count = 0, ma_start = 0\<rparr>"

definition mqtt_setState :: "string \<Rightarrow> string \<Rightarrow> mqtt_adapter \<Rightarrow> mqtt_adapter" where
  "mqtt_setState st msg a = a\<lparr>ma_state := st, ma_message := msg\<rparr>"

text \<open>\<open>v\<close> is the value of the random source, below the bound it is given, or its failure.\<close>

definition mqtt_jitter :: "duration \<Rightarrow> int option \<Rightarrow> duration" where
  "mqtt_jitter n v = (if n \<le> 0 then 0 else case v of None \<Rightarrow> 0 | Some x \<Rightarrow> x)"

text \<open>
  What one run of \<open>Connect\<close> observes at attempt \<open>i\<close>: whether the broker accepts, whether the context ends
  while waiting, the random value, and the clock.
\<close>

record connect_env =
  ce_accepts :: "nat \<Rightarrow> bool"
  ce_cancelled :: "nat \<Rightarrow> go_error option"
  ce_random :: "nat \<Rightarrow> int option"
  ce_now :: "nat \<Rightarrow> time"

definition mqtt_next_backoff :: "duration \<Rightarrow> duration" where
  "mqtt_next_backoff b = (if b * 2 > 30 * Second then 30 * Second else b * 2)"

text \<open>The retry loop; the list collects the pauses that were waited out.\<close>

function connect_loop ::
  "connect_env \<Rightarrow> nat \<Rightarrow> duration \<Rightarrow> duration list \<Rightarrow> mqtt_adapter \<Rightarrow> (go_error option \<times> duration list) \<times> mqtt_adapter" where
  "connect_loop E attempt backoff pauses a =
     (if ce_accepts E attempt then ((None, pauses), mqtt_setState StateHealthy [] (a\<lparr>ma_start := ce_now E attempt\<rparr>))
      else case ce_cancelled E attempt of
        Some err \<Rightarrow> ((Some err, pauses), mqtt_setState StateFailed err a)
      | None \<Rightarrow>
          (let pauses = pauses @ [backoff + mqtt_jitter backoff (ce_random E attempt)];
               a = mqtt_setState StateReconnecting (''attempt '' @ show_nat (attempt + 1)) a
           in if 8 < attempt
              then ((Some ''mqtt: broker unreachable'', pauses), mqtt_setState StateFailed ''broker unreachable'' a)
              else connect_loop E (Suc attempt) (mqtt_next_backoff backoff) pauses a))"
  by pat_completeness auto
termination
  by (relation "measure (\<lambda>(E, attempt, _). 10 - attempt)") auto

declare connect_loop.simps [simp del]

definition mqtt_Connect :: "connect_env \<Rightarrow> mqtt_adapter \<Rightarrow> (go_error option \<times> duration list) \<times> mqtt_adapter" where
  "mqtt_Connect E a = connect_loop E 0 500000000 [] (mqtt_setState StateConnecting [] a)"

definition mqtt_Disconnect :: "mqtt_adapter \<Rightarrow> go_error option \<times> mqtt_adapter" where
  "mqtt_Disconnect a = (None, mqtt_setState StateConfigured [] a)"

text \<open>\<open>sub t\<close> is the outcome of subscribing to a topic: whether it completed in time, and its error.\<close>

fun mqtt_subscribe :: "(string \<Rightarrow> bool \<times> go_error option) \<Rightarrow> string list \<Rightarrow> mqtt_adapter \<Rightarrow> go_error option \<times> mqtt_adapter" where
  "mqtt_subscribe sub [] a = (None, a)"
| "mqtt_subscribe sub (t # ts) a =
     (let (done, err) = sub t
      in if \<not> done \<or> err \<noteq> None
         then (Some (''mqtt: subscribe '' @ t @ '': '' @ (case err of None \<Rightarrow> ''<nil>'' | Some e \<Rightarrow> e)),
               mqtt_setState StateDegraded (''subscribe failed: '' @ t) a)
         else mqtt_subscribe sub ts a)"

definition mqtt_Subscribe :: "(string \<Rightarrow> bool \<times> go_error option) \<Rightarrow> mqtt_adapter \<Rightarrow> go_error option \<times> mqtt_adapter" where
  "mqtt_Subscribe sub a = mqtt_subscribe sub (mc_Topics (ma_cfg a)) a"

text \<open>The callback of a subscription: \<open>handler\<close> acts on the state \<open>'p\<close>; only a success is counted.\<close>

definition mqtt_on_message ::
  "(string \<Rightarrow> string \<Rightarrow> 'p \<Rightarrow> go_error option \<times> 'p) \<Rightarrow> string \<Rightarrow> string \<Rightarrow> mqtt_adapter \<times> 'p \<Rightarrow> mqtt_adapter \<times> 'p" where
  "mqtt_on_message handler topic payload s =
     (let (a, p) = s; (err, p) = handler topic payload p
      in (if err = None then a\<lparr>ma_count := wrap64 (ma_count a + 1)\<rparr> else a, p))"

text \<open>\<^term>\<open>None\<close> as the result is the panic of the mapping.\<close>

definition mqtt_HandleRaw ::
  "mqtt_env \<Rightarrow> (nat \<Rightarrow> 8 word) \<Rightarrow> time \<Rightarrow> (telemetry \<Rightarrow> 'p \<Rightarrow> go_error option \<times> 'p) \<Rightarrow> mqtt_adapter \<Rightarrow> string \<Rightarrow> string \<Rightarrow> 'p
    \<Rightarrow> go_error option option \<times> 'p" where
  "mqtt_HandleRaw E random now emit a topic payload p =
     (case MapPayload E (ma_cfg a) topic payload random now of
        None \<Rightarrow> (None, p)
      | Some (Inl err) \<Rightarrow> (Some (Some err), p)
      | Some (Inr t) \<Rightarrow> (let (err, p) = emit t p in (Some err, p)))"

definition mqtt_Health :: "time \<Rightarrow> mqtt_adapter \<Rightarrow> health_status" where
  "mqtt_Health now a =
     (let el = Seconds (time_Sub now (ma_start a));
          rate = (if \<not> IsZero (ma_start a) \<and> flt (Fin 0) el then fdiv (f_of_int (ma_count a)) el else Fin 0)
      in \<lparr>hs_State = ma_state a, hs_Message = ma_message a, hs_DeviceCount = 0, hs_MsgPerSec = rate\<rparr>)"

definition mqtt_Capabilities :: capabilities where
  "mqtt_Capabilities =
     \<lparr>cp_LiveTelemetry = True, cp_HistoricalData = False, cp_DeviceList = False, cp_Events = False,
      cp_Webhooks = False, cp_Commands = False\<rparr>"

text \<open>A generic broker has no inventory of devices.\<close>

definition mqtt_ListVehicles :: "go_error + provider_vehicle list" where
  "mqtt_ListVehicles = Inr []"

definition mqtt_GetVehicle :: "string \<Rightarrow> go_error + provider_vehicle" where
  "mqtt_GetVehicle vid = Inl ''mqtt: no device inventory''"

subsection \<open>The mapping is a normalizer\<close>

lemma newCorrID_ne [simp]: "newCorrID random \<noteq> []"
  by (simp add: newCorrID_def hex_EncodeToString_def upt_conv_Cons hex_byte_def)

lemma MapPayload_ok:
  assumes "MapPayload E cfg topic payload random now = Some (Inr t)"
  shows "\<exists>raw vid. me_Unmarshal E payload = Inr raw \<and> vehicle_id E cfg topic (case raw of None \<Rightarrow> [] | Some m \<Rightarrow> m) = Some vid
    \<and> t = mapped_telemetry E cfg raw vid random now \<and> telemetry_Validate t = None"
  using assms by (auto simp: MapPayload_def Let_def split: sum.splits option.splits if_splits)

interpretation mqtt: normalizer mqtt_norm
proof
  fix x now t
  assume n: "mqtt_norm x now = Some t"
  obtain E cfg topic payload random where x: "x = (E, cfg, topic, payload, random)" by (cases x)
  have "MapPayload E cfg topic payload random now = Some (Inr t)"
    using n by (auto simp: mqtt_norm_def x split: option.splits sum.splits)
  from MapPayload_ok [OF this]
  show "telemetry_Validate t = None" "md_CorrelationID (tel_Metadata t) \<noteq> []" "tel_ReceivedAt t = now"
    by (auto simp: mapped_telemetry_def Let_def)
qed

subsection \<open>The retry loop\<close>

text \<open>The backoff of attempt \<open>k\<close>.\<close>

definition mqtt_backoff :: "nat \<Rightarrow> duration" where
  "mqtt_backoff k = min (30 * Second) (500000000 * 2 ^ k)"

lemma mqtt_backoff_simps [simp]: "mqtt_backoff 0 = 500000000" "mqtt_next_backoff (mqtt_backoff k) = mqtt_backoff (Suc k)"
  by (auto simp: mqtt_backoff_def mqtt_next_backoff_def min_def)

lemma mqtt_backoff_pos [simp]: "0 < mqtt_backoff k"
  by (simp add: mqtt_backoff_def)

definition good_random :: "connect_env \<Rightarrow> bool" where
  "good_random E \<longleftrightarrow> (\<forall>k x. ce_random E k = Some x \<longrightarrow> 0 \<le> x \<and> x < mqtt_backoff k)"

lemma mqtt_jitter_bounds: "good_random E \<Longrightarrow> 0 \<le> mqtt_jitter (mqtt_backoff k) (ce_random E k) \<and> mqtt_jitter (mqtt_backoff k) (ce_random E k) < mqtt_backoff k"
  by (auto simp: mqtt_jitter_def good_random_def split: option.split)

definition spaced_pauses :: "duration list \<Rightarrow> bool" where
  "spaced_pauses ps \<longleftrightarrow> (\<forall>k < length ps. mqtt_backoff k \<le> ps ! k \<and> ps ! k < 2 * mqtt_backoff k)"

lemma spaced_pauses_snoc:
  "spaced_pauses ps \<Longrightarrow> good_random E \<Longrightarrow> length ps = k \<Longrightarrow> spaced_pauses (ps @ [mqtt_backoff k + mqtt_jitter (mqtt_backoff k) (ce_random E k)])"
  using mqtt_jitter_bounds [of E k] by (auto simp: spaced_pauses_def nth_append less_Suc_eq)

definition broker_reached :: "connect_env \<Rightarrow> nat \<Rightarrow> bool" where
  "broker_reached E k \<longleftrightarrow> (\<exists>i. k \<le> i \<and> i < 10 \<and> ce_accepts E i \<and> (\<forall>j. k \<le> j \<longrightarrow> j < i \<longrightarrow> ce_cancelled E j = None))"

lemma broker_reached_step:
  assumes "k < 10" "\<not> ce_accepts E k"
  shows "broker_reached E k \<longleftrightarrow> ce_cancelled E k = None \<and> broker_reached E (Suc k)"
proof
  assume "broker_reached E k"
  then obtain i where i: "k \<le> i" "i < 10" "ce_accepts E i" "\<forall>j. k \<le> j \<longrightarrow> j < i \<longrightarrow> ce_cancelled E j = None"
    by (auto simp: broker_reached_def)
  with assms(2) have "k < i" by (cases "k = i") auto
  with i show "ce_cancelled E k = None \<and> broker_reached E (Suc k)" by (auto simp: broker_reached_def intro!: exI [of _ i])
next
  assume "ce_cancelled E k = None \<and> broker_reached E (Suc k)"
  then obtain i where "Suc k \<le> i" "i < 10" "ce_accepts E i" "\<forall>j. Suc k \<le> j \<longrightarrow> j < i \<longrightarrow> ce_cancelled E j = None"
    and "ce_cancelled E k = None" by (auto simp: broker_reached_def)
  then show "broker_reached E k"
    unfolding broker_reached_def by (intro exI [of _ i]) (metis Suc_leD le_eq_less_or_eq Suc_leI)
qed

lemma connect_loop_correct:
  assumes "k < 10" "length pauses = k" "spaced_pauses pauses" "good_random E"
    and "connect_loop E k (mqtt_backoff k) pauses a = ((err, pauses'), a')"
  shows "length pauses' \<le> 10 \<and> spaced_pauses pauses' \<and> (err = None \<longleftrightarrow> broker_reached E k)
    \<and> ma_state a' = (if err = None then StateHealthy else StateFailed)"
  using assms
proof (induction "10 - k" arbitrary: k pauses a)
  case (Suc n)
  show ?case
  proof (cases "ce_accepts E k")
    case True
    then show ?thesis using Suc.prems by (auto simp: connect_loop.simps [of E k] mqtt_setState_def broker_reached_def)
  next
    case False
    note st = broker_reached_step [OF Suc.prems(1) False]
    note sp = spaced_pauses_snoc [OF Suc.prems(3,4,2)]
    show ?thesis
    proof (cases "ce_cancelled E k = None \<and> k \<le> 8")
      case True
      let ?ps = "pauses @ [mqtt_backoff k + mqtt_jitter (mqtt_backoff k) (ce_random E k)]"
      have "connect_loop E (Suc k) (mqtt_backoff (Suc k)) ?ps
          (mqtt_setState StateReconnecting (''attempt '' @ show_nat (k + 1)) a) = ((err, pauses'), a')"
        using Suc.prems(5) True False by (simp add: connect_loop.simps [of E k] Let_def)
      then have "length pauses' \<le> 10 \<and> spaced_pauses pauses' \<and> (err = None \<longleftrightarrow> broker_reached E (Suc k))
          \<and> ma_state a' = (if err = None then StateHealthy else StateFailed)"
        using True Suc.hyps(2) Suc.prems(2) by (intro Suc.hyps(1) [OF _ _ _ sp Suc.prems(4)]) auto
      then show ?thesis using True st by simp
    next
      case no: False
      have run: "(case ce_cancelled E k of
            Some err \<Rightarrow> ((Some err, pauses), mqtt_setState StateFailed err a)
          | None \<Rightarrow> ((Some ''mqtt: broker unreachable'', pauses @ [mqtt_backoff k + mqtt_jitter (mqtt_backoff k) (ce_random E k)]),
              mqtt_setState StateFailed ''broker unreachable'' (mqtt_setState StateReconnecting (''attempt '' @ show_nat (k + 1)) a)))
          = ((err, pauses'), a')"
        using Suc.prems(5) no False by (auto simp: connect_loop.simps [of E k] Let_def split: option.splits) metis
      have "\<not> broker_reached E (Suc k)" if "ce_cancelled E k = None"
        using no that Suc.prems(1) by (auto simp: broker_reached_def)
      with run st sp Suc.prems(1-3) show ?thesis by (auto simp: mqtt_setState_def split: option.splits)
    qed
  qed
qed simp

subsection \<open>Properties\<close>

text \<open>C28: Connecting to the broker ends. Whatever the broker does, \<open>Connect\<close> returns after at most ten attempts; its
  k-th pause lies between the capped exponential backoff and twice that; it succeeds exactly when one of the
  ten attempts is accepted before the context ends, and the adapter is then healthy and otherwise failed.\<close>

theorem mqtt_connect_bounded:
  assumes "good_random E" "mqtt_Connect E a = ((err, pauses), a')"
  shows "length pauses \<le> 10 \<and> spaced_pauses pauses \<and> (err = None \<longleftrightarrow> broker_reached E 0)
    \<and> ma_state a' = (if err = None then StateHealthy else StateFailed)"
  using connect_loop_correct [of 0 "[]" E _ err pauses a'] assms by (simp add: mqtt_Connect_def spaced_pauses_def)

definition slow_broker :: connect_env where
  "slow_broker = \<lparr>ce_accepts = (\<lambda>k. k = 2), ce_cancelled = (\<lambda>_. None), ce_random = (\<lambda>_. Some 5), ce_now = (\<lambda>_. 1)\<rparr>"

definition plain_mapping :: mapping_config where
  "plain_mapping =
     \<lparr>mc_Broker = ''tcp://b'', mc_Topics = [''fleet/+/telemetry''], mc_Defaults = [''tenant'' \<mapsto> ''t1''],
      mc_Fields = [''lat'' \<mapsto> ''gps.lat'', ''speed'' \<mapsto> ''v''], mc_SpeedUnit = ''kmh'', mc_TopicVehicleIndex = Some 1\<rparr>"

theorem mqtt_connect_bounded_witness:
  "mqtt_Connect slow_broker (mqtt_New plain_mapping) =
     ((None, [500000005, 1000000005]),
      \<lparr>ma_cfg = plain_mapping, ma_state = StateHealthy, ma_message = [], ma_count = 0, ma_start = 1\<rparr>)
   \<and> broker_reached slow_broker 0"
proof -
  have "mqtt_Connect slow_broker (mqtt_New plain_mapping) =
     ((None, [500000005, 1000000005]),
      \<lparr>ma_cfg = plain_mapping, ma_state = StateHealthy, ma_message = [], ma_count = 0, ma_start = 1\<rparr>)"
    by (simp add: mqtt_Connect_def connect_loop.simps slow_broker_def mqtt_jitter_def mqtt_next_backoff_def mqtt_setState_def mqtt_New_def)
  moreover have "good_random slow_broker"
    by (auto simp: good_random_def slow_broker_def mqtt_backoff_def min_def) (smt (verit) one_le_power)
  ultimately show ?thesis using mqtt_connect_bounded by fastforce
qed

end
