(* ===== verification/Traccar.thy ===== *)
theory Traccar
  imports Adapters
begin

section \<open>The Traccar adapter (adapters/traccar)\<close>

text \<open>
  Normalization of a Traccar position and the REST adapter that polls for positions. Base64, the JSON codec and
  the HTTP client are arguments. The attributes of a position are a decoded JSON object; the nil map is
  \<^term>\<open>None\<close>.
\<close>

record position =
  ps_ID :: int
  ps_DeviceID :: int
  ps_Protocol :: string
  ps_DeviceTime :: time
  ps_FixTime :: time
  ps_Latitude :: float64
  ps_Longitude :: float64
  ps_Speed :: float64
  ps_Attributes :: "jobj option"

record traccar_device =
  td_ID :: int
  td_Name :: string

subsection \<open>Normalization\<close>

definition traccar_toFloat :: "json \<Rightarrow> float64 option" where
  "traccar_toFloat v = (case v of JNum x \<Rightarrow> Some x | _ \<Rightarrow> None)"

definition attribute :: "position \<Rightarrow> string \<Rightarrow> json option" where
  "attribute p k = (case ps_Attributes p of None \<Rightarrow> None | Some m \<Rightarrow> map_of m k)"

definition traccar_id :: "int \<Rightarrow> string" where
  "traccar_id i = ''traccar-'' @ show_int i"

definition position_telemetry :: "string \<Rightarrow> position \<Rightarrow> time \<Rightarrow> telemetry" where
  "position_telemetry tenant p now =
     zero_telemetry
       \<lparr>tel_ID := traccar_id (ps_ID p), tel_TenantID := tenant, tel_VehicleID := traccar_id (ps_DeviceID p),
        tel_DeviceID := traccar_id (ps_DeviceID p), tel_Timestamp := ps_FixTime p, tel_ReceivedAt := now,
        tel_Location := zero_location\<lparr>loc_Lat := ps_Latitude p, loc_Lng := ps_Longitude p\<rparr>,
        tel_SpeedKmh := Some (fmul (ps_Speed p) (rnd (1852 / 1000))),
        tel_Ignition := (case attribute p ''ignition'' of Some (JBool b) \<Rightarrow> Some b | _ \<Rightarrow> None),
        tel_OdometerM := (case attribute p ''odometer'' of None \<Rightarrow> None | Some v \<Rightarrow> traccar_toFloat v),
        tel_Raw := Some [(''protocol'', JStr (ps_Protocol p)),
                         (''attributes'', case ps_Attributes p of None \<Rightarrow> JNull | Some m \<Rightarrow> JObj m)],
        tel_Source := \<lparr>src_Provider = ''traccar'', src_Protocol = ''traccar-rest'', src_DeviceID = show_int (ps_DeviceID p)\<rparr>,
        tel_Metadata := \<lparr>md_CorrelationID = traccar_id (ps_ID p), md_SchemaVersion = CurrentSchemaVersion,
                         md_Sequence = None, md_Quality = ''good''\<rparr>\<rparr>"

definition PositionToTelemetry :: "string \<Rightarrow> position \<Rightarrow> time \<Rightarrow> go_error + telemetry" where
  "PositionToTelemetry tenant p now =
     (let t = position_telemetry tenant p now
      in case telemetry_Validate t of
           Some err \<Rightarrow> Inl (''traccar: invalid normalized position: '' @ err)
         | None \<Rightarrow> Inr t)"

subsection \<open>The polling adapter\<close>

definition traccar_New :: "(string \<Rightarrow> string) \<Rightarrow> string \<Rightarrow> string \<Rightarrow> string \<Rightarrow> string \<Rightarrow> rest_adapter" where
  "traccar_New base64 baseURL user password tenant =
     \<lparr>ra_baseURL = baseURL, ra_auth = ''Basic '' @ base64 (user @ '':'' @ password), ra_tenant = tenant,
      ra_state = StateConfigured\<rparr>"

definition traccar_Connect :: "'w http_get \<Rightarrow> rest_adapter \<Rightarrow> 'w \<Rightarrow> (go_error option \<times> rest_adapter) \<times> 'w" where
  "traccar_Connect http a w =
     (let a = a\<lparr>ra_state := StateConnecting\<rparr>
      in case http (ra_baseURL a @ ''/api/server'') (ra_auth a) w of
           (Inl err, w) \<Rightarrow> ((Some (''traccar: connect: '' @ err), a\<lparr>ra_state := StateFailed\<rparr>), w)
         | (Inr (status, body), w) \<Rightarrow>
             if status \<noteq> 200
             then ((Some (''traccar: server returned '' @ show_int status), a\<lparr>ra_state := StateFailed\<rparr>), w)
             else ((None, a\<lparr>ra_state := StateHealthy\<rparr>), w))"

definition traccar_Disconnect :: "rest_adapter \<Rightarrow> go_error option \<times> rest_adapter" where
  "traccar_Disconnect a = (None, a\<lparr>ra_state := StateConfigured\<rparr>)"

definition fetchPositions :: "'w http_get \<Rightarrow> (string \<Rightarrow> go_error + position list) \<Rightarrow> rest_adapter \<Rightarrow> 'w
    \<Rightarrow> (go_error + position list) \<times> 'w" where
  "fetchPositions http decode a w =
     (case http (ra_baseURL a @ ''/api/positions'') (ra_auth a) w of
        (Inl err, w) \<Rightarrow> (Inl err, w)
      | (Inr (status, body), w) \<Rightarrow> (decode body, w))"

text \<open>Handing the positions of one poll to the handler; its first error ends the subscription.\<close>

fun hand_over :: "(position \<Rightarrow> string) \<Rightarrow> (string \<Rightarrow> 'w \<Rightarrow> go_error option \<times> 'w) \<Rightarrow> position list \<Rightarrow> 'w \<Rightarrow> go_error option \<times> 'w" where
  "hand_over marshal handler [] w = (None, w)"
| "hand_over marshal handler (p # ps) w =
     (case handler (marshal p) w of (Some err, w) \<Rightarrow> (Some err, w) | (None, w) \<Rightarrow> hand_over marshal handler ps w)"

text \<open>What the poll loop waits for: a tick of the timer or the end of the context.\<close>

datatype poll_input = PollTick | PollDone

datatype poll_result = Polling | Ended "go_error option"

definition poll_step ::
  "'w http_get \<Rightarrow> (string \<Rightarrow> go_error + position list) \<Rightarrow> (position \<Rightarrow> string) \<Rightarrow> (string \<Rightarrow> 'w \<Rightarrow> go_error option \<times> 'w) \<Rightarrow> poll_input
    \<Rightarrow> rest_adapter \<times> 'w \<Rightarrow> poll_result \<times> rest_adapter \<times> 'w" where
  "poll_step http decode marshal handler i s =
     (let (a, w) = s
      in case i of
           PollDone \<Rightarrow> (Ended None, a, w)
         | PollTick \<Rightarrow>
             (case fetchPositions http decode a w of
                (Inl err, w) \<Rightarrow> (Polling, a\<lparr>ra_state := StateDegraded\<rparr>, w)
              | (Inr positions, w) \<Rightarrow>
                  (case hand_over marshal handler positions w of
                     (Some err, w) \<Rightarrow> (Ended (Some err), a\<lparr>ra_state := StateHealthy\<rparr>, w)
                   | (None, w) \<Rightarrow> (Polling, a\<lparr>ra_state := StateHealthy\<rparr>, w))))"

fun traccar_Subscribe ::
  "'w http_get \<Rightarrow> (string \<Rightarrow> go_error + position list) \<Rightarrow> (position \<Rightarrow> string) \<Rightarrow> (string \<Rightarrow> 'w \<Rightarrow> go_error option \<times> 'w) \<Rightarrow> poll_input list
    \<Rightarrow> rest_adapter \<times> 'w \<Rightarrow> poll_result \<times> rest_adapter \<times> 'w" where
  "traccar_Subscribe http decode marshal handler [] s = (Polling, s)"
| "traccar_Subscribe http decode marshal handler (i # is) s =
     (case poll_step http decode marshal handler i s of
        (Ended err, s) \<Rightarrow> (Ended err, s)
      | (Polling, s) \<Rightarrow> traccar_Subscribe http decode marshal handler is s)"

definition traccar_HandleRaw :: "(string \<Rightarrow> go_error + position) \<Rightarrow> rest_adapter \<Rightarrow> string \<Rightarrow> time \<Rightarrow> go_error + telemetry" where
  "traccar_HandleRaw unmarshal a raw now =
     (case unmarshal raw of Inl err \<Rightarrow> Inl err | Inr p \<Rightarrow> PositionToTelemetry (ra_tenant a) p now)"

definition traccar_ListVehicles ::
  "'w http_get \<Rightarrow> (string \<Rightarrow> go_error + traccar_device list) \<Rightarrow> rest_adapter \<Rightarrow> 'w \<Rightarrow> (go_error + provider_vehicle list) \<times> 'w" where
  "traccar_ListVehicles http decode a w =
     (if ra_state a \<noteq> StateHealthy then (Inl ''traccar: not connected'', w)
      else case http (ra_baseURL a @ ''/api/devices'') (ra_auth a) w of
        (Inl err, w) \<Rightarrow> (Inl err, w)
      | (Inr (status, body), w) \<Rightarrow>
          (case decode body of
             Inl err \<Rightarrow> (Inl err, w)
           | Inr devs \<Rightarrow> (Inr (map (\<lambda>d. \<lparr>pv_ProviderID = show_int (td_ID d), pv_Name = td_Name d\<rparr>) devs), w)))"

definition traccar_GetVehicle ::
  "'w http_get \<Rightarrow> (string \<Rightarrow> go_error + traccar_device list) \<Rightarrow> rest_adapter \<Rightarrow> string \<Rightarrow> 'w \<Rightarrow> (go_error + provider_vehicle) \<times> 'w" where
  "traccar_GetVehicle http decode a vid w =
     (case traccar_ListVehicles http decode a w of
        (Inl err, w) \<Rightarrow> (Inl err, w)
      | (Inr vs, w) \<Rightarrow>
          (case find_vehicle vid vs of
             Some v \<Rightarrow> (Inr v, w) | None \<Rightarrow> (Inl (''traccar: unknown device '' @ vid), w)))"

definition traccar_Health :: "rest_adapter \<Rightarrow> health_status" where
  "traccar_Health a = \<lparr>hs_State = ra_state a, hs_Message = [], hs_DeviceCount = 0, hs_MsgPerSec = Fin 0\<rparr>"

definition traccar_Capabilities :: capabilities where
  "traccar_Capabilities =
     \<lparr>cp_LiveTelemetry = True, cp_HistoricalData = True, cp_DeviceList = True, cp_Events = False,
      cp_Webhooks = False, cp_Commands = False\<rparr>"

subsection \<open>Positions are normalized\<close>

definition traccar_norm :: "string \<times> position \<Rightarrow> time \<Rightarrow> telemetry option" where
  "traccar_norm x now = (case PositionToTelemetry (fst x) (snd x) now of Inl _ \<Rightarrow> None | Inr t \<Rightarrow> Some t)"

lemma PositionToTelemetry_ok:
  "PositionToTelemetry tenant p now = Inr t \<longleftrightarrow> t = position_telemetry tenant p now \<and> telemetry_Validate t = None"
  by (auto simp: PositionToTelemetry_def Let_def split: option.splits)

lemma traccar_id_ne [simp]: "traccar_id i \<noteq> []"
  by (simp add: traccar_id_def)

interpretation traccar: normalizer traccar_norm
  by unfold_locales (auto simp: traccar_norm_def PositionToTelemetry_ok position_telemetry_def split: sum.splits)

lemma position_Metadata [simp]: "md_Sequence (tel_Metadata (position_telemetry tenant p now)) = None"
  by (simp add: position_telemetry_def)

text \<open>The identity of a position has neither the time of receipt nor the tenant in it.\<close>

definition position_identity :: "go_lib \<Rightarrow> position \<Rightarrow> int \<times> time \<times> 8 word list" where
  "position_identity L p = (ps_DeviceID p, ps_FixTime p, take 8 (sha256_Sum256 L (json_Marshal L
     [(''protocol'', JStr (ps_Protocol p)), (''attributes'', case ps_Attributes p of None \<Rightarrow> JNull | Some m \<Rightarrow> JObj m)])))"

lemma position_dedup_identity:
  "dedup_identity L (position_telemetry tenant p now) =
     (let (d, ts, h) = position_identity L p in (''traccar'', show_int d, Inr (ts, h)))"
  by (simp add: dedup_identity_def position_telemetry_def position_identity_def)

lemma position_key: "DedupKey L (position_telemetry tenant p now) = DedupKey L (position_telemetry tenant' p now')"
  by (simp add: DedupKey_identity position_dedup_identity)

subsection \<open>Properties\<close>

lemma bar_not_in_show_int: "CHR ''|'' \<notin> set (show_int i)"
  using show_int_chars [of "CHR ''|''" i] by (auto simp: char_digit_def)

text \<open>Polling the same position again is harmless, and different fixes are kept apart. A position normalized at
  any later time is absorbed by the pipeline that processed it before, while the dedup window remembers it;
  and two positions share their dedup key exactly when device, fix time and the hash of their protocol and
  attributes agree.\<close>

lemma traccar_repoll_absorbed:
  assumes "PositionToTelemetry tenant q now = Inr t" "PositionToTelemetry tenant q now' = Inr t'"
    and "mem_Process L ord disp clk t p = ((evs, dup, None), p')" "dedup_inv (mp_dedup p)"
    and "tel_Timestamp t' \<le> ck_skew clk' + MaxFutureSkew"
    and "\<And>ts. dm_seen (mp_dedup p') (DedupKey L t) = Some ts \<Longrightarrow> ck_seen clk' - ts < dm_ttl (mp_dedup p')"
    and "four_digit_year (ps_FixTime q)" "four_digit_year (ps_FixTime q')"
  shows "mem_Process L ord' disp' clk' t' p' = (([], True, None), p')
    \<and> (DedupKey L t = DedupKey L (position_telemetry tenant'' q' now'') \<longleftrightarrow> position_identity L q = position_identity L q')"
proof
  have t: "t = position_telemetry tenant q now" "t' = position_telemetry tenant q now'" "telemetry_Validate t' = None"
    using assms(1,2) unfolding PositionToTelemetry_ok by auto
  have "DedupKey L t' = DedupKey L t" unfolding t(1,2) by (rule position_key)
  moreover have "accepted clk' t'" using t(3) assms(5) by (simp add: accepted_def)
  ultimately show "mem_Process L ord' disp' clk' t' p' = (([], True, None), p')"
    using mem_Process_again [OF assms(3) _ _ assms(4,6)] by blast
  show "DedupKey L t = DedupKey L (position_telemetry tenant'' q' now'') \<longleftrightarrow> position_identity L q = position_identity L q'"
    unfolding t(1)
    by (subst DedupKey_eq_iff)
      (use assms(7,8) bar_not_in_show_int in \<open>auto simp: position_dedup_identity split: prod.splits\<close>,
        simp_all add: position_telemetry_def)
qed

definition good_position :: position where
  "good_position = \<lparr>ps_ID = 1, ps_DeviceID = 2, ps_Protocol = ''osmand'', ps_DeviceTime = 5, ps_FixTime = 5,
     ps_Latitude = Fin 1, ps_Longitude = Fin 0, ps_Speed = Fin 0, ps_Attributes = None\<rparr>"

lemma good_position_ok: "now \<noteq> 0 \<Longrightarrow> PositionToTelemetry ''t'' good_position now = Inr (position_telemetry ''t'' good_position now)"
proof -
  assume now: "now \<noteq> 0"
  have "fmul (Fin 0) (rnd (1852 / 1000)) = NaN \<or> fle (Fin 0) (fmul (Fin 0) (rnd (1852 / 1000)))"
    by (cases "rnd (1852 / 1000)") (simp_all add: fsign_def finf_def fle_def)
  with now show ?thesis
    by (simp add: PositionToTelemetry_ok telemetry_Validate_ok_iff position_telemetry_def good_position_def in_range_or_NaN_def zero_telemetry_def)
qed

lemma traccar_repoll_absorbed_example:
  "\<exists>p'. p' = snd (mem_Process plain_lib sorted_list_of_set (\<lambda>_ _ _ d. (None, d)) (clk_at 5) (position_telemetry ''t'' good_position 5)
           (NewTestPipeline :: unit mem_pipeline))
     \<and> mem_Process plain_lib sorted_list_of_set (\<lambda>_ _ _ d. (None, d)) (clk_at 20) (position_telemetry ''t'' good_position 20) p' = (([], True, None), p')"
proof -
  let ?P = "mem_Process plain_lib sorted_list_of_set (\<lambda>_ _ _ d. (None, d))" and ?p = "NewTestPipeline :: unit mem_pipeline"
  let ?t = "position_telemetry ''t'' good_position 5"
  have n: "PositionToTelemetry ''t'' good_position 5 = Inr ?t"
      "PositionToTelemetry ''t'' good_position 20 = Inr (position_telemetry ''t'' good_position 20)"
    by (simp_all add: good_position_ok)
  have ts: "tel_Timestamp (position_telemetry ''t'' good_position k) = 5" for k by (simp add: position_telemetry_def good_position_def)
  obtain evs dup err p' where r: "?P (clk_at 5) ?t ?p = ((evs, dup, err), p')" by (metis surj_pair)
  have "traccar_norm (''t'', good_position) 5 = Some ?t" by (simp add: traccar_norm_def n)
  then have "err = None"
    using traccar.norm_published [of _ 5 ?t "clk_at 5" plain_lib sorted_list_of_set "\<lambda>_ _ _ d. (None, d)" ?p] r
    by (auto simp: ts clk_at_def MaxFutureSkew_def)
  with r have r: "?P (clk_at 5) ?t ?p = ((evs, dup, None), p')" by simp
  have mem: "dm_ttl (mp_dedup p') = 24 * Hour"
      "dm_seen (mp_dedup p') = Map.empty \<or> dm_seen (mp_dedup p') = [DedupKey plain_lib ?t \<mapsto> 5]"
    using mem_Process_remembers [OF r] by (auto simp: NewTestPipeline_start clk_at_def)
  have "four_digit_year (ps_FixTime good_position)" unfolding good_position_def by code_simp
  from traccar_repoll_absorbed [OF n r NewTestPipeline_start(5) _ _ this this, of "clk_at 20"] mem r ts
  show ?thesis by (auto simp: clk_at_def MaxFutureSkew_def)
qed

end
