(* ===== verification/Flespi.thy ===== *)
theory Flespi
  imports Adapters
begin

section \<open>The flespi adapter (adapters/flespi)\<close>

text \<open>
  Normalization of a flespi message, with the resolution of dotted paths against nested and flat documents,
  and the REST adapter. JSON decoding and the HTTP client are arguments. A decoded document holds numbers as
  float64, so the integer cases of \<open>asNum\<close> do not occur.
\<close>

subsection \<open>Paths\<close>

text \<open>The loop of \<open>splitPath\<close>: \<open>i\<close> runs over the bytes, \<open>start\<close> is the beginning of the current segment.\<close>

function splitPath_loop :: "string \<Rightarrow> nat \<Rightarrow> nat \<Rightarrow> string list \<Rightarrow> string list" where
  "splitPath_loop p i start out =
     (if i < length p
      then (if p ! i = CHR ''.'' then splitPath_loop p (Suc i) (Suc i) (out @ [take (i - start) (drop start p)])
            else splitPath_loop p (Suc i) start out)
      else out @ [drop start p])"
  by pat_completeness auto
termination
  by (relation "measure (\<lambda>(p, i, _). length p - i)") auto

declare splitPath_loop.simps [simp del]

definition splitPath :: "string \<Rightarrow> string list" where
  "splitPath p = splitPath_loop p 0 0 []"

fun joinKeys_loop :: "nat \<Rightarrow> string \<Rightarrow> string list \<Rightarrow> string" where
  "joinKeys_loop i out [] = out"
| "joinKeys_loop i out (k # ks) = joinKeys_loop (Suc i) ((if 0 < i then out @ ''.'' else out) @ k) ks"

definition joinKeys :: "string list \<Rightarrow> string" where
  "joinKeys keys = joinKeys_loop 0 [] keys"

definition asNum :: "json \<Rightarrow> float64 option" where
  "asNum v = (case v of JNum x \<Rightarrow> Some x | _ \<Rightarrow> None)"

text \<open>The recursive closure \<open>walk\<close>: its list is what remains of the keys.\<close>

fun walk :: "string list \<Rightarrow> jobj \<Rightarrow> float64 option" where
  "walk [] m = None"
| "walk (k # ks) m =
     (case map_of m (joinKeys (k # ks)) of
        Some v \<Rightarrow> asNum v
      | None \<Rightarrow>
          (case map_of m k of
             None \<Rightarrow> None
           | Some v \<Rightarrow> if ks = [] then asNum v else (case v of JObj nm \<Rightarrow> walk ks nm | _ \<Rightarrow> None)))"

definition numAt :: "jobj \<Rightarrow> string \<Rightarrow> float64 option" where
  "numAt doc path = walk (splitPath path) doc"

subsection \<open>Normalization\<close>

definition str_at :: "jobj \<Rightarrow> string \<Rightarrow> string" where
  "str_at doc k = (case map_of doc k of Some (JStr s) \<Rightarrow> s | _ \<Rightarrow> [])"

text \<open>\<open>now.UnixNano()\<close>, an int64.\<close>

definition UnixNano :: "time \<Rightarrow> int" where
  "UnixNano t = wrap64 (t - unix_epoch)"

definition message_telemetry :: "string \<Rightarrow> jobj \<Rightarrow> float64 \<Rightarrow> float64 \<Rightarrow> time \<Rightarrow> telemetry" where
  "message_telemetry tenant doc lat lng now =
     (let ident = str_at doc ''ident''
      in zero_telemetry
         \<lparr>tel_ID := ''flespi-'' @ ident @ ''-'' @ show_int (UnixNano now), tel_TenantID := tenant,
          tel_VehicleID := ''flespi-'' @ ident, tel_DeviceID := ''flespi-'' @ ident,
          tel_Timestamp := now, tel_ReceivedAt := now,
          tel_Location := zero_location\<lparr>loc_Lat := lat, loc_Lng := lng\<rparr>,
          tel_SpeedKmh := numAt doc ''position.speed'',
          tel_Ignition := (case map_of doc ''ignition'' of Some (JBool b) \<Rightarrow> Some b | _ \<Rightarrow> None),
          tel_Raw := Some doc,
          tel_Source := \<lparr>src_Provider = ''flespi'', src_Protocol = ''flespi-mqtt'', src_DeviceID = ident\<rparr>,
          tel_Metadata := \<lparr>md_CorrelationID = ident, md_SchemaVersion = CurrentSchemaVersion,
                           md_Sequence = None, md_Quality = ''degraded:no-timestamp''\<rparr>\<rparr>)"

text \<open>A document that is JSON null decodes to the nil map, which has no keys.\<close>

definition MessageToTelemetry :: "(string \<Rightarrow> go_error + jobj) \<Rightarrow> string \<Rightarrow> string \<Rightarrow> time \<Rightarrow> go_error + telemetry" where
  "MessageToTelemetry unmarshal tenant raw now =
     (case unmarshal raw of
        Inl err \<Rightarrow> Inl (''flespi: invalid JSON: '' @ err)
      | Inr doc \<Rightarrow>
          (case (str_at doc ''ident'', numAt doc ''position.latitude'', numAt doc ''position.longitude'') of
             (c # cs, Some lat, Some lng) \<Rightarrow>
               (let t = message_telemetry tenant doc lat lng now
                in case telemetry_Validate t of
                     Some err \<Rightarrow> Inl (''flespi: invalid normalized message: '' @ err)
                   | None \<Rightarrow> Inr t)
           | _ \<Rightarrow> Inl ''flespi: ident + position required''))"

subsection \<open>The REST adapter\<close>

record flespi_device =
  fd_ID :: int
  fd_Name :: string

definition flespi_New :: "string \<Rightarrow> string \<Rightarrow> string \<Rightarrow> rest_adapter" where
  "flespi_New baseURL token tenant =
     \<lparr>ra_baseURL = baseURL, ra_auth = ''FlespiToken '' @ token, ra_tenant = tenant, ra_state = StateConfigured\<rparr>"

definition flespi_Connect :: "'w http_get \<Rightarrow> rest_adapter \<Rightarrow> 'w \<Rightarrow> (go_error option \<times> rest_adapter) \<times> 'w" where
  "flespi_Connect http a w =
     (let a = a\<lparr>ra_state := StateConnecting\<rparr>
      in case http (ra_baseURL a @ ''/gw/devices'') (ra_auth a) w of
           (Inl err, w) \<Rightarrow> ((Some (''flespi: connect: '' @ err), a\<lparr>ra_state := StateFailed\<rparr>), w)
         | (Inr (status, body), w) \<Rightarrow>
             if status \<noteq> 200
             then ((Some (''flespi: devices returned '' @ show_int status), a\<lparr>ra_state := StateFailed\<rparr>), w)
             else ((None, a\<lparr>ra_state := StateHealthy\<rparr>), w))"

definition flespi_Disconnect :: "rest_adapter \<Rightarrow> go_error option \<times> rest_adapter" where
  "flespi_Disconnect a = (None, a\<lparr>ra_state := StateConfigured\<rparr>)"

text \<open>\<open>Subscribe\<close> only waits for the end of the context: \<^term>\<open>None\<close> while it waits, then no error.\<close>

definition flespi_Subscribe :: "bool \<Rightarrow> go_error option option" where
  "flespi_Subscribe ctxDone = (if ctxDone then Some None else None)"

definition flespi_HandleRaw :: "(string \<Rightarrow> go_error + jobj) \<Rightarrow> rest_adapter \<Rightarrow> string \<Rightarrow> time \<Rightarrow> go_error + telemetry" where
  "flespi_HandleRaw unmarshal a raw now = MessageToTelemetry unmarshal (ra_tenant a) raw now"

definition flespi_ListVehicles ::
  "'w http_get \<Rightarrow> (string \<Rightarrow> go_error + flespi_device list) \<Rightarrow> rest_adapter \<Rightarrow> 'w \<Rightarrow> (go_error + provider_vehicle list) \<times> 'w" where
  "flespi_ListVehicles http decode a w =
     (if ra_state a \<noteq> StateHealthy then (Inl ''flespi: not connected'', w)
      else case http (ra_baseURL a @ ''/gw/devices'') (ra_auth a) w of
        (Inl err, w) \<Rightarrow> (Inl err, w)
      | (Inr (status, body), w) \<Rightarrow>
          (case decode body of
             Inl err \<Rightarrow> (Inl err, w)
           | Inr devs \<Rightarrow> (Inr (map (\<lambda>d. \<lparr>pv_ProviderID = show_int (fd_ID d), pv_Name = fd_Name d\<rparr>) devs), w)))"

definition flespi_GetVehicle ::
  "'w http_get \<Rightarrow> (string \<Rightarrow> go_error + flespi_device list) \<Rightarrow> rest_adapter \<Rightarrow> string \<Rightarrow> 'w \<Rightarrow> (go_error + provider_vehicle) \<times> 'w" where
  "flespi_GetVehicle http decode a vid w =
     (case flespi_ListVehicles http decode a w of
        (Inl err, w) \<Rightarrow> (Inl err, w)
      | (Inr vs, w) \<Rightarrow>
          (case find_vehicle vid vs of
             Some v \<Rightarrow> (Inr v, w) | None \<Rightarrow> (Inl (''flespi: unknown device '' @ vid), w)))"

definition flespi_Health :: "rest_adapter \<Rightarrow> health_status" where
  "flespi_Health a = \<lparr>hs_State = ra_state a, hs_Message = [], hs_DeviceCount = 0, hs_MsgPerSec = Fin 0\<rparr>"

definition flespi_Capabilities :: capabilities where
  "flespi_Capabilities =
     \<lparr>cp_LiveTelemetry = True, cp_HistoricalData = True, cp_DeviceList = True, cp_Events = False,
      cp_Webhooks = True, cp_Commands = False\<rparr>"

subsection \<open>Splitting and joining paths\<close>

lemma splitPath_loop_eq:
  assumes "start \<le> i" "i \<le> length p" "CHR ''.'' \<notin> set (take (i - start) (drop start p))"
  shows "splitPath_loop p i start out = out @ split_on (CHR ''.'') (drop start p)"
  using assms
proof (induction p i start out rule: splitPath_loop.induct)
  case (1 p i start out)
  show ?case
  proof (cases "i < length p")
    case True
    have d: "drop start p = take (i - start) (drop start p) @ p ! i # drop (Suc i) p"
      using True "1.prems"(1) by (metis Cons_nth_drop_Suc append_take_drop_id drop_drop le_add_diff_inverse2)
    show ?thesis
    proof (cases "p ! i = CHR ''.''")
      case dot: True
      have "split_on (CHR ''.'') (drop start p) = take (i - start) (drop start p) # split_on (CHR ''.'') (drop (Suc i) p)"
        using "1.prems"(3) dot by (subst d) (simp add: split_on_append_sep split_on_no_sep)
      then show ?thesis using "1.IH"(1) [OF True dot] True dot by (simp add: splitPath_loop.simps [of p i])
    next
      case nodot: False
      have "take (Suc i - start) (drop start p) = take (i - start) (drop start p) @ [p ! i]"
        using True "1.prems"(1) by (simp add: Suc_diff_le take_Suc_conv_app_nth)
      then show ?thesis using "1.IH"(2) [OF True nodot] True nodot "1.prems" by (simp add: splitPath_loop.simps [of p i])
    qed
  next
    case False
    then have "take (i - start) (drop start p) = drop start p" using "1.prems"(2) by simp
    with False "1.prems"(3) show ?thesis by (simp add: splitPath_loop.simps [of p i] split_on_no_sep)
  qed
qed

lemma splitPath_eq: "splitPath p = split_on (CHR ''.'') p"
  by (simp add: splitPath_def splitPath_loop_eq)

lemma split_on_segments: "\<forall>k \<in> set (split_on c p). c \<notin> set k"
  by (induction p) (auto split: list.splits)

lemma joinKeys_loop_Suc: "joinKeys_loop (Suc i) out ks = out @ concat (map (\<lambda>k. CHR ''.'' # k) ks)"
  by (induction ks arbitrary: i out) simp_all

lemma join_with_concat: "join_with c (k # ks) = k @ concat (map (\<lambda>k. c # k) ks)"
  by (induction ks arbitrary: k) simp_all

lemma joinKeys_eq: "joinKeys ks = join_with (CHR ''.'') ks"
  by (cases ks) (simp_all add: joinKeys_def joinKeys_loop_Suc join_with_concat)

subsection \<open>Messages are normalized\<close>

definition flespi_norm :: "(string \<Rightarrow> go_error + jobj) \<times> string \<times> string \<Rightarrow> time \<Rightarrow> telemetry option" where
  "flespi_norm x now =
     (case MessageToTelemetry (fst x) (fst (snd x)) (snd (snd x)) now of Inl _ \<Rightarrow> None | Inr t \<Rightarrow> Some t)"

lemma MessageToTelemetry_ok:
  assumes "MessageToTelemetry unmarshal tenant raw now = Inr t"
  shows "\<exists>doc lat lng. unmarshal raw = Inr doc \<and> str_at doc ''ident'' \<noteq> [] \<and> t = message_telemetry tenant doc lat lng now
    \<and> numAt doc ''position.latitude'' = Some lat \<and> numAt doc ''position.longitude'' = Some lng \<and> telemetry_Validate t = None"
  using assms by (auto simp: MessageToTelemetry_def Let_def split: sum.splits list.splits option.splits)

interpretation flespi: normalizer flespi_norm
proof
  fix x now t
  assume "flespi_norm x now = Some t"
  then have "MessageToTelemetry (fst x) (fst (snd x)) (snd (snd x)) now = Inr t" by (simp add: flespi_norm_def split: sum.splits)
  from MessageToTelemetry_ok [OF this]
  show "telemetry_Validate t = None" "md_CorrelationID (tel_Metadata t) \<noteq> []" "tel_ReceivedAt t = now"
    by (auto simp: message_telemetry_def Let_def)
qed

lemma message_dedup_identity:
  "dedup_identity L (message_telemetry tenant doc lat lng now) =
     (''flespi'', str_at doc ''ident'', Inr (now, take 8 (sha256_Sum256 L (json_Marshal L doc))))"
  by (simp add: dedup_identity_def message_telemetry_def Let_def)

subsection \<open>Properties\<close>

text \<open>The hand-written path functions are the library ones, and undo each other: \<open>splitPath\<close> is \<open>strings.Split\<close> at
  dots, and joining what it returns gives the path back. A path is resolved alike in a document with one flat
  key and in the nested one.\<close>

lemma flespi_paths:
  "splitPath p = split_on (CHR ''.'') p \<and> joinKeys (splitPath p) = p
   \<and> numAt [(p, JNum x)] p = Some x
   \<and> numAt [(hd (splitPath p), foldr (\<lambda>k v. JObj [(k, v)]) (tl (splitPath p)) (JNum x))] p = Some x"
proof -
  have nested: "walk ks [(hd ks, foldr (\<lambda>k v. JObj [(k, v)]) (tl ks) (JNum x))] = Some x"
    if "ks \<noteq> []" "\<forall>k \<in> set ks. CHR ''.'' \<notin> set k" for ks
    using that
  proof (induction ks)
    case (Cons k ks)
    show ?case
    proof (cases ks)
      case Nil
      then show ?thesis by (simp add: joinKeys_eq asNum_def)
    next
      case (Cons k' ks')
      have "CHR ''.'' \<in> set (joinKeys (k # ks))" by (simp add: joinKeys_eq join_with_concat Cons)
      then have "joinKeys (k # ks) \<noteq> k" using Cons.prems by auto
      then show ?thesis using Cons.IH Cons.prems Cons by simp
    qed
  qed simp
  have flat: "walk ks [(joinKeys ks, JNum x)] = Some x" if "ks \<noteq> []" for ks
    using that by (cases ks) (simp_all add: asNum_def)
  show ?thesis
    using flat [of "splitPath p"] nested [of "splitPath p"] split_on_segments [of "CHR ''.''" p] by (simp add: numAt_def splitPath_eq joinKeys_eq)
qed

text \<open>A redelivered flespi message is not recognized. The point gets the time of receipt as its event time, so the
  same message normalized at two different instants has two different dedup keys: the second delivery is
  processed as a new point.\<close>

lemma flespi_redelivery_not_recognized:
  assumes "MessageToTelemetry unmarshal tenant raw now = Inr t" "MessageToTelemetry unmarshal tenant raw now' = Inr t'"
    and "now \<noteq> now'" "four_digit_year now" "four_digit_year now'" "CHR ''|'' \<notin> set (src_DeviceID (tel_Source t))"
  shows "DedupKey L t \<noteq> DedupKey L t'"
proof -
  obtain doc lat lng lat' lng' where t: "t = message_telemetry tenant doc lat lng now" "t' = message_telemetry tenant doc lat' lng' now'"
    using MessageToTelemetry_ok [OF assms(1)] MessageToTelemetry_ok [OF assms(2)] by auto
  have "dedup_identity L t \<noteq> dedup_identity L t'" using assms(3) by (simp add: t message_dedup_identity)
  moreover have "DedupKey L t = DedupKey L t' \<longleftrightarrow> dedup_identity L t = dedup_identity L t'"
    by (rule DedupKey_eq_iff) (use assms(4-6) in \<open>simp_all add: t message_telemetry_def Let_def\<close>)
  ultimately show ?thesis by simp
qed

definition flespi_doc :: jobj where
  "flespi_doc = [(''ident'', JStr ''i''), (''position.latitude'', JNum (Fin 1)),
                 (''position'', JObj [(''longitude'', JNum (Fin 2))])]"

lemma flespi_doc_at:
  "str_at flespi_doc ''ident'' = ''i''" "numAt flespi_doc ''position.latitude'' = Some (Fin 1)"
  "numAt flespi_doc ''position.longitude'' = Some (Fin 2)" "numAt flespi_doc ''position.speed'' = None"
  by (simp_all add: flespi_doc_def str_at_def numAt_def splitPath_eq joinKeys_eq asNum_def)

lemma flespi_doc_ok:
  "now \<noteq> 0 \<Longrightarrow> MessageToTelemetry (\<lambda>_. Inr flespi_doc) ''t'' ''m'' now = Inr (message_telemetry ''t'' flespi_doc (Fin 1) (Fin 2) now)"
proof -
  assume "now \<noteq> 0"
  then have "telemetry_Validate (message_telemetry ''t'' flespi_doc (Fin 1) (Fin 2) now) = None"
    by (simp add: telemetry_Validate_ok_iff message_telemetry_def flespi_doc_at in_range_or_NaN_def zero_telemetry_def Let_def)
  then show ?thesis by (simp add: MessageToTelemetry_def flespi_doc_at Let_def)
qed

lemma flespi_redelivery_not_recognized_example:
  "DedupKey plain_lib (message_telemetry ''t'' flespi_doc (Fin 1) (Fin 2) 1) \<noteq>
   DedupKey plain_lib (message_telemetry ''t'' flespi_doc (Fin 1) (Fin 2) 2)"
proof (rule flespi_redelivery_not_recognized [OF flespi_doc_ok flespi_doc_ok])
  show "four_digit_year 1" "four_digit_year 2" by code_simp+
qed (simp_all add: message_telemetry_def flespi_doc_at Let_def)

end
