(* ===== verification/Registry.thy ===== *)
theory Registry
  imports Mqtt Traccar Flespi
begin

section \<open>The adapter registry and the engine process (adapters/registry, cmd/tide-engine)\<close>

text \<open>
  Which upstream sources are configured, how each is connected to the pipeline and run, the heartbeat events,
  and the offline sweep of the engine process. Environment variables, files, clocks and the clients of the
  sources are arguments. The registry and the sources act on a world \<open>'w\<close> that holds the pipeline.
\<close>

datatype adapter_source = MqttSource mqtt_adapter | TraccarSource rest_adapter

record reg_adapter =
  rg_name :: string
  rg_src :: adapter_source
  rg_count :: int
  rg_started :: time

definition defaultTenant :: "(string \<Rightarrow> string) \<Rightarrow> string" where
  "defaultTenant getenv = (if getenv ''TIDE_TENANT'' \<noteq> [] then getenv ''TIDE_TENANT'' else ''default'')"

text \<open>\<open>emitting\<close>: a processed point is counted, an error is passed on.\<close>

definition emitting :: "(telemetry \<Rightarrow> 'p \<Rightarrow> process_result \<times> 'p) \<Rightarrow> telemetry \<Rightarrow> int \<times> 'p \<Rightarrow> go_error option \<times> int \<times> 'p" where
  "emitting proc t s =
     (let (n, p) = s
      in case proc t p of
           ((_, _, Some err), p) \<Rightarrow> (Some (process_error_string err), n, p)
         | ((_, _, None), p) \<Rightarrow> (None, wrap64 (n + 1), p))"

definition Configure ::
  "(string \<Rightarrow> string) \<Rightarrow> (string \<Rightarrow> go_error + string) \<Rightarrow> (string \<Rightarrow> go_error + mapping_config) \<Rightarrow> (string \<Rightarrow> string) \<Rightarrow> time
    \<Rightarrow> reg_adapter list" where
  "Configure getenv readFile yaml base64 now =
     (let broker = getenv ''TIDE_MQTT_BROKER'';
          mapPath = (if getenv ''TIDE_MQTT_MAPPING'' = [] then ''examples/mqtt-mapping.yaml'' else getenv ''TIDE_MQTT_MAPPING'');
          url = getenv ''TIDE_TRACCAR_URL''
      in (if broker = [] then []
          else case readFile mapPath of
            Inl _ \<Rightarrow> []
          | Inr raw \<Rightarrow>
              (case LoadMapping yaml raw of
                 Inl _ \<Rightarrow> []
               | Inr mc \<Rightarrow> [\<lparr>rg_name = ''mqtt'', rg_src = MqttSource (mqtt_New (mc\<lparr>mc_Broker := broker\<rparr>)),
                              rg_count = 0, rg_started = now\<rparr>]))
         @ (if url = [] then []
            else [\<lparr>rg_name = ''traccar'',
                    rg_src = TraccarSource (traccar_New base64 url (getenv ''TIDE_TRACCAR_USER'')
                      (getenv ''TIDE_TRACCAR_PASSWORD'') (defaultTenant getenv)),
                    rg_count = 0, rg_started = now\<rparr>]))"

subsection \<open>Running a source\<close>

datatype run_status = Running | Stopped

text \<open>The handler of the Traccar subscription: normalize, then emit; \<open>clock\<close> reads the time in the world.\<close>

definition traccar_handler ::
  "(string \<Rightarrow> go_error + position) \<Rightarrow> ('w \<Rightarrow> time) \<Rightarrow> (telemetry \<Rightarrow> 'w \<Rightarrow> go_error option \<times> 'w) \<Rightarrow> rest_adapter \<Rightarrow> string \<Rightarrow> 'w
    \<Rightarrow> go_error option \<times> 'w" where
  "traccar_handler unmarshal clock emit a payload w =
     (case traccar_HandleRaw unmarshal a payload (clock w) of
        Inl herr \<Rightarrow> (Some herr, w)
      | Inr t \<Rightarrow> emit t w)"

text \<open>\<open>Run\<close> for a Traccar source, up to the inputs its poll loop has seen; the deferred \<open>Disconnect\<close> runs on return.\<close>

definition run_traccar ::
  "'w http_get \<Rightarrow> (string \<Rightarrow> go_error + position list) \<Rightarrow> (position \<Rightarrow> string) \<Rightarrow> (string \<Rightarrow> go_error + position) \<Rightarrow> ('w \<Rightarrow> time)
    \<Rightarrow> (telemetry \<Rightarrow> 'w \<Rightarrow> go_error option \<times> 'w) \<Rightarrow> poll_input list \<Rightarrow> rest_adapter \<times> 'w \<Rightarrow> run_status \<times> rest_adapter \<times> 'w" where
  "run_traccar http decode marshal unmarshal clock emit is s =
     (let (a, w) = s
      in case traccar_Connect http a w of
           ((Some _, a), w) \<Rightarrow> (Stopped, a, w)
         | ((None, a), w) \<Rightarrow>
             (case traccar_Subscribe http decode marshal (traccar_handler unmarshal clock emit a) is (a, w) of
                (Polling, a, w) \<Rightarrow> (Running, a, w)
              | (Ended _, a, w) \<Rightarrow> (Stopped, snd (traccar_Disconnect a), w)))"

text \<open>\<open>Run\<close> for an MQTT source: connect, subscribe, and wait for the end of the context.\<close>

definition run_mqtt ::
  "connect_env \<Rightarrow> (string \<Rightarrow> bool \<times> go_error option) \<Rightarrow> bool \<Rightarrow> mqtt_adapter \<Rightarrow> run_status \<times> mqtt_adapter" where
  "run_mqtt E sub ctxDone a =
     (case mqtt_Connect E a of
        ((Some _, _), a) \<Rightarrow> (Stopped, a)
      | ((None, _), a) \<Rightarrow>
          (case mqtt_Subscribe sub a of
             (Some _, a) \<Rightarrow> (Stopped, snd (mqtt_Disconnect a))
           | (None, a) \<Rightarrow> if ctxDone then (Stopped, snd (mqtt_Disconnect a)) else (Running, a)))"

subsection \<open>Heartbeats\<close>

definition source_Health :: "time \<Rightarrow> adapter_source \<Rightarrow> health_status" where
  "source_Health now src = (case src of MqttSource a \<Rightarrow> mqtt_Health now a | TraccarSource a \<Rightarrow> traccar_Health a)"

definition rg_rate :: "time \<Rightarrow> reg_adapter \<Rightarrow> float64" where
  "rg_rate now r =
     (let el = Seconds (time_Sub now (rg_started r))
      in if fle el (Fin 0) then Fin 0 else fdiv (f_of_int (rg_count r)) el)"

definition heartbeat_event :: "time \<Rightarrow> string \<Rightarrow> jobj \<Rightarrow> event" where
  "heartbeat_event now name payload =
     \<lparr>ev_ID = ''hb-'' @ name, ev_Type = ''tide.heartbeat.created'', ev_TenantID = ''system'', ev_VehicleID = name,
      ev_Timestamp = now, ev_RuleID = [], ev_RuleVersion = [], ev_CorrelationID = ''hb'', ev_CausationID = [],
      ev_Payload = payload, ev_SchemaVersion = CurrentEventSchemaVersion\<rparr>"

text \<open>\<open>now\<close> is the time of the tick, \<open>now2\<close> the clock read by \<open>Health\<close> and \<open>rate\<close>; publish errors are dropped.\<close>

definition Heartbeats :: "time \<Rightarrow> time \<Rightarrow> (event \<Rightarrow> 'p \<Rightarrow> go_error option \<times> 'p) \<Rightarrow> reg_adapter list \<Rightarrow> 'p \<Rightarrow> 'p" where
  "Heartbeats now now2 publish regs p =
     foldl (\<lambda>p r. let st = source_Health now2 (rg_src r)
                  in snd (publish (heartbeat_event now (rg_name r)
                       [(''name'', JStr (rg_name r)), (''state'', JStr (hs_State st)),
                        (''message'', JStr (hs_Message st)), (''msgPerSec'', JNum (rg_rate now2 r))]) p)) p regs"

definition engine_heartbeat :: "time \<Rightarrow> time \<Rightarrow> (event \<Rightarrow> 'p \<Rightarrow> go_error option \<times> 'p) \<Rightarrow> reg_adapter list \<Rightarrow> 'p \<Rightarrow> 'p" where
  "engine_heartbeat now now2 publish regs p =
     Heartbeats now now2 publish regs
       (snd (publish (heartbeat_event now ''tide-engine'' [(''name'', JStr ''tide-engine''), (''state'', JStr ''HEALTHY'')]) p))"

subsection \<open>The offline sweep\<close>

definition offline_event :: "time \<Rightarrow> string \<Rightarrow> string \<Rightarrow> event" where
  "offline_event now tenant vid =
     \<lparr>ev_ID = DeterministicID ''vehicle.offline.started'' vid now ''sweep'', ev_Type = ''vehicle.offline.started'',
      ev_TenantID = tenant, ev_VehicleID = vid, ev_Timestamp = now, ev_RuleID = [], ev_RuleVersion = [],
      ev_CorrelationID = ''sweep'', ev_CausationID = [], ev_Payload = [], ev_SchemaVersion = CurrentEventSchemaVersion\<rparr>"

text \<open>One vehicle of the sweep; the errors of \<open>Set\<close> and \<open>Publish\<close> are dropped.\<close>

definition sweep_one ::
  "(string \<Rightarrow> 'p \<Rightarrow> (vehicle_state \<times> bool) \<times> go_error option) \<Rightarrow> (vehicle_state \<Rightarrow> 'p \<Rightarrow> go_error option \<times> 'p)
    \<Rightarrow> (event \<Rightarrow> 'p \<Rightarrow> go_error option \<times> 'p) \<Rightarrow> time \<Rightarrow> 'p \<Rightarrow> string \<Rightarrow> 'p" where
  "sweep_one get_op set_op publish now p vid =
     (case get_op vid p of
        ((s, found), err) \<Rightarrow>
          if err \<noteq> None \<or> \<not> found then p
          else case CheckOffline s 0 now of
            (_, None) \<Rightarrow> p
          | (next_state, Some _) \<Rightarrow> snd (publish (offline_event now (vs_TenantID s) vid) (snd (set_op next_state p))))"

definition sweep ::
  "('p \<Rightarrow> string list \<times> go_error option) option \<Rightarrow> (string \<Rightarrow> 'p \<Rightarrow> (vehicle_state \<times> bool) \<times> go_error option)
    \<Rightarrow> (vehicle_state \<Rightarrow> 'p \<Rightarrow> go_error option \<times> 'p) \<Rightarrow> (event \<Rightarrow> 'p \<Rightarrow> go_error option \<times> 'p) \<Rightarrow> time \<Rightarrow> 'p \<Rightarrow> 'p" where
  "sweep lister get_op set_op publish now p =
     (case lister of
        None \<Rightarrow> p
      | Some listIDs \<Rightarrow>
          (case listIDs p of (ids, Some _) \<Rightarrow> p | (ids, None) \<Rightarrow> foldl (sweep_one get_op set_op publish now) p ids))"

text \<open>The sweep over the in-memory pipeline.\<close>

definition mem_get :: "string \<Rightarrow> 'd mem_pipeline \<Rightarrow> (vehicle_state \<times> bool) \<times> go_error option" where
  "mem_get v p = MemoryStore_Get v (mp_states p)"

definition mem_set :: "vehicle_state \<Rightarrow> 'd mem_pipeline \<Rightarrow> go_error option \<times> 'd mem_pipeline" where
  "mem_set s p = (let (err, m) = MemoryStore_Set s (mp_states p) in (err, p\<lparr>mp_states := m\<rparr>))"

definition mem_publish :: "event \<Rightarrow> 'd mem_pipeline \<Rightarrow> go_error option \<times> 'd mem_pipeline" where
  "mem_publish e p = (let (err, b) = MemoryBus_Publish e (mp_bus p) in (err, p\<lparr>mp_bus := b\<rparr>))"

definition mem_sweep :: "(string set \<Rightarrow> string list) \<Rightarrow> time \<Rightarrow> 'd mem_pipeline \<Rightarrow> 'd mem_pipeline" where
  "mem_sweep ord now =
     sweep (Some (\<lambda>p. (MemoryStore_ListIDs ord (mp_states p), None))) mem_get mem_set mem_publish now"

subsection \<open>What a sweep does\<close>

definition silent :: "time \<Rightarrow> vehicle_state \<Rightarrow> bool" where
  "silent now s \<longleftrightarrow> vs_LastSeen s \<noteq> 0 \<and> vs_Presence s \<noteq> PresenceOffline \<and> 900 * Second < now - vs_LastSeen s"

definition gone_offline :: "time \<Rightarrow> vehicle_state \<Rightarrow> vehicle_state" where
  "gone_offline now s = (if silent now s then s\<lparr>vs_Presence := PresenceOffline\<rparr> else s)"

lemma gone_offline_simps [simp]:
  "vs_VehicleID (gone_offline now s) = vs_VehicleID s" "vs_TenantID (gone_offline now s) = vs_TenantID s"
  "\<not> silent now (gone_offline now s)" "gone_offline now (gone_offline now s) = gone_offline now s"
  by (auto simp: gone_offline_def silent_def)

text \<open>Every stored state belongs to its key and to a tenant.\<close>

definition states_ok :: "memory_store \<Rightarrow> bool" where
  "states_ok m \<longleftrightarrow> finite (dom m) \<and> (\<forall>v s. m v = Some s \<longrightarrow> vs_VehicleID s = v \<and> v \<noteq> [] \<and> vs_TenantID s \<noteq> [])"

lemma CheckOffline_default:
  "CheckOffline s 0 now =
     (gone_offline now s, if silent now s
        then Some \<lparr>tr_Dimension = ''presence'', tr_From = ''online'', tr_To = ''offline'', tr_At = now\<rparr> else None)"
  using CheckOffline_cases [of 0 s now] by (simp add: cadence_of_def DefaultCadenceSecs_def silent_def gone_offline_def)

lemma offline_event_valid: "tenant \<noteq> [] \<Longrightarrow> vid \<noteq> [] \<Longrightarrow> now \<noteq> 0 \<Longrightarrow> event_Validate (offline_event now tenant vid) = None"
  by (simp add: event_Validate_ok_iff offline_event_def DeterministicID_def transition_type_def validSuffixes_def
      exI [of _ "''vehicle.offline''"])

definition swept_events :: "time \<Rightarrow> memory_store \<Rightarrow> string list \<Rightarrow> event list" where
  "swept_events now m ids =
     map (\<lambda>v. offline_event now (vs_TenantID (the (m v))) v) (filter (\<lambda>v. \<exists>s. m v = Some s \<and> silent now s) ids)"

definition swept :: "time \<Rightarrow> string set \<Rightarrow> memory_store \<Rightarrow> memory_store" where
  "swept now V m = (\<lambda>v. if v \<in> V then map_option (gone_offline now) (m v) else m v)"

lemma sweep_one_mem:
  assumes "states_ok (mp_states p)" "now \<noteq> 0"
  shows "sweep_one mem_get mem_set mem_publish now p v
    = p\<lparr>mp_states := swept now {v} (mp_states p), mp_bus := mp_bus p @ swept_events now (mp_states p) [v]\<rparr>"
proof (cases "mp_states p v")
  case None
  then have "swept now {v} (mp_states p) = mp_states p" by (auto simp: swept_def)
  with None show ?thesis by (simp add: sweep_one_def mem_get_def mem_set_def mem_publish_def MemoryStore_Get_def swept_events_def)
next
  case (Some s)
  then have s: "vs_VehicleID s = v" "v \<noteq> []" "vs_TenantID s \<noteq> []" using assms(1) by (auto simp: states_ok_def)
  show ?thesis
  proof (cases "silent now s")
    case True
    have "swept now {v} (mp_states p) = (mp_states p)(v \<mapsto> gone_offline now s)" using Some by (auto simp: swept_def)
    then show ?thesis
      using True Some s offline_event_valid [OF s(3,2) assms(2)]
      by (simp add: sweep_one_def mem_get_def mem_set_def mem_publish_def MemoryStore_Get_def MemoryStore_Set_def MemoryBus_Publish_def CheckOffline_default swept_events_def)
  next
    case False
    then have "swept now {v} (mp_states p) = mp_states p" using Some by (auto simp: swept_def gone_offline_def)
    with False Some show ?thesis
      by (simp add: sweep_one_def mem_get_def mem_set_def mem_publish_def MemoryStore_Get_def CheckOffline_default swept_events_def)
  qed
qed

lemma states_ok_swept: "states_ok m \<Longrightarrow> states_ok (swept now V m)"
proof -
  assume ok: "states_ok m"
  have "dom (swept now V m) = dom m" by (auto simp: swept_def split: if_splits)
  with ok show ?thesis by (auto simp: states_ok_def swept_def split: if_splits)
qed

lemma sweep_fold_mem:
  assumes "states_ok (mp_states p)" "now \<noteq> 0" "distinct ids"
  shows "foldl (sweep_one mem_get mem_set mem_publish now) p ids
    = p\<lparr>mp_states := swept now (set ids) (mp_states p), mp_bus := mp_bus p @ swept_events now (mp_states p) ids\<rparr>"
  using assms
proof (induction ids arbitrary: p)
  case Nil
  have "swept now {} (mp_states p) = mp_states p" by (simp add: swept_def)
  then show ?case by (simp add: swept_events_def)
next
  case (Cons v ids)
  let ?p = "p\<lparr>mp_states := swept now {v} (mp_states p), mp_bus := mp_bus p @ swept_events now (mp_states p) [v]\<rparr>"
  have "swept now (set ids) (swept now {v} (mp_states p)) = swept now (set (v # ids)) (mp_states p)"
    by (auto simp: swept_def option.map_comp comp_def fun_eq_iff)
  moreover have "swept_events now (swept now {v} (mp_states p)) ids = swept_events now (mp_states p) ids"
    using Cons.prems(3) unfolding swept_events_def by (intro map_cong filter_cong) (auto simp: swept_def)
  moreover have "swept_events now m (v # ids) = swept_events now m [v] @ swept_events now m ids" for m
    by (simp add: swept_events_def)
  ultimately show ?case
    using Cons.IH [of ?p] states_ok_swept [OF Cons.prems(1)] Cons.prems by (simp add: sweep_one_mem [OF Cons.prems(1,2)])
qed

lemma mem_sweep_eq:
  assumes "states_ok (mp_states p)" "now \<noteq> 0" "enumerates ord"
  shows "mem_sweep ord now p =
    p\<lparr>mp_states := \<lambda>v. map_option (gone_offline now) (mp_states p v),
      mp_bus := mp_bus p @ swept_events now (mp_states p) (ord (dom (mp_states p)))\<rparr>"
proof -
  have "set (ord (dom (mp_states p))) = dom (mp_states p)" "distinct (ord (dom (mp_states p)))"
    using assms(1,3) by (auto simp: states_ok_def enumerates_def)
  moreover have "swept now (dom (mp_states p)) (mp_states p) = (\<lambda>v. map_option (gone_offline now) (mp_states p v))"
    by (auto simp: swept_def dom_def fun_eq_iff)
  ultimately show ?thesis
    using sweep_fold_mem [OF assms(1,2)] by (simp add: mem_sweep_def sweep_def MemoryStore_ListIDs_def)
qed

subsection \<open>Runs of the engine process\<close>

text \<open>The pipelines the engine process can be in: any mix of processed points and sweeps.\<close>

inductive engine_reach ::
  "go_lib \<Rightarrow> (string set \<Rightarrow> string list) \<Rightarrow> (string \<Rightarrow> string \<Rightarrow> event \<Rightarrow> 'd \<Rightarrow> go_error option \<times> 'd) \<Rightarrow> 'd mem_pipeline \<Rightarrow> bool"
  for L ord disp where
  start: "mp_states p = NewMemoryStore \<Longrightarrow> engine_reach L ord disp p"
| process: "engine_reach L ord disp p \<Longrightarrow> engine_reach L ord disp (snd (mem_Process L ord disp clk t p))"
| swept: "engine_reach L ord disp p \<Longrightarrow> now \<noteq> 0 \<Longrightarrow> engine_reach L ord disp (mem_sweep ord now p)"

lemma states_ok_process:
  assumes "states_ok (mp_states p)"
  shows "states_ok (mp_states (snd (mem_Process L ord disp clk t p)))"
proof (cases "accepted clk t \<and> \<not> duplicate L clk t p")
  case True
  then have "tel_VehicleID t \<noteq> []" "tel_TenantID t \<noteq> []" by (auto simp: accepted_def telemetry_Validate_ok_iff)
  then show ?thesis
    using assms mem_Process_fresh_result [OF _ _ refl refl, of clk t L p ord disp] True
    by (auto simp: ingested_def states_ok_def)
next
  case False
  then have "snd (mem_Process L ord disp clk t p) = p"
    using mem_Process_duplicate [of clk t L p ord disp] mem_Process_rejected [of clk t L ord disp p] by (cases "accepted clk t") auto
  with assms show ?thesis by simp
qed

lemma engine_states_ok: "engine_reach L ord disp p \<Longrightarrow> enumerates ord \<Longrightarrow> states_ok (mp_states p)"
proof (induction rule: engine_reach.induct)
  case (start p)
  then show ?case by (simp add: states_ok_def NewMemoryStore_def)
next
  case (process p clk t)
  then show ?case by (simp add: states_ok_process)
next
  case (swept p now)
  then have "states_ok (Registry.swept now UNIV (mp_states p))" by (intro states_ok_swept) simp
  moreover have "Registry.swept now UNIV (mp_states p) = (\<lambda>v. map_option (gone_offline now) (mp_states p v))"
    by (simp add: Registry.swept_def)
  ultimately show ?case using swept by (simp add: mem_sweep_eq)
qed

subsection \<open>Errors of a poll\<close>

lemma hand_over_fails:
  "p \<in> set ps \<Longrightarrow> (\<And>w. fst (handler (marshal p) w) \<noteq> None) \<Longrightarrow> fst (hand_over marshal handler ps w) \<noteq> None"
proof (induction ps arbitrary: w)
  case (Cons q ps)
  obtain err w' where h: "handler (marshal q) w = (err, w')" by fastforce
  show ?case
  proof (cases err)
    case None
    then have "p \<noteq> q" using Cons.prems(2) [of w] h by auto
    with Cons None h show ?thesis by simp
  qed (simp add: h)
qed simp

lemma poll_fails:
  assumes "fetchPositions http decode a w = (Inr ps, w')" "fst (hand_over marshal handler ps w') \<noteq> None"
  shows "\<exists>err w''. traccar_Subscribe http decode marshal handler (PollTick # is) (a, w) = (Ended (Some err), a\<lparr>ra_state := StateHealthy\<rparr>, w'')
    \<and> hand_over marshal handler ps w' = (Some err, w'')"
proof -
  obtain err w'' where h: "hand_over marshal handler ps w' = (Some err, w'')"
    using assms(2) by (metis not_None_eq prod.collapse)
  then show ?thesis using assms(1) by (simp add: poll_step_def)
qed

subsection \<open>Properties\<close>

text \<open>C16: The sweep marks exactly the silent vehicles. In every state the engine process can reach, a sweep sets exactly
  the vehicles that have been silent for more than fifteen minutes offline, publishes one offline event for each
  of them, changes nothing else, and a second sweep at the same time does nothing.\<close>

theorem sweep_marks_exactly_silent:
  assumes "engine_reach L ord disp p" "enumerates ord" "now \<noteq> 0"
  shows "mem_sweep ord now p =
      p\<lparr>mp_states := \<lambda>v. map_option (gone_offline now) (mp_states p v),
        mp_bus := mp_bus p @ map (\<lambda>v. offline_event now (vs_TenantID (the (mp_states p v))) v)
          (filter (\<lambda>v. \<exists>s. mp_states p v = Some s \<and> silent now s) (ord (dom (mp_states p))))\<rparr>
    \<and> mem_sweep ord now (mem_sweep ord now p) = mem_sweep ord now p"
proof -
  note ok = engine_states_ok [OF assms(1,2)]
  note ok' = engine_states_ok [OF engine_reach.swept [OF assms(1,3)] assms(2)]
  have "swept_events now (\<lambda>v. map_option (gone_offline now) (mp_states p v)) ids = []" for ids
    by (auto simp: swept_events_def filter_empty_conv)
  moreover have "(\<lambda>v. map_option (gone_offline now) (map_option (gone_offline now) (mp_states p v)))
      = (\<lambda>v. map_option (gone_offline now) (mp_states p v))"
    by (auto simp: option.map_comp comp_def)
  ultimately have "mem_sweep ord now (mem_sweep ord now p) = mem_sweep ord now p"
    using mem_sweep_eq [OF ok' assms(3,2)] by (simp add: mem_sweep_eq [OF ok assms(3,2)])
  then show ?thesis by (simp add: mem_sweep_eq [OF ok assms(3,2)] swept_events_def)
qed

definition heard_once :: "unit mem_pipeline" where
  "heard_once = snd (mem_Process plain_lib sorted_list_of_set (\<lambda>_ _ _ d. (None, d)) (clk_at 5) (point_at ''v'' 1 None None None) NewTestPipeline)"

lemma heard_once_state: "\<exists>s. mp_states heard_once ''v'' = Some s \<and> silent (1000 * Second) s"
proof -
  let ?t = "point_at ''v'' 1 None None None" and ?p = "NewTestPipeline :: unit mem_pipeline"
  let ?s = "fst (Apply (ck_apply (clk_at 5)) (state_of ?p (tel_VehicleID ?t)) ?t)"
  have "telemetry_Validate ?t = None" by (rule point_at_valid) simp_all
  then have a: "accepted (clk_at 5) ?t" by (simp add: accepted_def clk_at_def MaxFutureSkew_def point_at_simps)
  have d: "\<not> duplicate plain_lib (clk_at 5) ?t ?p" by (simp add: duplicate_def NewTestPipeline_start MemoryStore_Seen_def)
  have v: "tel_VehicleID ?t = ''v''" "tel_Timestamp ?t = 1" by (simp_all add: point_at_simps)
  have "mp_states heard_once ''v'' = Some ?s"
    using mem_Process_fresh_result [OF a d refl refl, of sorted_list_of_set "\<lambda>_ _ _ d. (None, d)"] by (simp add: heard_once_def ingested_def v)
  moreover have "\<not> is_late (state_of ?p (tel_VehicleID ?t)) ?t" by (simp add: is_late_def state_of_def NewTestPipeline_start zero_vehicle_state_def IsZero_def)
  then have "silent (1000 * Second) ?s" by (simp add: silent_def Apply_LastSeen Apply_fresh_Presence v)
  ultimately show ?thesis by blast
qed

theorem sweep_marks_exactly_silent_witness:
  "\<exists>s. mp_states heard_once ''v'' = Some s \<and> vs_Presence s \<noteq> PresenceOffline
     \<and> mp_states (mem_sweep sorted_list_of_set (1000 * Second) heard_once) ''v'' = Some (s\<lparr>vs_Presence := PresenceOffline\<rparr>)"
proof -
  have "engine_reach plain_lib sorted_list_of_set (\<lambda>_ _ _ d. (None, d)) heard_once"
    unfolding heard_once_def by (intro engine_reach.process engine_reach.start) (simp add: NewTestPipeline_def)
  from sweep_marks_exactly_silent [OF this enumerates_sorted, of "1000 * Second", THEN conjunct1] heard_once_state
  show ?thesis by (auto simp: gone_offline_def silent_def)
qed

text \<open>What an adapter delivers, the pipeline can process. A point that the MQTT mapping, the Traccar or the flespi
  normalization returns, and that is not too far in the future, is processed without any error, and every
  event it causes reaches the bus.\<close>

lemma adapter_points_are_published:
  assumes "mqtt_norm x now = Some t \<or> traccar_norm y now = Some t \<or> flespi_norm z now = Some t"
    and "tel_Timestamp t \<le> ck_skew clk + MaxFutureSkew"
  shows "snd (snd (fst (mem_Process L ord disp clk t p))) = None
    \<and> mp_bus (snd (mem_Process L ord disp clk t p)) = mp_bus p @ fst (fst (mem_Process L ord disp clk t p))"
  using assms(1) mqtt.norm_published [OF _ assms(2)] traccar.norm_published [OF _ assms(2)] flespi.norm_published [OF _ assms(2)]
  by blast

lemma adapter_points_are_published_example:
  "let t = message_telemetry ''t'' flespi_doc (Fin 1) (Fin 2) 5 in
   snd (snd (fst (mem_Process plain_lib sorted_list_of_set (\<lambda>_ _ _ d. (None, d)) (clk_at 5) t (NewTestPipeline :: unit mem_pipeline)))) = None"
proof -
  have n: "flespi_norm (\<lambda>_. Inr flespi_doc, ''t'', ''m'') 5 = Some (message_telemetry ''t'' flespi_doc (Fin 1) (Fin 2) 5)"
    by (simp add: flespi_norm_def flespi_doc_ok)
  then show ?thesis
    unfolding Let_def
    by (intro adapter_points_are_published [THEN conjunct1, OF disjI2 [OF disjI2 [OF n]]])
      (simp add: message_telemetry_def Let_def clk_at_def MaxFutureSkew_def)
qed

text \<open>One bad position ends the Traccar subscription. When a poll returns a position that does not normalize, the
  handler's error ends the poll loop: the source is disconnected and stays stopped whatever ticks follow, in a
  state that reports no failure.\<close>

lemma bad_position_ends_polling:
  assumes "traccar_Connect http a w = ((None, a1), w1)" "fetchPositions http decode a1 w1 = (Inr ps, w2)"
    and "q \<in> set ps" "unmarshal (marshal q) = Inr q" "\<And>now. \<exists>err. PositionToTelemetry (ra_tenant a1) q now = Inl err"
  shows "\<exists>w3. \<forall>is. run_traccar http decode marshal unmarshal clock emit (PollTick # is) (a, w)
    = (Stopped, a1\<lparr>ra_state := StateConfigured\<rparr>, w3)"
proof -
  let ?h = "traccar_handler unmarshal clock emit a1"
  have "fst (?h (marshal q) v) \<noteq> None" for v
    using assms(4) assms(5) [of "clock v"] by (auto simp: traccar_handler_def traccar_HandleRaw_def)
  then have bad: "fst (hand_over marshal ?h ps w2) \<noteq> None" by (rule hand_over_fails [OF assms(3)])
  obtain err w3 where h: "hand_over marshal ?h ps w2 = (Some err, w3)" using bad by (metis not_None_eq prod.collapse)
  have "run_traccar http decode marshal unmarshal clock emit (PollTick # is) (a, w) = (Stopped, a1\<lparr>ra_state := StateConfigured\<rparr>, w3)" for "is"
    using poll_fails [OF assms(2) bad, of "is"] h assms(1) by (auto simp: run_traccar_def traccar_Disconnect_def simp del: traccar_Subscribe.simps)
  then show ?thesis by blast
qed

definition bad_position :: position where
  "bad_position = \<lparr>ps_ID = 1, ps_DeviceID = 2, ps_Protocol = ''osmand'', ps_DeviceTime = 5, ps_FixTime = 5,
     ps_Latitude = Fin 91, ps_Longitude = Fin 0, ps_Speed = Fin 0, ps_Attributes = None\<rparr>"

lemma bad_position_ends_polling_example:
  "\<exists>w3. \<forall>is. run_traccar (\<lambda>_ _ w. (Inr (200, []), w)) (\<lambda>_. Inr [bad_position]) (\<lambda>_. ''p'') (\<lambda>_. Inr bad_position) (\<lambda>_. 5)
      (\<lambda>_ w. (None, w)) (PollTick # is) (traccar_New (\<lambda>s. s) ''u'' ''n'' ''p'' ''t'', ())
    = (Stopped, traccar_New (\<lambda>s. s) ''u'' ''n'' ''p'' ''t'', w3)"
proof -
  let ?a = "traccar_New (\<lambda>s. s) ''u'' ''n'' ''p'' ''t''" and ?http = "\<lambda>_ _ w. (Inr (200, []), w)"
  let ?a1 = "?a\<lparr>ra_state := StateHealthy\<rparr>"
  have c: "traccar_Connect ?http ?a () = ((None, ?a1), ())"
    by (simp add: traccar_Connect_def traccar_New_def)
  have f: "fetchPositions ?http (\<lambda>_. Inr [bad_position]) ?a1 () = (Inr [bad_position], ())"
    by (simp add: fetchPositions_def)
  have b: "\<exists>err. PositionToTelemetry (ra_tenant ?a1) bad_position now = Inl err" for now
    by (auto simp: PositionToTelemetry_def Let_def telemetry_Validate_ok_iff position_telemetry_def bad_position_def in_range_or_NaN_def
        split: option.split)
  have "?a1\<lparr>ra_state := StateConfigured\<rparr> = ?a" by (simp add: traccar_New_def)
  with bad_position_ends_polling [OF c f, of bad_position "\<lambda>_. Inr bad_position" "\<lambda>_. ''p''", OF _ _ b, of "\<lambda>_. 5" "\<lambda>_ w. (None, w)"]
  show ?thesis by simp
qed

end
