(* ===== verification/Api.thy ===== *)
theory Api
  imports Adapters
begin

section \<open>The HTTP surface (internal/api, internal/ingest)\<close>

text \<open>
  The rate limiter, the method and header middleware, the geofence and adapter registries, the event hub and
  the handlers. A reply is its status, the headers in the order they are set (a later one replaces an earlier one of
  the same name) and its body. JSON decoding is an argument of the handlers, as are the
  WebSocket connections and Postgres; the clock readings are arguments. The limiter's counter is an integer
  without its 64-bit bound, which no client can reach.
\<close>

record connection_line =
  cn_name :: string
  cn_state :: string
  cn_detail :: "(string \<times> int \<times> float64) option"
  cn_lastSeen :: time

record sim_status =
  ss_ID :: string
  ss_State :: string
  ss_Scenario :: string
  ss_Vehicles :: int
  ss_Points :: int
  ss_Accepted :: int
  ss_Events :: int
  ss_Error :: string

datatype body = TextBody string | IngestBody nat nat | AcceptedBody nat | EventsBody "event list" | StateBody vehicle_state
  | FencesBody "geofence list" | TriggersBody "trigger list" | ConnectionsBody "connection_line list" | SimBody sim_status | EmptyBody

record reply =
  ry_Status :: int
  ry_Header :: "(string \<times> string) list"
  ry_Body :: body

definition http_Error :: "string \<Rightarrow> int \<Rightarrow> reply" where
  "http_Error msg status =
     \<lparr>ry_Status = status,
      ry_Header = [(''Content-Type'', ''text/plain; charset=utf-8''), (''X-Content-Type-Options'', ''nosniff'')],
      ry_Body = TextBody (msg @ [CHR 0x0A])\<rparr>"

definition ok_reply :: "int \<Rightarrow> body \<Rightarrow> reply" where
  "ok_reply status b = \<lparr>ry_Status = status, ry_Header = [(''Content-Type'', ''application/json'')], ry_Body = b\<rparr>"

definition internalError :: "go_error \<Rightarrow> reply" where
  "internalError err = http_Error ''internal error'' 500"

subsection \<open>Middleware\<close>

text \<open>
  What becomes of a request: a reply, a connection taken over by the WebSocket library, or a panic of the
  handler, which the HTTP server turns into an aborted connection.
\<close>

datatype outcome = Replied reply | Hijacked | Aborted

definition denyTrace :: "(string \<Rightarrow> 's \<Rightarrow> outcome \<times> 's) \<Rightarrow> string \<Rightarrow> 's \<Rightarrow> outcome \<times> 's" where
  "denyTrace handler meth s =
     (if meth = ''TRACE'' \<or> meth = ''TRACK'' \<or> meth = ''CONNECT'' then (Replied (http_Error ''method not allowed'' 405), s)
      else handler meth s)"

definition security_header_list :: "(string \<times> string) list" where
  "security_header_list =
     [(''X-Content-Type-Options'', ''nosniff''), (''X-Frame-Options'', ''DENY''), (''Referrer-Policy'', ''no-referrer''),
      (''Content-Security-Policy'', ''default-src '' @ [char_of (39 :: nat)] @ ''none'' @ [char_of (39 :: nat)] @
         ''; frame-ancestors '' @ [char_of (39 :: nat)] @ ''none'' @ [char_of (39 :: nat)]),
      (''Cache-Control'', ''no-store'')]"

definition securityHeaders :: "('r \<Rightarrow> 's \<Rightarrow> outcome \<times> 's) \<Rightarrow> 'r \<Rightarrow> 's \<Rightarrow> outcome \<times> 's" where
  "securityHeaders handler r s =
     (let (out, s') = handler r s
      in (case out of Replied rep \<Rightarrow> Replied (rep\<lparr>ry_Header := security_header_list @ ry_Header rep\<rparr>) | _ \<Rightarrow> out, s'))"

subsection \<open>The rate limiter\<close>

record rl_window =
  rw_count :: int
  rw_reset :: time

record rate_limiter =
  rl_hits :: "string \<rightharpoonup> rl_window"
  rl_Limit :: int
  rl_Window :: duration

definition NewRateLimiter :: "int \<Rightarrow> duration \<Rightarrow> rate_limiter" where
  "NewRateLimiter limit per = \<lparr>rl_hits = Map.empty, rl_Limit = limit, rl_Window = per\<rparr>"

definition clientIP :: "(string \<Rightarrow> string option) \<Rightarrow> string \<Rightarrow> string" where
  "clientIP splitHostPort remoteAddr = (case splitHostPort remoteAddr of Some host \<Rightarrow> host | None \<Rightarrow> remoteAddr)"

text \<open>\<open>Allow\<close> for a client address; \<open>now2\<close> is the second reading of the clock, for \<open>time.Until\<close>.\<close>

definition Allow :: "time \<Rightarrow> time \<Rightarrow> string \<Rightarrow> rate_limiter \<Rightarrow> (bool \<times> duration) \<times> rate_limiter" where
  "Allow now now2 ip l =
     (if rl_Limit l \<le> 0 then ((True, 0), l)
      else case rl_hits l ip of
        Some w \<Rightarrow>
          if rw_reset w < now
          then ((True, 0), l\<lparr>rl_hits := (rl_hits l)(ip \<mapsto> \<lparr>rw_count = 1, rw_reset = now + rl_Window l\<rparr>)\<rparr>)
          else (let w = w\<lparr>rw_count := rw_count w + 1\<rparr>; l = l\<lparr>rl_hits := (rl_hits l)(ip \<mapsto> w)\<rparr>
                in if rw_count w > rl_Limit l then ((False, time_Sub (rw_reset w) now2), l) else ((True, 0), l))
      | None \<Rightarrow> ((True, 0), l\<lparr>rl_hits := (rl_hits l)(ip \<mapsto> \<lparr>rw_count = 1, rw_reset = now + rl_Window l\<rparr>)\<rparr>))"

text \<open>The local \<open>itoa\<close> writes into an array of eight bytes; \<^term>\<open>None\<close> is the panic of an index below zero.\<close>

fun itoa_loop :: "nat \<Rightarrow> int \<Rightarrow> string \<Rightarrow> string option" where
  "itoa_loop 0 n b = (if 0 < n then None else Some b)"
| "itoa_loop (Suc i) n b = (if 0 < n then itoa_loop i (n div 10) (char_of (48 + nat (n mod 10)) # b) else Some b)"

definition itoa :: "int \<Rightarrow> string option" where
  "itoa n = (if n = 0 then Some ''0'' else itoa_loop 8 n [])"

definition limiter_middleware ::
  "('r \<Rightarrow> 's \<Rightarrow> reply \<times> 's) \<Rightarrow> time \<Rightarrow> time \<Rightarrow> string \<Rightarrow> 'r \<Rightarrow> rate_limiter \<Rightarrow> 's \<Rightarrow> outcome \<times> rate_limiter \<times> 's" where
  "limiter_middleware handler now now2 ip r l s =
     (case Allow now now2 ip l of
        ((True, _), l) \<Rightarrow> (let (rep, s) = handler r s in (Replied rep, l, s))
      | ((False, retry), l) \<Rightarrow>
          (case itoa (wrap64 (int64_of_float (Seconds retry) + 1)) of
             None \<Rightarrow> (Aborted, l, s)
           | Some secs \<Rightarrow> (Replied ((http_Error ''rate limit exceeded'' 429)\<lparr>ry_Header := (''Retry-After'', secs) # ry_Header (http_Error ''rate limit exceeded'' 429)\<rparr>), l, s)))"

subsection \<open>Registries and the event hub\<close>

record registry_entry =
  re_Status :: health_status
  re_At :: time

type_synonym adapter_registry = "string \<rightharpoonup> registry_entry"

definition AdapterRegistry_Set :: "time \<Rightarrow> string \<Rightarrow> health_status \<Rightarrow> adapter_registry \<Rightarrow> adapter_registry" where
  "AdapterRegistry_Set now name s r = r(name \<mapsto> \<lparr>re_Status = s, re_At = now\<rparr>)"

text \<open>
  One line of \<open>List\<close>: an entry older than 90 s reads STALE. The iteration order of the map is \<open>ord\<close>; the time is
  kept as a time, before its formatting.
\<close>

definition reported_state :: "time \<Rightarrow> registry_entry \<Rightarrow> string" where
  "reported_state now e = (if time_Sub now (re_At e) > 90 * Second then ''STALE'' else hs_State (re_Status e))"

definition AdapterRegistry_List :: "(string set \<Rightarrow> string list) \<Rightarrow> time \<Rightarrow> adapter_registry \<Rightarrow> connection_line list" where
  "AdapterRegistry_List ord now r =
     map (\<lambda>name. let e = the (r name) in
        \<lparr>cn_name = name, cn_state = reported_state now e,
         cn_detail = Some (hs_Message (re_Status e), hs_DeviceCount (re_Status e), hs_MsgPerSec (re_Status e)),
         cn_lastSeen = re_At e\<rparr>) (ord (dom r))"

definition handleConnections :: "(string set \<Rightarrow> string list) \<Rightarrow> time \<Rightarrow> time \<Rightarrow> adapter_registry \<Rightarrow> reply" where
  "handleConnections ord now now2 r =
     ok_reply 200 (ConnectionsBody (AdapterRegistry_List ord now r @
       [\<lparr>cn_name = ''http-ingestion'', cn_state = ''HEALTHY'', cn_detail = None, cn_lastSeen = now2\<rparr>]))"

record 'g geofence_store =
  gs_fences :: "geofence list"
  gs_pg :: "'g option"

text \<open>\<open>addPG\<close> stands for \<open>AddGeofence\<close> of the Postgres store: the ring in (lng, lat) order.\<close>

definition GeofenceStore_Add ::
  "(geofence \<Rightarrow> (float64 \<times> float64) list \<Rightarrow> 'g \<Rightarrow> go_error option \<times> 'g) \<Rightarrow> geofence \<Rightarrow> 'g geofence_store \<Rightarrow> go_error option \<times> 'g geofence_store" where
  "GeofenceStore_Add addPG f g =
     (if gf_ID f = [] \<or> gf_TenantID f = [] \<or> length (gf_Polygon f) < 3
      then (Some ''geofence needs id, tenantId, 3+ points'', g)
      else let g = g\<lparr>gs_fences := gs_fences g @ [f]\<rparr>
      in case gs_pg g of
           None \<Rightarrow> (None, g)
         | Some pg \<Rightarrow>
             (let (err, pg') = addPG f (map (\<lambda>p. (pt_Lng p, pt_Lat p)) (gf_Polygon f)) pg
              in (err, g\<lparr>gs_pg := Some pg'\<rparr>)))"

definition GeofenceStore_List :: "'g geofence_store \<Rightarrow> geofence list" where
  "GeofenceStore_List g = [] @ gs_fences g"

text \<open>The hub holds the connections; \<open>write\<close> tells whether writing an event to a connection succeeds.\<close>

type_synonym 'c hub = "'c set"

definition Hub_Add :: "'c \<Rightarrow> 'c hub \<Rightarrow> 'c hub" where
  "Hub_Add c h = insert c h"

definition Hub_Remove :: "'c \<Rightarrow> 'c hub \<Rightarrow> 'c hub" where
  "Hub_Remove c h = h - {c}"

definition Hub_Broadcast :: "('c \<Rightarrow> event \<Rightarrow> bool) \<Rightarrow> event \<Rightarrow> 'c hub \<Rightarrow> 'c hub" where
  "Hub_Broadcast write e h = {c \<in> h. write c e}"

text \<open>\<open>appendEvent\<close> stands for \<open>AppendEvent\<close> of Postgres, whose error is dropped.\<close>

definition Inject :: "('c \<Rightarrow> event \<Rightarrow> bool) \<Rightarrow> (event \<Rightarrow> 'g \<Rightarrow> 'g) \<Rightarrow> event \<Rightarrow> 'c hub \<times> 'g option \<Rightarrow> 'c hub \<times> 'g option" where
  "Inject write appendEvent e s =
     (let (h, pg) = s in (Hub_Broadcast write e h, case pg of None \<Rightarrow> None | Some g \<Rightarrow> Some (appendEvent e g)))"

subsection \<open>Handlers\<close>

text \<open>
  What \<open>handleIngest\<close> uses from outside: decoding (the body, the batch envelope, a point), minted ids, the
  pipeline, \<open>Inject\<close> and, when Postgres is there, \<open>AppendTelemetry\<close>. \<open>ie_stamp\<close> and \<open>ie_now\<close> are the two
  clock readings while the n-th point is handled.
\<close>

record 'p ingest_env =
  ie_Decode :: "string \<Rightarrow> string option"
  ie_Envelope :: "string \<Rightarrow> string list option"
  ie_Unmarshal :: "string \<Rightarrow> go_error + telemetry"
  ie_NewID :: "nat \<Rightarrow> string"
  ie_received :: time
  ie_stamp :: "nat \<Rightarrow> time"
  ie_now :: "nat \<Rightarrow> time"
  ie_Process :: "nat \<Rightarrow> telemetry \<Rightarrow> 'p \<Rightarrow> process_result \<times> 'p"
  ie_Inject :: "event \<Rightarrow> 'p \<Rightarrow> 'p"
  ie_AppendTelemetry :: "(telemetry \<Rightarrow> 'p \<Rightarrow> 'p) option"

definition stamp_point :: "'p ingest_env \<Rightarrow> nat \<Rightarrow> telemetry \<Rightarrow> telemetry" where
  "stamp_point E n t =
     (let t = (if tel_ID t = [] then t\<lparr>tel_ID := ie_NewID E n\<rparr> else t);
          t = (if IsZero (tel_ReceivedAt t) then t\<lparr>tel_ReceivedAt := ie_received E\<rparr> else t)
      in if IsZero (tel_ProcessedAt t) then t\<lparr>tel_ProcessedAt := ie_stamp E n\<rparr> else t)"

fun ingest_loop :: "'p ingest_env \<Rightarrow> nat \<Rightarrow> string list \<Rightarrow> nat \<Rightarrow> nat \<Rightarrow> 'p \<Rightarrow> reply \<times> 'p" where
  "ingest_loop E n [] accepted_n emitted_n p = (ok_reply 202 (IngestBody accepted_n emitted_n), p)"
| "ingest_loop E n (raw # raws) accepted_n emitted_n p =
     (case ie_Unmarshal E raw of
        Inl err \<Rightarrow> (http_Error (''invalid telemetry: '' @ err) 400, p)
      | Inr t \<Rightarrow>
      (let t = stamp_point E n t
       in case telemetry_Validate t of
            Some err \<Rightarrow> (http_Error (''invalid telemetry: '' @ err) 422, p)
          | None \<Rightarrow>
          if ie_now E n + MaxFutureSkew < tel_Timestamp t then (http_Error ''timestamp too far in future'' 422, p)
          else case ie_Process E n t p of
            ((evs, dup, Some (PublishError pevs err)), p) \<Rightarrow>
              (http_Error ''bus unavailable, retry'' 503, fold (ie_Inject E) pevs p)
          | ((evs, dup, Some (PlainError err)), p) \<Rightarrow> (internalError err, p)
          | ((evs, dup, None), p) \<Rightarrow>
              (let p = fold (ie_Inject E) evs p;
                   p = (if dup then p else case ie_AppendTelemetry E of None \<Rightarrow> p | Some app \<Rightarrow> app t p)
               in ingest_loop E (Suc n) raws (accepted_n + 1) (emitted_n + length evs) p)))"

definition handleIngest :: "'p ingest_env \<Rightarrow> string \<Rightarrow> string \<Rightarrow> 'p \<Rightarrow> reply \<times> 'p" where
  "handleIngest E meth reqBody p =
     (if meth \<noteq> ''POST'' then (http_Error ''method not allowed'' 405, p)
      else case ie_Decode E reqBody of
        None \<Rightarrow> (http_Error ''invalid JSON'' 400, p)
      | Some single \<Rightarrow>
          (let batch = (case ie_Envelope E single of Some b \<Rightarrow> b | None \<Rightarrow> [single])
           in ingest_loop E 0 batch 0 0 p))"

text \<open>
  The handler of package \<open>ingest\<close>: every JSON value of the body (or the batch envelope of a single one) is
  stamped with the server's time and handed to a callback. \<open>ih_Values\<close> decodes the values of the body.
\<close>

record 'p ingest_handler =
  ih_Values :: "string \<Rightarrow> string list option"
  ih_Envelope :: "string \<Rightarrow> string list option"
  ih_Unmarshal :: "string \<Rightarrow> go_error + telemetry"
  ih_NewID :: "nat \<Rightarrow> string"
  ih_received :: time
  ih_Process :: "telemetry \<Rightarrow> 'p \<Rightarrow> go_error option \<times> 'p"

fun serve_loop :: "'p ingest_handler \<Rightarrow> nat \<Rightarrow> string list \<Rightarrow> 'p \<Rightarrow> reply \<times> 'p" where
  "serve_loop H n [] p = (ok_reply 202 (AcceptedBody n), p)"
| "serve_loop H n (raw # raws) p =
     (case ih_Unmarshal H raw of
        Inl err \<Rightarrow> (http_Error (''invalid telemetry: '' @ err) 400, p)
      | Inr t \<Rightarrow>
      (let t = (if tel_ID t = [] then t\<lparr>tel_ID := ih_NewID H n\<rparr> else t); t = t\<lparr>tel_ReceivedAt := ih_received H\<rparr>
       in case telemetry_Validate t of
            Some err \<Rightarrow> (http_Error (''invalid telemetry: '' @ err) 422, p)
          | None \<Rightarrow>
              (case ih_Process H t p of
                 (Some err, p) \<Rightarrow> (http_Error (''processing failed: '' @ err) 500, p)
               | (None, p) \<Rightarrow> serve_loop H (Suc n) raws p)))"

definition ServeHTTP :: "'p ingest_handler \<Rightarrow> string \<Rightarrow> string \<Rightarrow> 'p \<Rightarrow> reply \<times> 'p" where
  "ServeHTTP H meth reqBody p =
     (if meth \<noteq> ''POST'' then (http_Error ''method not allowed'' 405, p)
      else case ih_Values H reqBody of
        None \<Rightarrow> (http_Error ''invalid JSON'' 400, p)
      | Some batch \<Rightarrow>
          (let batch = (if length batch = 1 then (case ih_Envelope H (hd batch) of Some b \<Rightarrow> b | None \<Rightarrow> batch) else batch)
           in serve_loop H 0 batch p))"

text \<open>\<open>recent\<close> stands for \<open>RecentEvents\<close> of Postgres; \<open>bus\<close> is the memory bus, if there is one.\<close>

definition handleEvents ::
  "(string \<Rightarrow> string \<Rightarrow> string \<Rightarrow> go_error + event list) option \<Rightarrow> memory_bus option \<Rightarrow> string \<Rightarrow> string \<Rightarrow> string \<Rightarrow> reply" where
  "handleEvents recent bus tenant vehicle typ =
     (if tenant = [] then http_Error ''tenant required'' 400
      else case recent of
        Some query \<Rightarrow>
          (case query tenant vehicle typ of Inl err \<Rightarrow> internalError err | Inr out \<Rightarrow> ok_reply 200 (EventsBody out))
      | None \<Rightarrow>
          (case bus of
             None \<Rightarrow> ok_reply 200 (EventsBody [])
           | Some b \<Rightarrow>
               ok_reply 200 (EventsBody (filter (\<lambda>e. ev_TenantID e = tenant \<and> (vehicle = [] \<or> ev_VehicleID e = vehicle)
                                               \<and> (typ = [] \<or> ev_Type e = typ)) (MemoryBus_Snapshot b)))))"

definition handleVehicle :: "(string \<Rightarrow> (vehicle_state \<times> bool) \<times> go_error option) \<Rightarrow> string \<Rightarrow> reply" where
  "handleVehicle get path =
     (let parts = split_on (CHR ''/'') (trim_prefix path ''/v1/vehicles/'')
      in if length parts \<noteq> 2 \<or> parts ! 1 \<noteq> ''state'' \<or> parts ! 0 = [] then http_Error ''404 page not found'' 404
         else case get (parts ! 0) of
           (_, Some err) \<Rightarrow> internalError err
         | ((st, ok), None) \<Rightarrow> if \<not> ok then http_Error ''unknown vehicle'' 404 else ok_reply 200 (StateBody st))"

definition handleGeofences ::
  "(geofence \<Rightarrow> (float64 \<times> float64) list \<Rightarrow> 'g \<Rightarrow> go_error option \<times> 'g) \<Rightarrow> (string \<Rightarrow> geofence option) \<Rightarrow> string \<Rightarrow> string
    \<Rightarrow> 'g geofence_store \<times> geo_tracker \<Rightarrow> reply \<times> 'g geofence_store \<times> geo_tracker" where
  "handleGeofences addPG decode meth reqBody st =
     (let (gs, tr) = st
      in if meth = ''GET'' then (ok_reply 200 (FencesBody (GeofenceStore_List gs)), gs, tr)
         else if meth = ''POST'' then
           (case decode reqBody of
              None \<Rightarrow> (http_Error ''invalid JSON'' 400, gs, tr)
            | Some f \<Rightarrow>
                (case GeofenceStore_Add addPG f gs of
                   (Some err, gs) \<Rightarrow> (http_Error err 422, gs, tr)
                 | (None, gs) \<Rightarrow>
                     (\<lparr>ry_Status = 201, ry_Header = [], ry_Body = EmptyBody\<rparr>, gs, SetFences (GeofenceStore_List gs) tr)))
         else (http_Error ''method not allowed'' 405, gs, tr))"

definition handleTriggers :: "engine \<Rightarrow> reply" where
  "handleTriggers eng = ok_reply 200 (TriggersBody (Triggers eng))"

subsection \<open>The decimal printer\<close>

lemma nat_digits_snoc: "10 \<le> n \<Longrightarrow> nat_digits n = nat_digits (n div 10) @ [n mod 10]"
  by (subst nat_digits.simps) simp

lemma itoa_loop_digits:
  "0 < n \<Longrightarrow> n < 10 ^ i \<Longrightarrow> itoa_loop i n b = Some (show_nat (nat n) @ b)"
proof (induction i arbitrary: n b)
  case (Suc i)
  have d: "char_of (48 + nat (n mod 10)) = digit_char (nat n mod 10)"
    using Suc.prems(1) by (simp add: digit_char_def nat_mod_distrib)
  show ?case
  proof (cases "n < 10")
    case True
    have "itoa_loop i 0 xs = Some xs" for xs by (cases i) simp_all
    then show ?thesis using True Suc.prems(1) d
      by (simp add: show_nat_def nat_digits.simps [of "nat n"] zdiv_eq_0_iff)
  next
    case False
    have "n div 10 < 10 ^ i" using Suc.prems(2) by (simp add: div_less_iff_less_mult)
    moreover have "0 < n div 10" using False by simp
    ultimately have "itoa_loop i (n div 10) xs = Some (show_nat (nat (n div 10)) @ xs)" for xs by (rule Suc.IH [rotated])
    moreover have "show_nat (nat n) = show_nat (nat (n div 10)) @ [digit_char (nat n mod 10)]"
      using False nat_digits_snoc [of "nat n"] by (simp add: show_nat_def nat_div_distrib)
    ultimately show ?thesis using False d by simp
  qed
qed simp

lemma itoa_loop_overflow: "10 ^ i \<le> n \<Longrightarrow> itoa_loop i n b = None"
proof (induction i arbitrary: n b)
  case (Suc i)
  have "10 ^ i \<le> n div 10" using zdiv_mono1 [OF Suc.prems, of 10] by simp
  moreover have "0 < n" by (rule order.strict_trans2 [OF _ Suc.prems]) simp
  ultimately show ?case using Suc.IH by simp
qed simp

subsection \<open>How many requests of a client pass\<close>

text \<open>The times at which requests of the client \<open>v\<close> are allowed, in a sequence of requests of all clients.\<close>

fun allowed_times :: "string \<Rightarrow> (time \<times> string) list \<Rightarrow> rate_limiter \<Rightarrow> time list" where
  "allowed_times v [] l = []"
| "allowed_times v ((now, ip) # rs) l =
     (let ((ok, _), l') = Allow now now ip l
      in (if ok \<and> ip = v then [now] else []) @ allowed_times v rs l')"

definition passed_in :: "duration \<Rightarrow> time \<Rightarrow> time list \<Rightarrow> int" where
  "passed_in W T xs = int (length (filter (\<lambda>x. T - W < x \<and> x \<le> T) xs))"

lemma passed_simps [simp]:
  "passed_in W T [] = 0" "passed_in W T (x # xs) = (if T - W < x \<and> x \<le> T then 1 else 0) + passed_in W T xs"
  by (simp_all add: passed_in_def)

lemma passed_late: "\<forall>x \<in> set xs. T < x \<Longrightarrow> passed_in W T xs = 0"
  by (induction xs) auto

lemma Allow_frame [simp]:
  "rl_Limit (snd (Allow now now2 ip l)) = rl_Limit l" "rl_Window (snd (Allow now now2 ip l)) = rl_Window l"
  "v \<noteq> ip \<Longrightarrow> rl_hits (snd (Allow now now2 ip l)) v = rl_hits l v"
  by (auto simp: Allow_def Let_def split: option.split)

lemma allowed_times_ge: "sorted (map fst rs) \<Longrightarrow> (\<forall>r \<in> set rs. c \<le> fst r) \<Longrightarrow> x \<in> set (allowed_times v rs l) \<Longrightarrow> c \<le> x"
  by (induction v rs l rule: allowed_times.induct) (auto simp: Let_def split: prod.splits if_splits)

text \<open>
  From a window of the client with reset time \<open>r\<close> and a remaining allowance: at most the allowance passes up to
  the reset, at most one more limit in an interval that starts before the reset, and two limits in any.
\<close>

lemma allowed_in_window:
  assumes "sorted (map fst rs)" "rl_hits l v = Some w" "0 < rl_Limit l" "1 \<le> rw_count w"
    and "m = max 0 (rl_Limit l - rw_count w)"
  shows "(T \<le> rw_reset w \<longrightarrow> passed_in (rl_Window l) T (allowed_times v rs l) \<le> m)
    \<and> (T - rl_Window l < rw_reset w \<longrightarrow> passed_in (rl_Window l) T (allowed_times v rs l) \<le> m + rl_Limit l)
    \<and> passed_in (rl_Window l) T (allowed_times v rs l) \<le> 2 * rl_Limit l"
  using assms
proof (induction rs arbitrary: l w m)
  case Nil
  then show ?case by simp
next
  case (Cons r rs)
  obtain now ip where r: "r = (now, ip)" by (cases r)
  let ?l = "snd (Allow now now ip l)"
  have rs: "sorted (map fst rs)" and ge: "\<forall>q \<in> set rs. now \<le> fst q" using Cons.prems(1) r by auto
  have later: "now \<le> x" if "x \<in> set (allowed_times v rs ?l)" for x using allowed_times_ge [OF rs ge that] .
  show ?case
  proof (cases "ip = v")
    case False
    then show ?thesis
      using Cons.IH [OF rs, of ?l w m] Cons.prems r by (simp add: case_prod_beta Let_def)
  next
    case ip: True
    show ?thesis
    proof (cases "rw_reset w < now")
      case True
      let ?w = "\<lparr>rw_count = 1, rw_reset = now + rl_Window l\<rparr>"
      have A: "Allow now now ip l = ((True, 0), l\<lparr>rl_hits := (rl_hits l)(ip \<mapsto> ?w)\<rparr>)"
        using Cons.prems(2,3) True ip by (simp add: Allow_def)
      have IH: "(T \<le> now + rl_Window l \<longrightarrow> passed_in (rl_Window l) T (allowed_times v rs ?l) \<le> rl_Limit l - 1)
          \<and> (T - rl_Window l < now + rl_Window l \<longrightarrow> passed_in (rl_Window l) T (allowed_times v rs ?l) \<le> rl_Limit l - 1 + rl_Limit l)
          \<and> passed_in (rl_Window l) T (allowed_times v rs ?l) \<le> 2 * rl_Limit l"
        using Cons.IH [OF rs, of ?l ?w "rl_Limit l - 1"] A ip Cons.prems(3) by simp
      have "T \<le> rw_reset w \<Longrightarrow> passed_in (rl_Window l) T (allowed_times v rs ?l) = 0"
        using later True by (intro passed_late) force
      then show ?thesis using IH True Cons.prems(5) r ip A by (auto simp: Let_def)
    next
      case False
      let ?w = "w\<lparr>rw_count := rw_count w + 1\<rparr>"
      have A: "fst (fst (Allow now now ip l)) \<longleftrightarrow> rw_count w + 1 \<le> rl_Limit l" "rl_hits ?l v = Some ?w"
        using Cons.prems(2,3) False ip by (auto simp: Allow_def Let_def)
      define m' where "m' = max 0 (rl_Limit l - (rw_count w + 1))"
      have "(T \<le> rw_reset w \<longrightarrow> passed_in (rl_Window l) T (allowed_times v rs ?l) \<le> m')
          \<and> (T - rl_Window l < rw_reset w \<longrightarrow> passed_in (rl_Window l) T (allowed_times v rs ?l) \<le> m' + rl_Limit l)
          \<and> passed_in (rl_Window l) T (allowed_times v rs ?l) \<le> 2 * rl_Limit l"
        using Cons.IH [OF rs A(2), of m'] Cons.prems(3,4) by (simp add: m'_def)
      then show ?thesis
        using A(1) False Cons.prems(3,4,5) r ip by (auto simp: m'_def case_prod_beta Let_def)
    qed
  qed
qed

lemma allowed_from_new:
  assumes "sorted (map fst rs)" "rl_hits l v = None" "0 < rl_Limit l"
  shows "passed_in (rl_Window l) T (allowed_times v rs l) \<le> 2 * rl_Limit l"
  using assms
proof (induction rs arbitrary: l)
  case (Cons r rs)
  obtain now ip where r: "r = (now, ip)" by (cases r)
  show ?case
  proof (cases "ip = v")
    case False
    then show ?thesis using Cons.IH [of "snd (Allow now now ip l)"] Cons.prems r by (simp add: case_prod_beta Let_def)
  next
    case True
    let ?w = "\<lparr>rw_count = 1, rw_reset = now + rl_Window l\<rparr>"
    have A: "Allow now now ip l = ((True, 0), l\<lparr>rl_hits := (rl_hits l)(ip \<mapsto> ?w)\<rparr>)"
      using Cons.prems(2,3) True by (simp add: Allow_def)
    show ?thesis
      using allowed_in_window [of rs "snd (Allow now now ip l)" v ?w "rl_Limit l - 1" T] A True Cons.prems r by (auto simp: Let_def)
  qed
qed simp

subsection \<open>Posting a batch twice\<close>

text \<open>The handler on the in-memory pipeline, without Postgres; the hub does not touch the pipeline.\<close>

record ingest_codec =
  ic_Decode :: "string \<Rightarrow> string option"
  ic_Envelope :: "string \<Rightarrow> string list option"
  ic_Unmarshal :: "string \<Rightarrow> go_error + telemetry"

record ingest_clock =
  ik_received :: time
  ik_stamp :: "nat \<Rightarrow> time"
  ik_now :: "nat \<Rightarrow> time"
  ik_clocks :: "nat \<Rightarrow> clocks"

definition mem_ingest ::
  "go_lib \<Rightarrow> (string set \<Rightarrow> string list) \<Rightarrow> (string \<Rightarrow> string \<Rightarrow> event \<Rightarrow> 'd \<Rightarrow> go_error option \<times> 'd) \<Rightarrow> (nat \<Rightarrow> string) \<Rightarrow> ingest_codec
    \<Rightarrow> ingest_clock \<Rightarrow> ('d mem_pipeline) ingest_env" where
  "mem_ingest L ord disp newid co ck =
     \<lparr>ie_Decode = ic_Decode co, ie_Envelope = ic_Envelope co, ie_Unmarshal = ic_Unmarshal co, ie_NewID = newid,
      ie_received = ik_received ck, ie_stamp = ik_stamp ck, ie_now = ik_now ck, ie_Process = (\<lambda>n. mem_Process L ord disp (ik_clocks ck n)),
      ie_Inject = (\<lambda>e p. p), ie_AppendTelemetry = None\<rparr>"

definition later :: "ingest_clock \<Rightarrow> ingest_clock \<Rightarrow> duration \<Rightarrow> bool" where
  "later ck ck' ttl \<longleftrightarrow> ik_received ck' \<noteq> 0 \<and> (\<forall>n. ik_now ck n \<le> ik_now ck' n)
     \<and> (\<forall>n. ck_skew (ik_clocks ck n) \<le> ck_skew (ik_clocks ck' n))
     \<and> (\<forall>m n. ck_seen (ik_clocks ck' m) - ck_seen (ik_clocks ck n) < ttl)"

definition remembered :: "ingest_clock \<Rightarrow> 'd mem_pipeline \<Rightarrow> bool" where
  "remembered ck' p \<longleftrightarrow> dedup_inv (mp_dedup p) \<and>
     (\<forall>k ts. dm_seen (mp_dedup p) k = Some ts \<longrightarrow> (\<forall>m. ck_seen (ik_clocks ck' m) - ts < dm_ttl (mp_dedup p)))"

lemma fold_ignore [simp]: "fold (\<lambda>e p. p) es p = p"
  by (induction es) simp_all

lemma stamp_point_DedupKey [simp]: "DedupKey L (stamp_point E n t) = DedupKey L t"
  by (simp add: stamp_point_def DedupKey_def Let_def split: option.split)

lemma stamp_point_Timestamp [simp]: "tel_Timestamp (stamp_point E n t) = tel_Timestamp t"
  by (simp add: stamp_point_def Let_def)

lemma stamp_point_valid:
  "telemetry_Validate (stamp_point E n t) = None \<Longrightarrow> ie_received E' \<noteq> 0 \<Longrightarrow> telemetry_Validate (stamp_point E' n t) = None"
  by (auto simp: telemetry_Validate_ok_iff stamp_point_def Let_def IsZero_def split: if_splits)

lemma remembered_step:
  assumes "mem_Process L ord disp (ik_clocks ck n) t p = ((evs, dup, None), p')" "remembered ck' p"
    and "later ck ck' (dm_ttl (mp_dedup p))"
  shows "remembered ck' p'"
  using mem_Process_remembers [OF assms(1)] assms(2,3) by (auto simp: remembered_def later_def dedup_inv_def split: if_splits)

text \<open>What a successful pass over a batch establishes for the next one.\<close>

definition replayable :: "go_lib \<Rightarrow> ('d mem_pipeline) ingest_env \<Rightarrow> ingest_clock \<Rightarrow> nat \<Rightarrow> string list \<Rightarrow> 'd mem_pipeline \<Rightarrow> bool" where
  "replayable L E ck' n raws p \<longleftrightarrow> remembered ck' p \<and> (\<forall>i < length raws. \<exists>t. ie_Unmarshal E (raws ! i) = Inr t
     \<and> telemetry_Validate (stamp_point E (n + i) t) = None \<and> tel_Timestamp t \<le> ik_now ck' (n + i) + MaxFutureSkew
     \<and> tel_Timestamp t \<le> ck_skew (ik_clocks ck' (n + i)) + MaxFutureSkew \<and> DedupKey L t \<in> dom (dm_seen (mp_dedup p)))"

lemma first_pass:
  assumes "ingest_loop (mem_ingest L ord disp newid co ck) n raws a b p = (rep, p')" "ry_Status rep = 202"
    and "remembered ck' p" "later ck ck' (dm_ttl (mp_dedup p))"
  shows "replayable L (mem_ingest L ord disp newid co ck) ck' n raws p'
    \<and> dom (dm_seen (mp_dedup p)) \<subseteq> dom (dm_seen (mp_dedup p'))"
  using assms
proof (induction raws arbitrary: n a b p)
  case Nil
  then show ?case by (auto simp: replayable_def)
next
  case (Cons raw raws)
  let ?E = "mem_ingest L ord disp newid co ck"
  obtain t evs dup p1 where t: "ie_Unmarshal ?E raw = Inr t" "telemetry_Validate (stamp_point ?E n t) = None"
      "tel_Timestamp t \<le> ik_now ck n + MaxFutureSkew"
    and pr: "mem_Process L ord disp (ik_clocks ck n) (stamp_point ?E n t) p = ((evs, dup, None), p1)"
    and rest: "ingest_loop ?E (Suc n) raws (a + 1) (b + length evs) p1 = (rep, p')"
    using Cons.prems(1,2)
    by (auto simp: mem_ingest_def http_Error_def internalError_def Let_def
        split: sum.splits option.splits prod.splits process_error.splits if_splits)
  note rem = mem_Process_remembers [OF pr]
  have IH: "replayable L ?E ck' (Suc n) raws p'" "dom (dm_seen (mp_dedup p1)) \<subseteq> dom (dm_seen (mp_dedup p'))"
    using Cons.IH [OF rest Cons.prems(2) remembered_step [OF pr Cons.prems(3,4)]] Cons.prems(4) rem by simp_all
  have lt: "ik_now ck n \<le> ik_now ck' n" "ck_skew (ik_clocks ck n) \<le> ck_skew (ik_clocks ck' n)"
    using Cons.prems(4) by (auto simp: later_def)
  have "DedupKey L t \<in> dom (dm_seen (mp_dedup p'))" "tel_Timestamp t \<le> ck_skew (ik_clocks ck n) + MaxFutureSkew"
    using rem IH(2) by (auto simp: accepted_def)
  then have head: "\<exists>t. ie_Unmarshal ?E raw = Inr t \<and> telemetry_Validate (stamp_point ?E n t) = None
      \<and> tel_Timestamp t \<le> ik_now ck' n + MaxFutureSkew \<and> tel_Timestamp t \<le> ck_skew (ik_clocks ck' n) + MaxFutureSkew
      \<and> DedupKey L t \<in> dom (dm_seen (mp_dedup p'))"
    using t lt by (intro exI [of _ t]) auto
  have "replayable L ?E ck' n (raw # raws) p'"
    unfolding replayable_def
  proof (intro conjI allI impI)
    show "remembered ck' p'" using IH(1) by (simp add: replayable_def)
    fix i
    assume "i < length (raw # raws)"
    with head IH(1) show "\<exists>t. ie_Unmarshal ?E ((raw # raws) ! i) = Inr t \<and> telemetry_Validate (stamp_point ?E (n + i) t) = None
        \<and> tel_Timestamp t \<le> ik_now ck' (n + i) + MaxFutureSkew \<and> tel_Timestamp t \<le> ck_skew (ik_clocks ck' (n + i)) + MaxFutureSkew
        \<and> DedupKey L t \<in> dom (dm_seen (mp_dedup p'))"
      unfolding replayable_def by (cases i) simp_all
  qed
  with rem IH(2) show ?case by blast
qed

lemma second_pass:
  assumes "replayable L (mem_ingest L ord disp newid co ck) ck' n raws p" "ik_received ck' \<noteq> 0"
  shows "ingest_loop (mem_ingest L ord' disp' newid' co ck') n raws a b p = (ok_reply 202 (IngestBody (a + length raws) b), p)"
  using assms(1)
proof (induction raws arbitrary: n a)
  case Nil
  then show ?case by simp
next
  case (Cons raw raws)
  let ?E = "mem_ingest L ord disp newid co ck" and ?E' = "mem_ingest L ord' disp' newid' co ck'"
  from Cons.prems obtain t where t: "ic_Unmarshal co raw = Inr t" "telemetry_Validate (stamp_point ?E n t) = None"
      "tel_Timestamp t \<le> ik_now ck' n + MaxFutureSkew" "tel_Timestamp t \<le> ck_skew (ik_clocks ck' n) + MaxFutureSkew"
      "DedupKey L t \<in> dom (dm_seen (mp_dedup p))"
    unfolding replayable_def by (force simp: mem_ingest_def)
  have v: "telemetry_Validate (stamp_point ?E' n t) = None"
    using stamp_point_valid [OF t(2), of ?E'] assms(2) by (simp add: mem_ingest_def)
  have "accepted (ik_clocks ck' n) (stamp_point ?E' n t)" using v t(4) by (simp add: accepted_def)
  moreover have "duplicate L (ik_clocks ck' n) (stamp_point ?E' n t) p"
    using Cons.prems t(5) mem_dedup.seen_flag [of "mp_dedup p" "ck_seen (ik_clocks ck' n)" "DedupKey L t"]
    by (auto simp: duplicate_def replayable_def remembered_def)
  ultimately have "mem_Process L ord' disp' (ik_clocks ck' n) (stamp_point ?E' n t) p = (([], True, None), p)"
    by (rule mem_Process_duplicate)
  moreover have "replayable L ?E ck' (Suc n) raws p"
    using Cons.prems unfolding replayable_def by force
  ultimately show ?case
    using Cons.IH [of "Suc n" "a + 1"] t(1,3) v by (simp add: mem_ingest_def Let_def)
qed

lemma ingest_loop_counts:
  "ingest_loop E n raws a b p = (rep, p') \<Longrightarrow> ry_Status rep = 202 \<Longrightarrow> \<exists>m. ry_Body rep = IngestBody (a + length raws) m"
proof (induction raws arbitrary: n a b p)
  case (Cons raw raws)
  obtain m c q where "ingest_loop E (Suc n) raws (a + 1) c q = (rep, p')"
    using Cons.prems
    by (auto simp: http_Error_def internalError_def Let_def
        split: sum.splits option.splits prod.splits process_error.splits if_splits)
  from Cons.IH [OF this Cons.prems(2)] show ?case by simp
qed (auto simp: ok_reply_def)

subsection \<open>Properties\<close>

text \<open>C29: The rate limit holds in every interval. For a limiter with a positive limit and requests of any clients
  with a clock that does not go back, no interval of the length of the window, wherever it starts, has more
  than twice the limit of passed requests of one client.\<close>

theorem rate_limit_bounded:
  assumes "sorted (map fst rs)" "0 < limit"
  shows "passed_in per T (allowed_times v rs (NewRateLimiter limit per)) \<le> 2 * limit"
  using allowed_from_new [of rs "NewRateLimiter limit per" v T] assms by (simp add: NewRateLimiter_def)

theorem rate_limit_bounded_witness:
  "passed_in 10 10 (allowed_times ''a'' [(0, ''a''), (1, ''b''), (9, ''a''), (10, ''a''), (11, ''a'')] (NewRateLimiter 1 10)) \<le> 2"
  using rate_limit_bounded [of "[(0, ''a''), (1, ''b''), (9, ''a''), (10, ''a''), (11, ''a'')]" 1 10 10 "''a''"] by simp

text \<open>The hand-written decimal printer is right up to eight digits. \<open>itoa\<close> prints the decimal digits of every
  number from 0 to 99999999, runs off its buffer (a panic) for every larger one, and prints nothing for
  negative ones.\<close>

lemma itoa_exact:
  "itoa n = (if n < 0 then Some [] else if n < 10 ^ 8 then Some (show_nat (nat n)) else None)"
proof -
  have "itoa_loop 8 n [] = Some []" if "n < 0" using that by (simp add: eval_nat_numeral)
  moreover have "digit_char 0 = CHR ''0''" by code_simp
  ultimately show ?thesis
    using itoa_loop_digits [of n 8 "[]"] itoa_loop_overflow [of 8 n "[]"]
    by (auto simp: itoa_def show_nat_def nat_digits.simps [of 0])
qed

text \<open>C8: Posting a batch again is harmless. When the ingest handler accepts a request, then the same request posted
  later, while the dedup window remembers the first one, is accepted with the same number of points and no
  event, and leaves the whole pipeline as it was, whatever the later clock readings, minted ids, map orders
  and webhook outcomes are.\<close>

theorem reposted_batch_absorbed:
  assumes "handleIngest (mem_ingest L ord disp newid co ck) meth reqBody p = (rep, p')" "ry_Status rep = 202"
    and "remembered ck' p" "later ck ck' (dm_ttl (mp_dedup p))"
  shows "\<exists>n m. ry_Body rep = IngestBody n m
    \<and> handleIngest (mem_ingest L ord' disp' newid' co ck') meth reqBody p' = (ok_reply 202 (IngestBody n 0), p')"
proof -
  let ?E = "mem_ingest L ord disp newid co ck"
  obtain single where post: "meth = ''POST''" and d: "ic_Decode co reqBody = Some single"
    using assms(1,2) by (auto simp: handleIngest_def http_Error_def mem_ingest_def split: if_splits option.splits)
  define batch where "batch = (case ic_Envelope co single of Some b \<Rightarrow> b | None \<Rightarrow> [single])"
  have run: "ingest_loop ?E 0 batch 0 0 p = (rep, p')"
    using assms(1) post d by (simp add: handleIngest_def mem_ingest_def batch_def)
  have rp: "replayable L ?E ck' 0 batch p'" using first_pass [OF run assms(2-4)] by blast
  have nz: "ik_received ck' \<noteq> 0" using assms(4) by (simp add: later_def)
  obtain m where "ry_Body rep = IngestBody (length batch) m" using ingest_loop_counts [OF run assms(2)] by auto
  moreover have "handleIngest (mem_ingest L ord' disp' newid' co ck') meth reqBody p' = (ok_reply 202 (IngestBody (length batch) 0), p')"
    using second_pass [OF rp nz, of ord' disp' newid' 0 0] post d by (simp add: handleIngest_def mem_ingest_def batch_def)
  ultimately show ?thesis by blast
qed

definition one_point_codec :: ingest_codec where
  "one_point_codec = \<lparr>ic_Decode = Some, ic_Envelope = (\<lambda>_. None), ic_Unmarshal = (\<lambda>_. Inr (point_at ''v'' 1 None None (Some 7)))\<rparr>"

definition ingest_clock_at :: "time \<Rightarrow> ingest_clock" where
  "ingest_clock_at n = \<lparr>ik_received = n, ik_stamp = (\<lambda>_. n), ik_now = (\<lambda>_. n), ik_clocks = (\<lambda>_. clk_at n)\<rparr>"

theorem reposted_batch_absorbed_witness:
  "let ingest = (\<lambda>n. handleIngest (mem_ingest plain_lib sorted_list_of_set (\<lambda>_ _ _ d. (None, d)) (\<lambda>_. ''id'') one_point_codec
         (ingest_clock_at n)) ''POST'' ''{}'');
       p' = snd (ingest 5 (NewTestPipeline :: unit mem_pipeline))
   in ingest 6 p' = (ok_reply 202 (IngestBody 1 0), p')"
proof -
  let ?E = "mem_ingest plain_lib sorted_list_of_set (\<lambda>_ _ _ d. (None, d)) (\<lambda>_. ''id'') one_point_codec (ingest_clock_at 5)
    :: (unit mem_pipeline) ingest_env"
  let ?E' = "mem_ingest plain_lib sorted_list_of_set (\<lambda>_ _ _ d. (None, d)) (\<lambda>_. ''id'') one_point_codec (ingest_clock_at 6)
    :: (unit mem_pipeline) ingest_env"
  let ?p = "NewTestPipeline :: unit mem_pipeline"
  let ?t = "stamp_point ?E 0 (point_at ''v'' 1 None None (Some 7))"
  have v: "telemetry_Validate ?t = None"
    using point_at_valid [of "''v''" 1 None None "Some 7"]
    by (auto simp: telemetry_Validate_ok_iff stamp_point_def Let_def IsZero_def mem_ingest_def ingest_clock_at_def)
  then have acc: "accepted (clk_at 5) ?t" by (simp add: accepted_def clk_at_def MaxFutureSkew_def) (simp add: point_at_simps)
  have c: "md_CorrelationID (tel_Metadata ?t) \<noteq> []" by (simp add: stamp_point_def Let_def point_at_simps)
  obtain evs d err p' where pr: "mem_Process plain_lib sorted_list_of_set (\<lambda>_ _ _ d. (None, d)) (clk_at 5) ?t ?p = ((evs, d, err), p')"
    by (metis surj_pair)
  have "err = None"
    using mem_run_publishes [of "[(clk_at 5, ?t)]" plain_lib sorted_list_of_set "\<lambda>_ _ _ d. (None, d)" ?p] acc c pr by simp
  then have first: "handleIngest ?E ''POST'' ''{}'' ?p = (ok_reply 202 (IngestBody 1 (length evs)), p')"
    using pr v by (simp add: handleIngest_def mem_ingest_def one_point_codec_def ingest_clock_at_def Let_def)
      (simp add: point_at_simps MaxFutureSkew_def)
  have "remembered (ingest_clock_at 6) ?p" "later (ingest_clock_at 5) (ingest_clock_at 6) (dm_ttl (mp_dedup ?p))"
    by (simp_all add: remembered_def later_def ingest_clock_at_def clk_at_def NewTestPipeline_start)
  from reposted_batch_absorbed [OF first _ this, of sorted_list_of_set "\<lambda>_ _ _ d. (None, d)" "\<lambda>_. ''id''"]
  have "handleIngest ?E' ''POST'' ''{}'' p' = (ok_reply 202 (IngestBody 1 0), p')"
    by (auto simp: ok_reply_def)
  then show ?thesis using first by (simp add: Let_def)
qed

end
