(* ===== verification/Simulator.thy ===== *)
theory Simulator
  imports Pipeline
begin

section \<open>The fleet simulator (simulator/generators, simulator/faults)\<close>

text \<open>
  Generation of synthetic telemetry and injection of faults. The seeded generator of \<open>math/rand\<close> is the record
  \<open>rng\<close>: a state of type \<open>'r\<close>, the source made from a seed, and the draws \<open>Float64\<close> and \<open>NormFloat64\<close>. The YAML
  decoder, \<open>time.ParseDuration\<close> and the embedded scenario files are arguments.
\<close>

record 'r rng =
  rng_New :: "int \<Rightarrow> 'r"
  rng_Float64 :: "'r \<Rightarrow> float64 \<times> 'r"
  rng_NormFloat64 :: "'r \<Rightarrow> float64 \<times> 'r"

subsection \<open>Scenarios\<close>

record scenario =
  sn_Name :: string
  sn_Seed :: int
  sn_StepSecs :: int
  sn_DurationSecs :: int
  sn_StartLat :: float64
  sn_StartLng :: float64
  sn_SpreadKm :: float64
  sn_Mix :: "(string \<times> float64) list"

definition LoadScenario :: "(string \<Rightarrow> go_error + scenario) \<Rightarrow> string \<Rightarrow> go_error + scenario" where
  "LoadScenario yaml_Unmarshal data =
     (case yaml_Unmarshal data of
        Inl err \<Rightarrow> Inl (''sim: parse scenario: '' @ err)
      | Inr s \<Rightarrow>
          if sn_StepSecs s \<le> 0 \<or> sn_DurationSecs s \<le> 0 then Inl ''sim: stepSecs + durationSecs required''
          else if sn_Mix s = [] then Inl ''sim: mix required''
          else Inr s)"

text \<open>The embedded files: \<open>files name\<close> is the content of scenarios/name.\<close>

definition scenario_Get :: "(string \<Rightarrow> string option) \<Rightarrow> string \<Rightarrow> go_error + string" where
  "scenario_Get files name =
     (let name = trim_suffix name ''.yaml''
      in case files (name @ ''.yaml'') of
           None \<Rightarrow> Inl (''simulator: unknown scenario '' @ quoted name)
         | Some raw \<Rightarrow> Inr raw)"

subsection \<open>Generators\<close>

definition mix_of :: "scenario \<Rightarrow> string \<Rightarrow> float64" where
  "mix_of s name = (case map_of (sn_Mix s) name of None \<Rightarrow> Fin 0 | Some w \<Rightarrow> w)"

fun pick_loop :: "(string \<Rightarrow> float64) \<Rightarrow> float64 \<Rightarrow> float64 \<Rightarrow> string list \<Rightarrow> string" where
  "pick_loop mix x acc [] = ''normal''"
| "pick_loop mix x acc (name # names) =
     (let acc = fadd acc (mix name) in if flt x acc then name else pick_loop mix x acc names)"

definition profiles :: "string list" where
  "profiles = [''normal'', ''speeding'', ''idling'', ''offline'', ''mixed'']"

definition pickProfile :: "'r rng \<Rightarrow> (string \<Rightarrow> float64) \<Rightarrow> 'r \<Rightarrow> string \<times> 'r" where
  "pickProfile R mix r = (let (x, r) = rng_Float64 R r in (pick_loop mix x (Fin 0) profiles, r))"

definition speedFor :: "'r rng \<Rightarrow> string \<Rightarrow> nat \<Rightarrow> 'r \<Rightarrow> (float64 \<times> bool) \<times> 'r" where
  "speedFor R profile i r =
     (if profile = ''speeding'' then
        (let (x, r) = rng_Float64 R r
         in if i mod 6 < 4 then ((fadd (Fin 110) (fmul x (Fin 30)), True), r)
            else ((fadd (Fin 45) (fmul x (Fin 10)), True), r))
      else if profile = ''idling'' then ((Fin 0, True), r)
      else if profile = ''offline'' then ((Fin 0, False), r)
      else let (x, r) = rng_Float64 R r in ((fadd (Fin 20) (fmul x (Fin 40)), True), r))"

definition sim_point ::
  "string \<Rightarrow> string \<Rightarrow> int \<Rightarrow> string \<Rightarrow> time \<Rightarrow> int \<Rightarrow> float64 \<Rightarrow> float64 \<Rightarrow> float64 \<Rightarrow> bool \<Rightarrow> telemetry" where
  "sim_point tenant vid seed profile ts seq lat lng speed ign =
     zero_telemetry
       \<lparr>tel_ID := vid @ ''-'' @ show_int seq, tel_TenantID := tenant, tel_VehicleID := vid, tel_DeviceID := vid,
        tel_Timestamp := ts, tel_ReceivedAt := ts, tel_Location := zero_location\<lparr>loc_Lat := lat, loc_Lng := lng\<rparr>,
        tel_SpeedKmh := Some speed, tel_Ignition := Some ign,
        tel_Raw := Some [(''sim'', JBool True), (''profile'', JStr profile)],
        tel_Source := \<lparr>src_Provider = ''fleetsim'', src_Protocol = ''sim'', src_DeviceID = vid\<rparr>,
        tel_Metadata := \<lparr>md_CorrelationID = ''sim-'' @ show_int seed, md_SchemaVersion = CurrentSchemaVersion,
                         md_Sequence = Some seq, md_Quality = ''good''\<rparr>\<rparr>"

text \<open>What stays fixed while one vehicle is generated.\<close>

record gen_vehicle =
  gv_scen :: scenario
  gv_seed :: int
  gv_tenant :: string
  gv_base :: time
  gv_vid :: string
  gv_profile :: string
  gv_steps :: nat

text \<open>The loop over the steps of one vehicle; \<open>n\<close> is the number of steps left.\<close>

fun gen_steps ::
  "go_lib \<Rightarrow> 'r rng \<Rightarrow> gen_vehicle \<Rightarrow> nat \<Rightarrow> nat \<Rightarrow> float64 \<Rightarrow> float64 \<Rightarrow> float64 \<Rightarrow> int \<Rightarrow> 'r \<Rightarrow> telemetry list \<times> 'r" where
  "gen_steps L R V 0 i lat lng heading seq r = ([], r)"
| "gen_steps L R V (Suc n) i lat lng heading seq r =
     (if gv_profile V = ''offline'' \<and> i > gv_steps V div 3 then ([], r)
      else let ts = gv_base V + wrap64 (wrap64 (int i * sn_StepSecs (gv_scen V)) * Second);
               ((speed, ign), r) = speedFor R (gv_profile V) i r;
               distKm = fdiv (fmul speed (f_of_int (sn_StepSecs (gv_scen V)))) (Fin 3600);
               (x, r) = rng_Float64 R r;
               heading = fadd heading (fmul (fsub x (Fin (1 / 2))) (Fin 20));
               rad = fdiv (fmul heading math_Pi) (Fin 180);
               lat = fadd lat (fdiv (fmul distKm (math_Cos L rad)) (Fin 111));
               lng = fadd lng (fdiv (fmul distKm (math_Sin L rad)) (Fin 85));
               seq = wrap64 (seq + 1);
               (pts, r) = gen_steps L R V n (Suc i) lat lng heading seq r
           in (sim_point (gv_tenant V) (gv_vid V) (gv_seed V) (gv_profile V) ts seq lat lng speed ign # pts, r))"

definition sim_vid :: "nat \<Rightarrow> string" where
  "sim_vid v = ''sim-'' @ pad_nat 3 v"

text \<open>The loop over the vehicles.\<close>

fun gen_vehicles :: "go_lib \<Rightarrow> 'r rng \<Rightarrow> scenario \<Rightarrow> int \<Rightarrow> string \<Rightarrow> time \<Rightarrow> nat list \<Rightarrow> 'r \<Rightarrow> telemetry list \<times> 'r" where
  "gen_vehicles L R s seed tenant base [] r = ([], r)"
| "gen_vehicles L R s seed tenant base (v # vs) r =
     (let (profile, r) = pickProfile R (mix_of s) r;
          (x, r) = rng_Float64 R r;
          lat = fadd (sn_StartLat s) (fdiv (fmul (fsub x (Fin (1 / 2))) (sn_SpreadKm s)) (Fin 111));
          (y, r) = rng_Float64 R r;
          lng = fadd (sn_StartLng s) (fdiv (fmul (fsub y (Fin (1 / 2))) (sn_SpreadKm s)) (Fin 85));
          (h, r) = rng_Float64 R r;
          steps = nat (quot (sn_DurationSecs s) (sn_StepSecs s));
          V = \<lparr>gv_scen = s, gv_seed = seed, gv_tenant = tenant, gv_base = base, gv_vid = sim_vid v,
               gv_profile = profile, gv_steps = steps\<rparr>;
          (pts, r) = gen_steps L R V steps 0 lat lng (fmul h (Fin 360)) 0 r;
          (rest, r) = gen_vehicles L R s seed tenant base vs r
      in (pts @ rest, r))"

definition Generate :: "go_lib \<Rightarrow> 'r rng \<Rightarrow> scenario \<Rightarrow> int \<Rightarrow> int \<Rightarrow> string \<Rightarrow> time \<Rightarrow> telemetry list" where
  "Generate L R s vehicles seed tenant base =
     (let seed = (if seed = 0 then sn_Seed s else seed)
      in fst (gen_vehicles L R s seed tenant base [0..<nat vehicles] (rng_New R seed)))"

subsection \<open>Faults\<close>

record fault_config =
  fc_DuplicateRate :: float64
  fc_LateRate :: float64
  fc_LateBy :: string
  fc_MissingRate :: float64
  fc_OutOfOrderRate :: float64
  fc_GPSDriftM :: float64
  fc_OfflineVehicles :: float64

definition lateDuration :: "(string \<Rightarrow> duration option) \<Rightarrow> fault_config \<Rightarrow> duration" where
  "lateDuration parse c =
     (if fc_LateBy c = [] then 2 * Minute
      else case parse (fc_LateBy c) of None \<Rightarrow> 2 * Minute | Some d \<Rightarrow> d)"

text \<open>A fault with a rate: nothing is drawn for a rate that is not positive.\<close>

definition fault_hits :: "'r rng \<Rightarrow> float64 \<Rightarrow> 'r \<Rightarrow> bool \<times> 'r" where
  "fault_hits R rate r = (if flt (Fin 0) rate then (let (x, r) = rng_Float64 R r in (flt x rate, r)) else (False, r))"

text \<open>Dropping whole vehicles, in the order of their first point.\<close>

fun keep_vehicles :: "'r rng \<Rightarrow> float64 \<Rightarrow> telemetry list \<Rightarrow> string list \<Rightarrow> 'r \<Rightarrow> telemetry list \<times> 'r" where
  "keep_vehicles R rate points [] r = ([], r)"
| "keep_vehicles R rate points (vid # vids) r =
     (let (x, r) = rng_Float64 R r; (kept, r) = keep_vehicles R rate points vids r
      in (if flt x rate then kept else filter (\<lambda>p. tel_VehicleID p = vid) points @ kept, r))"

definition first_seen :: "telemetry list \<Rightarrow> string list" where
  "first_seen points = foldl (\<lambda>order p. if tel_VehicleID p \<in> set order then order else order @ [tel_VehicleID p]) [] points"

definition drift :: "'r rng \<Rightarrow> fault_config \<Rightarrow> telemetry \<Rightarrow> 'r \<Rightarrow> telemetry \<times> 'r" where
  "drift R cfg q r =
     (if flt (Fin 0) (fc_GPSDriftM cfg) then
        (let (x, r) = rng_NormFloat64 R r; (y, r) = rng_NormFloat64 R r; loc = tel_Location q
         in (q\<lparr>tel_Location := loc
               \<lparr>loc_Lat := fadd (loc_Lat loc) (fdiv (fmul x (fc_GPSDriftM cfg)) (Fin 111000)),
                loc_Lng := fadd (loc_Lng loc) (fdiv (fmul y (fc_GPSDriftM cfg)) (Fin 85000))\<rparr>\<rparr>, r))
      else (q, r))"

definition delayed :: "duration \<Rightarrow> telemetry \<Rightarrow> telemetry" where
  "delayed d q = q\<lparr>tel_Timestamp := tel_Timestamp q + wrap64 (- d),
     tel_Metadata := (tel_Metadata q)\<lparr>md_Quality := ''degraded:late-injected''\<rparr>\<rparr>"

definition duplicated :: "telemetry \<Rightarrow> telemetry" where
  "duplicated q = q\<lparr>tel_ID := tel_ID q @ ''-dup''\<rparr>"

text \<open>The loop over the kept points.\<close>

fun fault_loop :: "'r rng \<Rightarrow> (string \<Rightarrow> duration option) \<Rightarrow> fault_config \<Rightarrow> telemetry list \<Rightarrow> 'r \<Rightarrow> telemetry list \<times> 'r" where
  "fault_loop R parse cfg [] r = ([], r)"
| "fault_loop R parse cfg (p # ps) r =
     (let (missing, r) = fault_hits R (fc_MissingRate cfg) r
      in if missing then fault_loop R parse cfg ps r
      else let (q, r) = drift R cfg p r;
               (late, r) = fault_hits R (fc_LateRate cfg) r;
               q = (if late then delayed (lateDuration parse cfg) q else q);
               (dup, r) = fault_hits R (fc_DuplicateRate cfg) r;
               (out, r) = fault_loop R parse cfg ps r
           in (q # (if dup then [duplicated q] else []) @ out, r))"

text \<open>Swapping adjacent pairs; a swapped pair is skipped.\<close>

fun swap_loop :: "'r rng \<Rightarrow> float64 \<Rightarrow> telemetry list \<Rightarrow> 'r \<Rightarrow> telemetry list \<times> 'r" where
  "swap_loop R rate (p # q # ps) r =
     (let (hit, r) = fault_hits R rate r
      in if hit then (let (out, r) = swap_loop R rate ps r in (q # p # out, r))
         else (let (out, r) = swap_loop R rate (q # ps) r in (p # out, r)))"
| "swap_loop R rate ps r = (ps, r)"

definition faults_Apply :: "'r rng \<Rightarrow> (string \<Rightarrow> duration option) \<Rightarrow> telemetry list \<Rightarrow> fault_config \<Rightarrow> int \<Rightarrow> telemetry list" where
  "faults_Apply R parse points cfg seed =
     (let r = rng_New R (wrap64 (seed + 1));
          (kept, r) = (if flt (Fin 0) (fc_OfflineVehicles cfg)
                       then keep_vehicles R (fc_OfflineVehicles cfg) points (first_seen points) r else (points, r));
          (out, r) = fault_loop R parse cfg kept r
      in fst (swap_loop R (fc_OutOfOrderRate cfg) out r))"

subsection \<open>Identities of simulated points\<close>

definition sim_key :: "nat \<Rightarrow> int \<Rightarrow> string" where
  "sim_key v seq = ''fleetsim|'' @ sim_vid v @ ''|seq:'' @ show_int seq"

lemma bar_not_in_sim_vid: "CHR ''|'' \<notin> set (sim_vid v)"
proof -
  have "char_digit (CHR ''|'') = None" by (simp add: char_digit_def)
  then show ?thesis using show_nat_chars [of "CHR ''|''" v] by (auto simp: sim_vid_def pad_nat_def)
qed

lemma sim_key_inject [simp]: "sim_key v a = sim_key w b \<longleftrightarrow> v = w \<and> a = b"
proof
  assume "sim_key v a = sim_key w b"
  then have "sim_vid v @ CHR ''|'' # ''seq:'' @ show_int a = sim_vid w @ CHR ''|'' # ''seq:'' @ show_int b"
    by (simp add: sim_key_def)
  from append_sep_inject [OF this bar_not_in_sim_vid bar_not_in_sim_vid] show "v = w \<and> a = b"
    by (simp add: sim_vid_def)
qed simp

lemma sim_point_key: "DedupKey L (sim_point tenant (sim_vid v) seed profile ts seq lat lng speed ign) = sim_key v seq"
  by (simp add: DedupKey_def sim_point_def sim_key_def)

definition sim_steps :: "scenario \<Rightarrow> nat" where
  "sim_steps s = nat (quot (sn_DurationSecs s) (sn_StepSecs s))"

text \<open>One step of the generator, and one vehicle, without the arithmetic of the position.\<close>

lemma gen_steps_SucE:
  assumes "gen_steps L R V (Suc n) i lat lng heading seq r = (pts, r')" "\<not> (gv_profile V = ''offline'' \<and> i > gv_steps V div 3)"
  obtains ts lat' lng' heading' speed ign r1 where
    "pts = sim_point (gv_tenant V) (gv_vid V) (gv_seed V) (gv_profile V)
       (gv_base V + wrap64 (wrap64 (int i * sn_StepSecs (gv_scen V)) * Second)) (wrap64 (seq + 1)) lat' lng' speed ign # ts"
    "gen_steps L R V n (Suc i) lat' lng' heading' (wrap64 (seq + 1)) r1 = (ts, r')"
proof -
  obtain speed ign r0 where sp: "speedFor R (gv_profile V) i r = ((speed, ign), r0)" by (metis surj_pair)
  obtain x r1 where x: "rng_Float64 R r0 = (x, r1)" by fastforce
  show thesis
    using assms(1) unfolding gen_steps.simps if_not_P [OF assms(2)] sp x Let_def prod.case
    by (auto split: prod.splits intro: that)
qed

lemma gen_vehicles_ConsE:
  assumes "gen_vehicles L R s seed tenant base (v # vs) r = (pts, r')"
  obtains profile lat lng h r1 r2 as bs where "pts = as @ bs"
    "gen_steps L R \<lparr>gv_scen = s, gv_seed = seed, gv_tenant = tenant, gv_base = base, gv_vid = sim_vid v,
       gv_profile = profile, gv_steps = sim_steps s\<rparr> (sim_steps s) 0 lat lng h 0 r1 = (as, r2)"
    "gen_vehicles L R s seed tenant base vs r2 = (bs, r')"
proof -
  obtain profile r0 where p: "pickProfile R (mix_of s) r = (profile, r0)" by fastforce
  obtain x r1 where x: "rng_Float64 R r0 = (x, r1)" by fastforce
  obtain y r2 where y: "rng_Float64 R r1 = (y, r2)" by fastforce
  obtain h r3 where h: "rng_Float64 R r2 = (h, r3)" by fastforce
  show thesis
    using assms unfolding gen_vehicles.simps sim_steps_def [symmetric] p x y h Let_def prod.case
    by (auto split: prod.splits intro: that)
qed

text \<open>The points of one vehicle are numbered consecutively.\<close>

lemma gen_steps_keys:
  assumes "gen_steps L R V n i lat lng heading seq r = (pts, r')" "gv_vid V = sim_vid v" "0 \<le> seq" "seq + int n < 2 ^ 63"
  shows "map (DedupKey L') pts = map (\<lambda>j. sim_key v (seq + 1 + int j)) [0..<length pts] \<and> length pts \<le> n"
  using assms
proof (induction n arbitrary: i lat lng heading seq r pts r')
  case (Suc n)
  show ?case
  proof (cases "gv_profile V = ''offline'' \<and> i > gv_steps V div 3")
    case True
    then show ?thesis using Suc.prems(1) by simp
  next
    case False
    have w: "wrap64 (seq + 1) = seq + 1" using Suc.prems(3,4) by (intro wrap64_id) (simp add: in_int64_def)
    obtain ts lat' lng' heading' speed ign r1 where
      pts: "pts = sim_point (gv_tenant V) (gv_vid V) (gv_seed V) (gv_profile V)
        (gv_base V + wrap64 (wrap64 (int i * sn_StepSecs (gv_scen V)) * Second)) (wrap64 (seq + 1)) lat' lng' speed ign # ts"
      and rest: "gen_steps L R V n (Suc i) lat' lng' heading' (wrap64 (seq + 1)) r1 = (ts, r')"
      by (rule gen_steps_SucE [OF Suc.prems(1) False])
    have "map (DedupKey L') ts = map (\<lambda>j. sim_key v (seq + 1 + 1 + int j)) [0..<length ts] \<and> length ts \<le> n"
      using Suc.IH [OF rest [unfolded w] Suc.prems(2)] Suc.prems(3,4) by simp
    moreover have "[0..<Suc k] = 0 # map Suc [0..<k]" for k by (simp add: upt_conv_Cons map_Suc_upt)
    ultimately show ?thesis using pts w Suc.prems(2) by (simp add: comp_def add.assoc sim_point_key)
  qed
qed simp

lemma distinct_numbered: "distinct (map (\<lambda>j. sim_key v (a + int j)) [0..<k])"
  by (simp add: distinct_map inj_on_def)

lemma gen_vehicles_keys:
  assumes "gen_vehicles L R s seed tenant base vs r = (pts, r')" "distinct vs" "int (sim_steps s) < 2 ^ 63"
  shows "distinct (map (DedupKey L') pts) \<and> (\<forall>t \<in> set pts. \<exists>v \<in> set vs. \<exists>q. DedupKey L' t = sim_key v q)
    \<and> length pts \<le> length vs * sim_steps s"
  using assms
proof (induction vs arbitrary: r pts r')
  case (Cons v vs)
  obtain profile lat lng h r1 r2 as bs where pts: "pts = as @ bs"
    and a: "gen_steps L R \<lparr>gv_scen = s, gv_seed = seed, gv_tenant = tenant, gv_base = base, gv_vid = sim_vid v,
       gv_profile = profile, gv_steps = sim_steps s\<rparr> (sim_steps s) 0 lat lng h 0 r1 = (as, r2)"
    and b: "gen_vehicles L R s seed tenant base vs r2 = (bs, r')"
    by (rule gen_vehicles_ConsE [OF Cons.prems(1)])
  have ka: "map (DedupKey L') as = map (\<lambda>j. sim_key v (1 + int j)) [0..<length as]" "length as \<le> sim_steps s"
    using gen_steps_keys [OF a, of v L'] Cons.prems(3) by simp_all
  have ks: "\<exists>j. DedupKey L' t = sim_key v j" if "t \<in> set as" for t
    using arg_cong [OF ka(1), of set] that by (metis (no_types, lifting) imageE image_eqI list.set_map)
  have da: "distinct (map (DedupKey L') as)" by (simp only: ka(1) distinct_numbered)
  note IH = Cons.IH [OF b]
  have "DedupKey L' x \<noteq> DedupKey L' y" if "x \<in> set as" "y \<in> set bs" for x y
    using ks [OF that(1)] IH Cons.prems(2,3) that(2) by (metis distinct.simps(2) sim_key_inject)
  then have "distinct (map (DedupKey L') pts)" using da IH Cons.prems(2,3) unfolding pts by auto
  moreover have "\<forall>t \<in> set pts. \<exists>w \<in> set (v # vs). \<exists>q. DedupKey L' t = sim_key w q"
    using ks IH Cons.prems(2,3) unfolding pts by (metis UnE distinct.simps(2) list.set_intros set_append)
  ultimately show ?case using ka(2) IH Cons.prems(2,3) unfolding pts by simp
qed simp

lemma Generate_keys:
  assumes "int (sim_steps s) < 2 ^ 63"
  shows "distinct (map (DedupKey L') (Generate L R s vehicles seed tenant base))"
    and "length (Generate L R s vehicles seed tenant base) \<le> nat vehicles * sim_steps s"
proof -
  obtain pts r where "gen_vehicles L R s (if seed = 0 then sn_Seed s else seed) tenant base [0..<nat vehicles]
      (rng_New R (if seed = 0 then sn_Seed s else seed)) = (pts, r)" by fastforce
  from gen_vehicles_keys [OF this _ assms, of L'] this
  show "distinct (map (DedupKey L') (Generate L R s vehicles seed tenant base))"
    and "length (Generate L R s vehicles seed tenant base) \<le> nat vehicles * sim_steps s"
    by (simp_all add: Generate_def Let_def)
qed

subsection \<open>What faults do to a stream\<close>

text \<open>Everything of a point that no fault changes.\<close>

definition core :: "telemetry \<Rightarrow> telemetry" where
  "core t = t\<lparr>tel_ID := [], tel_Location := zero_location, tel_Timestamp := 0,
     tel_Metadata := (tel_Metadata t)\<lparr>md_Quality := []\<rparr>\<rparr>"

lemma core_simps [simp]: "core (duplicated q) = core q" "core (delayed d q) = core q"
  by (simp_all add: core_def duplicated_def delayed_def)

lemma core_drift [simp]: "core (fst (drift R cfg q r)) = core q"
  by (simp add: drift_def core_def Let_def case_prod_beta)

lemma core_eq_key: "core p = core q \<Longrightarrow> md_Sequence (tel_Metadata p) = Some n \<Longrightarrow> DedupKey L q = DedupKey L p"
proof -
  assume c: "core p = core q" and n: "md_Sequence (tel_Metadata p) = Some n"
  have "tel_Source p = tel_Source q" "md_Sequence (tel_Metadata p) = md_Sequence (tel_Metadata q)"
    using arg_cong [OF c, of tel_Source] arg_cong [OF c, of "\<lambda>t. md_Sequence (tel_Metadata t)"] by (simp_all add: core_def)
  with n show ?thesis by (simp add: DedupKey_def)
qed

lemma fault_loop_core:
  "fault_loop R parse cfg ps r = (out, r') \<Longrightarrow> core ` set out \<subseteq> core ` set ps \<and> length out \<le> 2 * length ps"
proof (induction ps arbitrary: r out r')
  case (Cons p ps)
  obtain m r1 where m: "fault_hits R (fc_MissingRate cfg) r = (m, r1)" by fastforce
  obtain q r2 where q: "drift R cfg p r1 = (q, r2)" by fastforce
  obtain l r3 where l: "fault_hits R (fc_LateRate cfg) r2 = (l, r3)" by fastforce
  obtain d r4 where d: "fault_hits R (fc_DuplicateRate cfg) r3 = (d, r4)" by fastforce
  obtain out1 r5 where o1: "fault_loop R parse cfg ps r4 = (out1, r5)" by fastforce
  have cq: "core q = core p" using core_drift [of R cfg p r1] q by simp
  show ?case
  proof (cases m)
    case True
    then show ?thesis using Cons.IH [of r1 out r'] Cons.prems m by auto
  next
    case False
    then have "out = (if l then delayed (lateDuration parse cfg) q else q) #
        (if d then [duplicated (if l then delayed (lateDuration parse cfg) q else q)] else []) @ out1"
      using Cons.prems m q l d o1 by (auto simp: Let_def)
    then show ?thesis using Cons.IH [OF o1] cq by (auto simp: image_iff)
  qed
qed simp

lemma mset_swap_loop: "mset (fst (swap_loop R rate ps r)) = mset ps"
proof (induction R rate ps r rule: swap_loop.induct)
  case (1 R rate p q ps r)
  obtain h r1 where h: "fault_hits R rate r = (h, r1)" by fastforce
  show ?case using "1.IH"(1) [OF h [symmetric] refl] "1.IH"(2) [OF h [symmetric] refl]
    by (cases h) (simp_all add: h Let_def case_prod_beta)
qed simp_all

lemma distinct_first_seen: "distinct (first_seen ps)"
proof -
  have "distinct xs \<Longrightarrow> distinct (foldl (\<lambda>order p. if tel_VehicleID p \<in> set order then order else order @ [tel_VehicleID p]) xs ps)" for xs
    by (induction ps arbitrary: xs) auto
  then show ?thesis by (simp add: first_seen_def)
qed

lemma keep_vehicles_sub:
  "distinct vids \<Longrightarrow> mset (fst (keep_vehicles R rate ps vids r)) \<subseteq># mset (filter (\<lambda>p. tel_VehicleID p \<in> set vids) ps)"
proof (induction vids arbitrary: r)
  case (Cons v vids)
  have split: "mset (filter (\<lambda>p. tel_VehicleID p \<in> set (v # vids)) ps) =
      mset (filter (\<lambda>p. tel_VehicleID p = v) ps) + mset (filter (\<lambda>p. tel_VehicleID p \<in> set vids) ps)"
    using Cons.prems by (induction ps) auto
  have "mset (fst (keep_vehicles R rate ps vids r)) \<subseteq># mset (filter (\<lambda>p. tel_VehicleID p \<in> set vids) ps)" for r
    using Cons by simp
  then show ?case unfolding split
    by (auto simp: Let_def case_prod_beta intro: subset_mset.add_mono subset_mset.trans [OF _ mset_subset_eq_add_right])
qed simp

lemma kept_core:
  assumes "kept = fst (keep_vehicles R rate ps (first_seen ps) r)"
  shows "set kept \<subseteq> set ps \<and> length kept \<le> length ps"
proof -
  have "mset kept \<subseteq># mset (filter (\<lambda>p. tel_VehicleID p \<in> set (first_seen ps)) ps)"
    unfolding assms by (rule keep_vehicles_sub [OF distinct_first_seen])
  also have "\<dots> \<subseteq># mset ps" by (rule multiset_filter_subset [of _ "mset ps", folded mset_filter])
  finally show ?thesis by (metis set_mset_mono set_mset_mset size_mset size_mset_mono)
qed

lemma faults_core:
  "core ` set (faults_Apply R parse ps cfg seed) \<subseteq> core ` set ps \<and> length (faults_Apply R parse ps cfg seed) \<le> 2 * length ps"
proof -
  obtain kept r where k: "(if flt (Fin 0) (fc_OfflineVehicles cfg)
      then keep_vehicles R (fc_OfflineVehicles cfg) ps (first_seen ps) (rng_New R (wrap64 (seed + 1)))
      else (ps, rng_New R (wrap64 (seed + 1)))) = (kept, r)" by fastforce
  obtain out r' where o: "fault_loop R parse cfg kept r = (out, r')" by fastforce
  have kp: "set kept \<subseteq> set ps \<and> length kept \<le> length ps"
    using k kept_core [of kept R "fc_OfflineVehicles cfg" ps "rng_New R (wrap64 (seed + 1))"] by (auto split: if_splits)
  have eq: "faults_Apply R parse ps cfg seed = fst (swap_loop R (fc_OutOfOrderRate cfg) out r')"
    using k o by (simp add: faults_Apply_def Let_def)
  have "mset (faults_Apply R parse ps cfg seed) = mset out" unfolding eq by (rule mset_swap_loop)
  then have "set (faults_Apply R parse ps cfg seed) = set out" "length (faults_Apply R parse ps cfg seed) = length out"
    by (metis set_mset_mset, metis size_mset)
  then show ?thesis using fault_loop_core [OF o] kp by fastforce
qed

text \<open>Without a positive rate nothing is drawn and nothing changes; with duplicates alone, copies are inserted.\<close>

inductive injected :: "telemetry list \<Rightarrow> telemetry list \<Rightarrow> bool" where
  empty: "injected [] []"
| single: "injected ps out \<Longrightarrow> injected (p # ps) (p # out)"
| twice: "injected ps out \<Longrightarrow> injected (p # ps) (p # duplicated p # out)"

definition only_duplicates :: "fault_config \<Rightarrow> bool" where
  "only_duplicates cfg \<longleftrightarrow> \<not> flt (Fin 0) (fc_LateRate cfg) \<and> \<not> flt (Fin 0) (fc_MissingRate cfg)
     \<and> \<not> flt (Fin 0) (fc_OutOfOrderRate cfg) \<and> \<not> flt (Fin 0) (fc_GPSDriftM cfg) \<and> \<not> flt (Fin 0) (fc_OfflineVehicles cfg)"

lemma fault_loop_injected: "only_duplicates cfg \<Longrightarrow> injected ps (fst (fault_loop R parse cfg ps r))"
proof (induction ps arbitrary: r)
  case (Cons p ps)
  obtain d r4 where d: "fault_hits R (fc_DuplicateRate cfg) r = (d, r4)" by fastforce
  obtain out r5 where o: "fault_loop R parse cfg ps r4 = (out, r5)" by fastforce
  have "injected ps out" using Cons.IH [OF Cons.prems, of r4] o by simp
  moreover have "fst (fault_loop R parse cfg (p # ps) r) = p # (if d then [duplicated p] else []) @ out"
    using Cons.prems d o by (simp add: only_duplicates_def fault_hits_def drift_def)
  ultimately show ?case by (auto intro: injected.intros)
qed (simp add: injected.empty)

lemma swap_loop_off: "\<not> flt (Fin 0) rate \<Longrightarrow> swap_loop R rate ps r = (ps, r)"
  by (induction R rate ps r rule: swap_loop.induct) (auto simp: fault_hits_def)

lemma faults_injected: "only_duplicates cfg \<Longrightarrow> injected ps (faults_Apply R parse ps cfg seed)"
  using fault_loop_injected [of cfg ps R parse "rng_New R (wrap64 (seed + 1))"]
  by (simp add: faults_Apply_def only_duplicates_def swap_loop_off Let_def case_prod_beta)

subsection \<open>Simulated streams through the pipeline\<close>

fun fresh_points :: "go_lib \<Rightarrow> string set \<Rightarrow> telemetry list \<Rightarrow> telemetry list" where
  "fresh_points L S [] = []"
| "fresh_points L S (t # ts) =
     (if DedupKey L t \<in> S then fresh_points L S ts else t # fresh_points L (insert (DedupKey L t) S) ts)"

lemma effective_fresh:
  "\<forall>ct \<in> set cts. accepted (fst ct) (snd ct) \<Longrightarrow> map snd (effective L S cts) = fresh_points L S (map snd cts)"
  by (induction cts arbitrary: S) auto

lemma DedupKey_duplicated [simp]: "DedupKey L (duplicated q) = DedupKey L q"
  by (simp add: duplicated_def)

lemma fresh_injected:
  "injected ps out \<Longrightarrow> distinct (map (DedupKey L) ps) \<Longrightarrow> DedupKey L ` set ps \<inter> S = {} \<Longrightarrow> fresh_points L S out = ps"
proof (induction arbitrary: S rule: injected.induct)
  case (single ps out p)
  then show ?case using single.IH [of "insert (DedupKey L p) S"] by auto
next
  case (twice ps out p)
  then show ?case using twice.IH [of "insert (DedupKey L p) S"] by auto
qed simp

subsection \<open>Properties\<close>


text \<open>Faults only degrade. Whatever the rates and the draws, a fault injection invents nothing: every point it
  returns is one of the given points up to its id, position, event time and quality mark, a sequenced point
  keeps its dedup key, and at most two points come from each.\<close>

lemma faults_only_degrade:
  assumes "q \<in> set (faults_Apply R parse ps cfg seed)"
  shows "length (faults_Apply R parse ps cfg seed) \<le> 2 * length ps
    \<and> (\<exists>p \<in> set ps. core q = core p \<and> (md_Sequence (tel_Metadata p) \<noteq> None \<longrightarrow> DedupKey L q = DedupKey L p))"
proof -
  obtain p where "p \<in> set ps" "core p = core q"
    using faults_core [of R parse ps cfg seed] assms by (metis (no_types, lifting) image_eqI image_iff subset_iff)
  then show ?thesis using faults_core [of R parse ps cfg seed] core_eq_key [of p q _ L] by (auto intro!: bexI [of _ p])
qed

definition plain_rng :: "nat rng" where
  "plain_rng = \<lparr>rng_New = nat, rng_Float64 = (\<lambda>r. (Fin 0, Suc r)), rng_NormFloat64 = (\<lambda>r. (Fin 0, Suc r))\<rparr>"

definition all_duplicated :: fault_config where
  "all_duplicated = \<lparr>fc_DuplicateRate = Fin 1, fc_LateRate = Fin 0, fc_LateBy = [], fc_MissingRate = Fin 0,
     fc_OutOfOrderRate = Fin 0, fc_GPSDriftM = Fin 0, fc_OfflineVehicles = Fin 0\<rparr>"

lemma faults_only_degrade_example:
  "let p = point_at ''v'' 1 None None (Some 7)
   in duplicated p \<in> set (faults_Apply plain_rng (\<lambda>_. None) [p] all_duplicated 3)
      \<and> DedupKey plain_lib (duplicated p) = DedupKey plain_lib p"
proof -
  let ?p = "point_at ''v'' 1 None None (Some 7)"
  have q: "duplicated ?p \<in> set (faults_Apply plain_rng (\<lambda>_. None) [?p] all_duplicated 3)"
    by (simp add: faults_Apply_def all_duplicated_def fault_hits_def drift_def plain_rng_def)
  have "md_Sequence (tel_Metadata ?p) \<noteq> None" by (simp add: point_at_simps)
  with faults_only_degrade [OF q, of plain_lib] q show ?thesis by (simp add: Let_def)
qed

definition idle_scenario :: scenario where
  "idle_scenario = \<lparr>sn_Name = ''idle'', sn_Seed = 1, sn_StepSecs = 1, sn_DurationSecs = 1, sn_StartLat = Fin 0, sn_StartLng = Fin 0,
     sn_SpreadKm = Fin 0, sn_Mix = [(''idling'', PInf)]\<rparr>"

definition half_rng :: "nat rng" where
  "half_rng = \<lparr>rng_New = nat, rng_Float64 = (\<lambda>r. (Fin (1 / 2), Suc r)), rng_NormFloat64 = (\<lambda>r. (Fin 0, Suc r))\<rparr>"

definition flat_lib :: go_lib where
  "flat_lib = plain_lib\<lparr>math_Sin := (\<lambda>_. Fin 0)\<rparr>"

definition idle_point :: telemetry where
  "idle_point = sim_point ''t'' (sim_vid 0) 1 ''idling'' 5 1 (Fin 0) (Fin 0) (Fin 0) True"

lemma idle_generated: "Generate flat_lib half_rng idle_scenario 1 0 ''t'' 5 = [idle_point]"
proof -
  have q: "quot 1 1 = 1" by (simp add: quot_def)
  have w: "wrap64 0 = 0" "wrap64 1 = 1" by (simp_all add: wrap64_def)
  show ?thesis
    by (simp add: Generate_def idle_scenario_def half_rng_def pickProfile_def profiles_def mix_of_def q w fsub_def fneg_def
        speedFor_def f_of_int_exact flat_lib_def plain_lib_def idle_point_def Let_def)
qed


end
