(* ===== verification/Sim_Api.thy ===== *)
theory Sim_Api
  imports Api Simulator
begin

section \<open>The simulation API (internal/api/simulate.go)\<close>

text \<open>
  Requests that start, poll and cancel simulation runs, and the background runs. A run is a job of the world; one
  step of it is one iteration of its loop, and steps of different jobs and requests interleave freely. The
  counters of a status are integers that no run can bring near their bounds. JSON and YAML decoding, the
  embedded scenarios, the random source, the pipeline and \<open>Inject\<close> are arguments.
\<close>

definition maxSimVehicles :: int where "maxSimVehicles = 50"
definition maxSimPoints :: nat where "maxSimPoints = 20000"

record sim_request =
  sq_Scenario :: string
  sq_Vehicles :: int
  sq_Seed :: int
  sq_Tenant :: string
  sq_Faults :: fault_config

text \<open>\<open>sr_cancels\<close> tells for every run with a cancel function whether it was called.\<close>

record sim_registry =
  sr_runs :: "string \<rightharpoonup> sim_status"
  sr_cancels :: "string \<rightharpoonup> bool"
  sr_seq :: int

definition newSimRegistry :: sim_registry where
  "newSimRegistry = \<lparr>sr_runs = Map.empty, sr_cancels = Map.empty, sr_seq = 0\<rparr>"

definition sims_set :: "string \<Rightarrow> (sim_status \<Rightarrow> sim_status) \<Rightarrow> sim_registry \<Rightarrow> sim_registry" where
  "sims_set i fn r = (case sr_runs r i of None \<Rightarrow> r | Some st \<Rightarrow> r\<lparr>sr_runs := (sr_runs r)(i \<mapsto> fn st)\<rparr>)"

definition sims_get :: "string \<Rightarrow> sim_registry \<Rightarrow> sim_status option" where
  "sims_get i r = sr_runs r i"

datatype sim_job = Starting scenario sim_request | Looping "telemetry list"

record sim_files =
  sf_Decode :: "string \<Rightarrow> sim_request option"
  sf_Files :: "string \<Rightarrow> string option"
  sf_Yaml :: "string \<Rightarrow> go_error + scenario"

definition with_defaults :: "sim_request \<Rightarrow> sim_request" where
  "with_defaults req =
     (let req = (if sq_Scenario req = [] then req\<lparr>sq_Scenario := ''mixed''\<rparr> else req);
          req = (if sq_Tenant req = [] then req\<lparr>sq_Tenant := ''default''\<rparr> else req)
      in if sq_Vehicles req \<le> 0 then req\<lparr>sq_Vehicles := 10\<rparr> else req)"

definition bad_rate :: "fault_config \<Rightarrow> bool" where
  "bad_rate f \<longleftrightarrow> (\<exists>rate \<in> set [fc_DuplicateRate f, fc_LateRate f, fc_MissingRate f, fc_OutOfOrderRate f, fc_OfflineVehicles f].
     flt rate (Fin 0) \<or> flt (Fin 1) rate)"

definition sim_id :: "int \<Rightarrow> string" where
  "sim_id n = ''sim-'' @ show_int n"

text \<open>The reply, the registry, and the job that the goroutine \<open>runSim\<close> starts with.\<close>

definition handleSimulate ::
  "sim_files \<Rightarrow> string \<Rightarrow> string \<Rightarrow> sim_registry \<Rightarrow> reply \<times> sim_registry \<times> (string \<times> sim_job) option" where
  "handleSimulate F meth reqBody r =
     (if meth \<noteq> ''POST'' then (http_Error ''method not allowed'' 405, r, None)
      else case sf_Decode F reqBody of
        None \<Rightarrow> (http_Error ''invalid JSON'' 400, r, None)
      | Some req \<Rightarrow>
      (let req = with_defaults req
       in if sq_Vehicles req > maxSimVehicles
          then (http_Error (''vehicles capped at '' @ show_int maxSimVehicles @ '' for HTTP runs (use the CLI beyond that)'') 422, r, None)
          else if bad_rate (sq_Faults req) then (http_Error ''fault rates must be 0-1'' 422, r, None)
          else case scenario_Get (sf_Files F) (sq_Scenario req) of
            Inl err \<Rightarrow> (http_Error err 422, r, None)
          | Inr raw \<Rightarrow>
          (case LoadScenario (sf_Yaml F) raw of
             Inl err \<Rightarrow> (internalError err, r, None)
           | Inr scen \<Rightarrow>
               (let seq = wrap64 (sr_seq r + 1);
                    i = sim_id seq;
                    st = \<lparr>ss_ID = i, ss_State = ''running'', ss_Scenario = sq_Scenario req, ss_Vehicles = sq_Vehicles req,
                          ss_Points = 0, ss_Accepted = 0, ss_Events = 0, ss_Error = []\<rparr>
                in (ok_reply 202 (SimBody st),
                    r\<lparr>sr_seq := seq, sr_runs := (sr_runs r)(i \<mapsto> st), sr_cancels := (sr_cancels r)(i \<mapsto> False)\<rparr>,
                    Some (i, Starting scen req))))))"

definition handleSimStatus :: "string \<Rightarrow> string \<Rightarrow> sim_registry \<Rightarrow> reply \<times> sim_registry" where
  "handleSimStatus meth path r =
     (let i = trim_prefix path ''/v1/simulate/''
      in if i = [] \<or> CHR ''/'' \<in> set i then (http_Error ''404 page not found'' 404, r)
         else if meth \<noteq> ''GET'' \<and> meth \<noteq> ''DELETE'' then (http_Error ''method not allowed'' 405, r)
         else case sims_get i r of
           None \<Rightarrow> (http_Error ''unknown run'' 404, r)
         | Some st \<Rightarrow>
             if meth = ''DELETE''
             then (let r = (if sr_cancels r i = None then r else r\<lparr>sr_cancels := (sr_cancels r)(i \<mapsto> True)\<rparr>)
                   in (ok_reply 200 (SimBody (the (sims_get i r))), r))
             else (ok_reply 200 (SimBody st), r))"

subsection \<open>Runs\<close>

record ('p, 'r) sim_env =
  se_Lib :: go_lib
  se_Rng :: "'r rng"
  se_ParseDuration :: "string \<Rightarrow> duration option"
  se_Process :: "telemetry \<Rightarrow> 'p \<Rightarrow> process_result \<times> 'p"
  se_Inject :: "event \<Rightarrow> 'p \<Rightarrow> 'p"
  se_now :: time

record 'p sim_world =
  sw_reg :: sim_registry
  sw_jobs :: "string \<rightharpoonup> sim_job"
  sw_p :: 'p

definition end_run :: "string \<Rightarrow> (sim_status \<Rightarrow> sim_status) \<Rightarrow> 'p sim_world \<Rightarrow> 'p sim_world" where
  "end_run i fn w = w\<lparr>sw_reg := sims_set i fn (sw_reg w), sw_jobs := (sw_jobs w)(i := None)\<rparr>"

definition go_on :: "string \<Rightarrow> (sim_status \<Rightarrow> sim_status) \<Rightarrow> telemetry list \<Rightarrow> 'p sim_world \<Rightarrow> 'p sim_world" where
  "go_on i fn pts w = w\<lparr>sw_reg := sims_set i fn (sw_reg w), sw_jobs := (sw_jobs w)(i \<mapsto> Looping pts)\<rparr>"

text \<open>The points of a run: generated, faulted, and cut off.\<close>

definition run_points :: "('p, 'r) sim_env \<Rightarrow> scenario \<Rightarrow> sim_request \<Rightarrow> telemetry list" where
  "run_points E scen req =
     take maxSimPoints (faults_Apply (se_Rng E) (se_ParseDuration E)
       (Generate (se_Lib E) (se_Rng E) scen (sq_Vehicles req) (sq_Seed req) (sq_Tenant req) (se_now E)) (sq_Faults req) (sq_Seed req))"

text \<open>One iteration of \<open>runSim\<close>.\<close>

definition job_step :: "('p, 'r) sim_env \<Rightarrow> string \<Rightarrow> 'p sim_world \<Rightarrow> 'p sim_world" where
  "job_step E i w =
     (case sw_jobs w i of
        None \<Rightarrow> w
      | Some (Starting scen req) \<Rightarrow>
          (let pts = run_points E scen req in go_on i (\<lambda>s. s\<lparr>ss_Points := int (length pts)\<rparr>) pts w)
      | Some (Looping []) \<Rightarrow> end_run i (\<lambda>s. s\<lparr>ss_State := ''done''\<rparr>) w
      | Some (Looping (pt # pts)) \<Rightarrow>
          if sr_cancels (sw_reg w) i = Some True then end_run i (\<lambda>s. s\<lparr>ss_State := ''cancelled''\<rparr>) w
          else (case se_Process E (pt\<lparr>tel_ProcessedAt := se_now E\<rparr>) (sw_p w) of
                  ((_, _, Some (PublishError pevs err)), p) \<Rightarrow>
                    go_on i (\<lambda>s. s\<lparr>ss_Events := ss_Events s + int (length pevs), ss_Accepted := ss_Accepted s + 1\<rparr>) pts
                      (w\<lparr>sw_p := fold (se_Inject E) pevs p\<rparr>)
                | ((_, _, Some (PlainError err)), p) \<Rightarrow>
                    end_run i (\<lambda>s. s\<lparr>ss_State := ''failed'', ss_Error := ''processing failed''\<rparr>) (w\<lparr>sw_p := p\<rparr>)
                | ((evs, _, None), p) \<Rightarrow>
                    go_on i (\<lambda>s. s\<lparr>ss_Accepted := ss_Accepted s + 1, ss_Events := ss_Events s + int (length evs)\<rparr>) pts
                      (w\<lparr>sw_p := fold (se_Inject E) evs p\<rparr>)))"

text \<open>
  The interleavings of requests and iterations. The clock moves between iterations; the sequence counter does
  not wrap around.
\<close>

inductive sim_step :: "('p, 'r) sim_env \<Rightarrow> 'p sim_world \<Rightarrow> 'p sim_world \<Rightarrow> bool" for E where
  request: "handleSimulate F meth reqBody (sw_reg w) = (rep, r, job) \<Longrightarrow> sr_seq (sw_reg w) < 2 ^ 63 - 1 \<Longrightarrow>
    sim_step E w (w\<lparr>sw_reg := r, sw_jobs := (case job of None \<Rightarrow> sw_jobs w | Some (i, j) \<Rightarrow> (sw_jobs w)(i \<mapsto> j))\<rparr>)"
| status: "handleSimStatus meth path (sw_reg w) = (rep, r) \<Longrightarrow> sim_step E w (w\<lparr>sw_reg := r\<rparr>)"
| iterate: "sim_step E w (job_step (E\<lparr>se_now := now\<rparr>) i w)"

inductive sim_reach :: "('p, 'r) sim_env \<Rightarrow> 'p \<Rightarrow> 'p sim_world \<Rightarrow> bool" for E p where
  start: "sim_reach E p \<lparr>sw_reg = newSimRegistry, sw_jobs = Map.empty, sw_p = p\<rparr>"
| step: "sim_reach E p w \<Longrightarrow> sim_step E w w' \<Longrightarrow> sim_reach E p w'"

subsection \<open>The invariant of the registry\<close>

text \<open>What a status says, given the job of the run: every point is either counted or still to come.\<close>

fun status_ok :: "sim_status \<Rightarrow> sim_job option \<Rightarrow> bool" where
  "status_ok st (Some (Starting scen req)) \<longleftrightarrow> ss_State st = ''running'' \<and> ss_Points st = 0 \<and> ss_Accepted st = 0"
| "status_ok st (Some (Looping pts)) \<longleftrightarrow> ss_State st = ''running'' \<and> ss_Accepted st + int (length pts) = ss_Points st
     \<and> 0 \<le> ss_Accepted st \<and> ss_Points st \<le> int maxSimPoints"
| "status_ok st None \<longleftrightarrow> 0 \<le> ss_Accepted st \<and> ss_Accepted st \<le> ss_Points st \<and> ss_Points st \<le> int maxSimPoints
     \<and> (ss_State st = ''done'' \<and> ss_Accepted st = ss_Points st \<or> ss_State st = ''cancelled'' \<or> ss_State st = ''failed'')"

definition sim_inv :: "'p sim_world \<Rightarrow> bool" where
  "sim_inv w \<longleftrightarrow> 0 \<le> sr_seq (sw_reg w) \<and> sr_seq (sw_reg w) < 2 ^ 63
     \<and> dom (sw_jobs w) \<subseteq> dom (sr_runs (sw_reg w))
     \<and> (\<forall>i st. sr_runs (sw_reg w) i = Some st \<longrightarrow>
          ss_ID st = i \<and> ss_Vehicles st \<le> maxSimVehicles \<and> status_ok st (sw_jobs w i)
          \<and> (\<exists>n. 1 \<le> n \<and> n \<le> sr_seq (sw_reg w) \<and> i = sim_id n))"

lemma sim_id_inject [simp]: "sim_id a = sim_id b \<longleftrightarrow> a = b"
  by (simp add: sim_id_def)

lemma handleSimulate_cases:
  assumes "handleSimulate F meth reqBody r = (rep, r', job)"
  obtains "r' = r" "job = None"
  | st scen req where "job = Some (sim_id (wrap64 (sr_seq r + 1)), Starting scen req)"
      "r' = r\<lparr>sr_seq := wrap64 (sr_seq r + 1), sr_runs := (sr_runs r)(sim_id (wrap64 (sr_seq r + 1)) \<mapsto> st),
              sr_cancels := (sr_cancels r)(sim_id (wrap64 (sr_seq r + 1)) \<mapsto> False)\<rparr>"
      "rep = ok_reply 202 (SimBody st)" "ss_ID st = sim_id (wrap64 (sr_seq r + 1))" "ss_Vehicles st \<le> maxSimVehicles"
      "status_ok st (Some (Starting scen req))"
proof (cases "snd (snd (handleSimulate F meth reqBody r)) = None")
  case True
  then have "r' = r \<and> job = None"
    using assms unfolding handleSimulate_def Let_def
    by (cases "meth = ''POST''"; cases "sf_Decode F reqBody") (auto split: if_split_asm sum.split_asm)
  then show thesis using that(1) by blast
next
  case False
  then obtain req where "meth = ''POST''" "sf_Decode F reqBody = Some req"
    unfolding handleSimulate_def by (cases "meth = ''POST''"; cases "sf_Decode F reqBody") auto
  then show thesis
    using False assms that(2) unfolding handleSimulate_def Let_def
    by (auto split: if_split_asm sum.split_asm)
qed

lemma handleSimStatus_cases:
  assumes "handleSimStatus meth path r = (rep, r')"
  obtains "r' = r" | i where "sr_runs r i \<noteq> None" "r' = r\<lparr>sr_cancels := (sr_cancels r)(i \<mapsto> True)\<rparr>"
proof -
  let ?i = "trim_prefix path ''/v1/simulate/''"
  show thesis
    using assms that(1) that(2) [of ?i] unfolding handleSimStatus_def Let_def sims_get_def
    by (cases "sr_runs r ?i"; cases "sr_cancels r ?i = None") (simp_all split: if_split_asm)
qed

lemma length_run_points: "length (run_points E scen req) \<le> maxSimPoints"
  by (simp add: run_points_def)

text \<open>An iteration of a run leaves the other runs alone and keeps its own status consistent.\<close>

lemma job_step_frame:
  shows "j \<noteq> i \<Longrightarrow> sr_runs (sw_reg (job_step E i w)) j = sr_runs (sw_reg w) j"
    and "j \<noteq> i \<Longrightarrow> sw_jobs (job_step E i w) j = sw_jobs w j"
    and "sr_seq (sw_reg (job_step E i w)) = sr_seq (sw_reg w)"
    and "sr_cancels (sw_reg (job_step E i w)) = sr_cancels (sw_reg w)"
  by (auto simp: job_step_def end_run_def go_on_def sims_set_def Let_def
      split: option.split sim_job.split list.split prod.split process_error.split)

lemma job_step_idle: "sw_jobs w i = None \<Longrightarrow> job_step E i w = w"
  by (simp add: job_step_def)

lemma job_step_status:
  assumes "sw_jobs w i = Some j" "sr_runs (sw_reg w) i = Some st" "status_ok st (Some j)"
  shows "\<exists>st'. sr_runs (sw_reg (job_step E i w)) i = Some st' \<and> ss_ID st' = ss_ID st \<and> ss_Vehicles st' = ss_Vehicles st
    \<and> status_ok st' (sw_jobs (job_step E i w) i)"
proof (cases j)
  case (Starting scen req)
  then show ?thesis using assms length_run_points [of E scen req]
    by (auto simp: job_step_def go_on_def sims_set_def Let_def)
next
  case (Looping pts)
  show ?thesis
  proof (cases pts)
    case Nil
    then show ?thesis using assms Looping by (simp add: job_step_def end_run_def sims_set_def)
  next
    case (Cons pt ps)
    show ?thesis
      using assms unfolding Looping Cons
      by (auto simp: job_step_def end_run_def go_on_def sims_set_def Let_def
          split: option.split prod.split process_error.split)
  qed
qed

lemma sim_inv_iterate:
  assumes "sim_inv w"
  shows "sim_inv (job_step E i w)"
proof (cases "sw_jobs w i")
  case None
  with assms show ?thesis by (simp add: job_step_idle)
next
  case (Some j)
  then obtain st where st: "sr_runs (sw_reg w) i = Some st" using assms by (auto simp: sim_inv_def)
  then have ok: "status_ok st (Some j)" "ss_ID st = i" "ss_Vehicles st \<le> maxSimVehicles"
    using assms Some unfolding sim_inv_def by metis+
  obtain st' where st': "sr_runs (sw_reg (job_step E i w)) i = Some st'" "ss_ID st' = i" "ss_Vehicles st' \<le> maxSimVehicles"
      "status_ok st' (sw_jobs (job_step E i w) i)"
    using job_step_status [OF Some st ok(1), of E] ok(2,3) by auto
  have "dom (sw_jobs (job_step E i w)) \<subseteq> dom (sr_runs (sw_reg (job_step E i w)))"
  proof
    fix k assume "k \<in> dom (sw_jobs (job_step E i w))"
    then show "k \<in> dom (sr_runs (sw_reg (job_step E i w)))"
      using assms st'(1) job_step_frame(1,2) [of k i E w] by (cases "k = i") (auto simp: sim_inv_def domIff)
  qed
  moreover have "ss_ID s = k \<and> ss_Vehicles s \<le> maxSimVehicles \<and> status_ok s (sw_jobs (job_step E i w) k)
      \<and> (\<exists>n. 1 \<le> n \<and> n \<le> sr_seq (sw_reg w) \<and> k = sim_id n)" if "sr_runs (sw_reg (job_step E i w)) k = Some s" for k s
    using assms st st' that job_step_frame(1,2) [of k i E w] by (cases "k = i") (auto simp: sim_inv_def)
  ultimately show ?thesis using assms by (simp add: sim_inv_def job_step_frame(3))
qed

lemma sim_inv_request:
  assumes "sim_inv w" "handleSimulate F meth reqBody (sw_reg w) = (rep, r, job)" "sr_seq (sw_reg w) < 2 ^ 63 - 1"
  shows "sim_inv (w\<lparr>sw_reg := r, sw_jobs := (case job of None \<Rightarrow> sw_jobs w | Some (i, j) \<Rightarrow> (sw_jobs w)(i \<mapsto> j))\<rparr>)"
proof -
  have s: "wrap64 (sr_seq (sw_reg w) + 1) = sr_seq (sw_reg w) + 1"
    using assms(1,3) by (intro wrap64_id) (simp add: sim_inv_def in_int64_def)
  from assms(2) show ?thesis
  proof (cases rule: handleSimulate_cases)
    case 1
    then show ?thesis using assms(1) by simp
  next
    case (2 st scen req)
    then show ?thesis using assms(1,3) unfolding s by (fastforce simp: sim_inv_def)
  qed
qed

lemma sim_inv_status:
  assumes "sim_inv w" "handleSimStatus meth path (sw_reg w) = (rep, r)"
  shows "sim_inv (w\<lparr>sw_reg := r\<rparr>)"
  using assms(2) by (cases rule: handleSimStatus_cases) (use assms(1) in \<open>auto simp: sim_inv_def\<close>)

lemma sim_inv_reach: "sim_reach E p w \<Longrightarrow> sim_inv w"
proof (induction rule: sim_reach.induct)
  case start
  then show ?case by (simp add: sim_inv_def newSimRegistry_def)
next
  case (step w w')
  from step.hyps(2) step.IH show ?case
    by (cases rule: sim_step.cases) (auto intro: sim_inv_request sim_inv_status sim_inv_iterate)
qed

subsection \<open>Progress of a run\<close>

text \<open>How many iterations a run has left at most.\<close>

definition iterations_left :: "'p sim_world \<Rightarrow> string \<Rightarrow> nat" where
  "iterations_left w i = (case sw_jobs w i of None \<Rightarrow> 0 | Some (Starting scen req) \<Rightarrow> maxSimPoints + 2 | Some (Looping pts) \<Rightarrow> length pts + 1)"

lemma iterations_decrease: "iterations_left (job_step E i w) i \<le> iterations_left w i - 1"
proof (cases "sw_jobs w i")
  case (Some j)
  show ?thesis
  proof (cases j)
    case (Starting scen req)
    then show ?thesis using Some length_run_points [of E scen req]
      by (simp add: iterations_left_def job_step_def go_on_def Let_def)
  next
    case (Looping pts)
    then show ?thesis using Some
      by (cases pts) (auto simp: iterations_left_def job_step_def go_on_def end_run_def split: prod.split option.split process_error.split)
  qed
qed (simp add: job_step_idle iterations_left_def)

lemma iterations_run_out: "iterations_left ((job_step E i ^^ n) w) i \<le> iterations_left w i - n"
proof (induction n)
  case (Suc n)
  then show ?case using iterations_decrease [of E i "(job_step E i ^^ n) w"] by simp
qed simp

lemma no_iterations: "iterations_left w i = 0 \<longleftrightarrow> sw_jobs w i = None"
  by (auto simp: iterations_left_def split: option.split sim_job.split)

lemma fresh_id:
  assumes "sim_inv w" "sr_seq (sw_reg w) < 2 ^ 63 - 1"
  shows "sr_runs (sw_reg w) (sim_id (wrap64 (sr_seq (sw_reg w) + 1))) = None"
proof -
  have "wrap64 (sr_seq (sw_reg w) + 1) = sr_seq (sw_reg w) + 1"
    using assms by (intro wrap64_id) (simp add: sim_inv_def in_int64_def)
  then show ?thesis using assms(1) by (cases "sr_runs (sw_reg w) (sim_id (sr_seq (sw_reg w) + 1))") (fastforce simp: sim_inv_def)+
qed

text \<open>What one step of the world does to a run that exists: nothing, or one iteration.\<close>

lemma sim_step_run:
  assumes "sim_step E w w'" "sim_inv w" "sr_runs (sw_reg w) i = Some st"
  shows "(sr_runs (sw_reg w') i = Some st \<and> sw_jobs w' i = sw_jobs w i) \<or> (\<exists>now. w' = job_step (E\<lparr>se_now := now\<rparr>) i w)"
  using assms(1)
proof (cases rule: sim_step.cases)
  case (request F meth reqBody rep r job)
  note fresh = fresh_id [OF assms(2) request(3)]
  from request(2) show ?thesis
    by (cases rule: handleSimulate_cases) (use assms(3) fresh request(1) in auto)
next
  case (status meth path rep r)
  from status(2) show ?thesis by (cases rule: handleSimStatus_cases) (use assms(3) status(1) in auto)
next
  case (iterate now j)
  then show ?thesis using assms(3) job_step_frame(1,2) [of i j "E\<lparr>se_now := now\<rparr>" w] by (cases "i = j") auto
qed

subsection \<open>Properties\<close>

text \<open>C19: Simulation runs are accounted for. In every interleaving of requests, polls, cancellations and iterations, a
  run has at most 50 vehicles and 20000 points, never more accepted points than points, a state of the
  documented four, and is running exactly while its goroutine is; a run that is done has processed every
  point, and the status of a run that has ended never changes again.\<close>

theorem sim_runs_accounted:
  assumes "sim_reach E p w" "sr_runs (sw_reg w) i = Some st"
  shows "ss_Vehicles st \<le> 50 \<and> 0 \<le> ss_Accepted st \<and> ss_Accepted st \<le> ss_Points st \<and> ss_Points st \<le> 20000
    \<and> ss_State st \<in> {''running'', ''done'', ''cancelled'', ''failed''}
    \<and> (ss_State st = ''running'' \<longleftrightarrow> sw_jobs w i \<noteq> None)
    \<and> (ss_State st = ''done'' \<longrightarrow> ss_Accepted st = ss_Points st)
    \<and> (ss_State st \<noteq> ''running'' \<longrightarrow> (\<forall>w'. sim_step E w w' \<longrightarrow> sr_runs (sw_reg w') i = Some st))"
proof -
  note inv = sim_inv_reach [OF assms(1)]
  have ok: "status_ok st (sw_jobs w i)" "ss_Vehicles st \<le> 50"
    using inv assms(2) by (auto simp: sim_inv_def maxSimVehicles_def)
  have run: "ss_State st = ''running'' \<longleftrightarrow> sw_jobs w i \<noteq> None"
    using ok(1) by (cases "(st, sw_jobs w i)" rule: status_ok.cases) auto
  have "sr_runs (sw_reg w') i = Some st" if "ss_State st \<noteq> ''running''" "sim_step E w w'" for w'
    using sim_step_run [OF that(2) inv assms(2)] that(1) run assms(2) by (auto simp: job_step_idle)
  moreover have "0 \<le> ss_Accepted st \<and> ss_Accepted st \<le> ss_Points st \<and> ss_Points st \<le> 20000
      \<and> ss_State st \<in> {''running'', ''done'', ''cancelled'', ''failed''} \<and> (ss_State st = ''done'' \<longrightarrow> ss_Accepted st = ss_Points st)"
    using ok(1) by (cases "(st, sw_jobs w i)" rule: status_ok.cases) (auto simp: maxSimPoints_def)
  ultimately show ?thesis using run ok(2) by blast
qed

text \<open>C20: Every simulation run ends. A run has at most 20002 iterations left, no step of the world raises that number,
  and after so many iterations its goroutine has ended.\<close>

theorem sim_run_ends:
  assumes "sim_reach E p w" "sr_runs (sw_reg w) i = Some st"
  shows "iterations_left w i \<le> 20002 \<and> (\<forall>w'. sim_step E w w' \<longrightarrow> iterations_left w' i \<le> iterations_left w i)
    \<and> sw_jobs ((job_step E i ^^ iterations_left w i) w) i = None"
proof (intro conjI allI impI)
  note inv = sim_inv_reach [OF assms(1)]
  have "status_ok st (sw_jobs w i)" using inv assms(2) by (auto simp: sim_inv_def)
  then show "iterations_left w i \<le> 20002"
    by (cases "(st, sw_jobs w i)" rule: status_ok.cases) (auto simp: iterations_left_def maxSimPoints_def)
  show "sw_jobs ((job_step E i ^^ iterations_left w i) w) i = None"
    using iterations_run_out [where E = E and i = i and n = "iterations_left w i" and w = w] by (simp add: no_iterations [symmetric])
  fix w'
  assume "sim_step E w w'"
  from sim_step_run [OF this inv assms(2)] show "iterations_left w' i \<le> iterations_left w i"
  proof
    assume "\<exists>now. w' = job_step (E\<lparr>se_now := now\<rparr>) i w"
    then show ?thesis using iterations_decrease diff_le_self le_trans by metis
  qed (simp add: iterations_left_def)
qed

definition idle_env :: "(nat, nat) sim_env" where
  "idle_env = \<lparr>se_Lib = plain_lib, se_Rng = plain_rng, se_ParseDuration = (\<lambda>_. None),
     se_Process = (\<lambda>t p. (([], False, None), Suc p)), se_Inject = (\<lambda>e p. p), se_now = 5\<rparr>"

definition idle_files :: sim_files where
  "idle_files = \<lparr>sf_Decode = (\<lambda>_. Some \<lparr>sq_Scenario = ''idle'', sq_Vehicles = 1, sq_Seed = 1, sq_Tenant = ''t'', sq_Faults = all_duplicated\<rparr>),
     sf_Files = (\<lambda>_. Some []), sf_Yaml = (\<lambda>_. Inr idle_scenario)\<rparr>"

definition started_status :: sim_status where
  "started_status = \<lparr>ss_ID = ''sim-1'', ss_State = ''running'', ss_Scenario = ''idle'', ss_Vehicles = 1, ss_Points = 0,
     ss_Accepted = 0, ss_Events = 0, ss_Error = []\<rparr>"

lemma sim_id_1: "sim_id 1 = ''sim-1''"
  by code_simp

lemma idle_started:
  "handleSimulate idle_files ''POST'' [] newSimRegistry =
     (ok_reply 202 (SimBody started_status),
      newSimRegistry\<lparr>sr_seq := 1, sr_runs := [''sim-1'' \<mapsto> started_status], sr_cancels := [''sim-1'' \<mapsto> False]\<rparr>,
      Some (''sim-1'', Starting idle_scenario \<lparr>sq_Scenario = ''idle'', sq_Vehicles = 1, sq_Seed = 1, sq_Tenant = ''t'', sq_Faults = all_duplicated\<rparr>))"
proof -
  have "wrap64 1 = 1" by (simp add: wrap64_def)
  then show ?thesis
    by (simp add: handleSimulate_def idle_files_def newSimRegistry_def with_defaults_def maxSimVehicles_def bad_rate_def
        all_duplicated_def scenario_Get_def LoadScenario_def idle_scenario_def started_status_def sim_id_1 Let_def)
qed

definition started_world :: "nat sim_world" where
  "started_world = \<lparr>sw_reg = newSimRegistry\<lparr>sr_seq := 1, sr_runs := [''sim-1'' \<mapsto> started_status], sr_cancels := [''sim-1'' \<mapsto> False]\<rparr>,
     sw_jobs = [''sim-1'' \<mapsto> Starting idle_scenario \<lparr>sq_Scenario = ''idle'', sq_Vehicles = 1, sq_Seed = 1, sq_Tenant = ''t'', sq_Faults = all_duplicated\<rparr>],
     sw_p = 0\<rparr>"

lemma started_reach: "sim_reach idle_env 0 started_world" "sr_runs (sw_reg started_world) ''sim-1'' = Some started_status"
proof -
  let ?w = "\<lparr>sw_reg = newSimRegistry, sw_jobs = Map.empty, sw_p = 0 :: nat\<rparr>"
  have "sim_step idle_env ?w started_world"
    using sim_step.request [where E = idle_env and w = ?w, simplified, OF idle_started]
    by (simp add: started_world_def newSimRegistry_def)
  then show "sim_reach idle_env 0 started_world" by (rule sim_reach.step [OF sim_reach.start])
qed (simp add: started_world_def)

theorem sim_runs_accounted_witness:
  "ss_Accepted started_status \<le> ss_Points started_status \<and> sw_jobs started_world ''sim-1'' \<noteq> None"
  using sim_runs_accounted [OF started_reach] by (simp add: started_status_def)

theorem sim_run_ends_witness:
  "sw_jobs ((job_step idle_env ''sim-1'' ^^ iterations_left started_world ''sim-1'') started_world) ''sim-1'' = None"
  using sim_run_ends [OF started_reach] by blast

end
