(* ===== verification/Migrator.thy ===== *)
theory Migrator
  imports Config "HOL-Library.List_Lexorder" "HOL-Library.Char_ord"
begin

section \<open>The schema migrator (internal/db)\<close>

text \<open>
  Which embedded migrations are pending, their application in lexical order, and the schema version. The database
  is the record \<open>sql_db\<close> on a state \<open>'d\<close>: the statements the code sends, each with its outcome. \<open>db_Versions\<close>
  is the query for the recorded versions: its error, or the rows read and the error of a scan.
\<close>

record 'd sql_db =
  db_Open :: "'d \<Rightarrow> go_error option"
  db_Ensure :: "'d \<Rightarrow> go_error option \<times> 'd"
  db_Versions :: "'d \<Rightarrow> go_error + int list \<times> go_error option"
  db_Max :: "'d \<Rightarrow> go_error + int option"
  db_Exec :: "string \<Rightarrow> 'd \<Rightarrow> go_error option \<times> 'd"
  db_Record :: "int \<Rightarrow> 'd \<Rightarrow> go_error option \<times> 'd"

record migration_fs =
  fs_ReadDir :: "go_error + string list"
  fs_ReadFile :: "string \<Rightarrow> go_error + string"

definition db_open :: "'d sql_db \<Rightarrow> 'd \<Rightarrow> go_error option" where
  "db_open D d = map_option (\<lambda>err. ''db: open: '' @ err) (db_Open D d)"

text \<open>\<open>fmt.Sprintf("%04d", v)\<close>, whose width includes a sign.\<close>

definition fmt_04d :: "int \<Rightarrow> string" where
  "fmt_04d v = (if v < 0 then CHR ''-'' # pad_nat 3 (nat (- v)) else pad_nat 4 (nat v))"

definition version_prefix :: "string \<Rightarrow> string" where
  "version_prefix f = takeWhile (\<lambda>c. c \<noteq> CHR ''_'') f"

definition has_suffix :: "string \<Rightarrow> string \<Rightarrow> bool" where
  "has_suffix s p \<longleftrightarrow> length p \<le> length s \<and> drop (length s - length p) s = p"

definition Pending :: "'d sql_db \<Rightarrow> migration_fs \<Rightarrow> 'd \<Rightarrow> (go_error + string list) \<times> 'd" where
  "Pending D F d =
     (case db_open D d of
        Some err \<Rightarrow> (Inl err, d)
      | None \<Rightarrow>
      (case fs_ReadDir F of
         Inl err \<Rightarrow> (Inl (''db: read migrations: '' @ err), d)
       | Inr entries \<Rightarrow>
       (let files = sort (filter (\<lambda>e. has_suffix e ''.sql'') entries)
        in case db_Ensure D d of
             (Some err, d) \<Rightarrow> (Inl (''db: ensure schema_migrations: '' @ err), d)
           | (None, d) \<Rightarrow>
           (case db_Versions D d of
              Inl err \<Rightarrow> (Inl (''db: read schema_migrations: '' @ err), d)
            | Inr (vs, Some err) \<Rightarrow> (Inl err, d)
            | Inr (vs, None) \<Rightarrow>
                (let applied = map fmt_04d vs
                 in (Inr (filter (\<lambda>f. version_prefix f \<notin> set applied) files), d))))))"

fun apply_loop :: "'d sql_db \<Rightarrow> migration_fs \<Rightarrow> string list \<Rightarrow> string list \<Rightarrow> 'd \<Rightarrow> (string list \<times> go_error option) \<times> 'd" where
  "apply_loop D F [] applied d = ((applied, None), d)"
| "apply_loop D F (f # fs) applied d =
     (case fs_ReadFile F f of
        Inl err \<Rightarrow> ((applied, Some (''db: read '' @ f @ '': '' @ err)), d)
      | Inr raw \<Rightarrow>
      (case db_Exec D raw d of
         (Some err, d) \<Rightarrow> ((applied, Some (''db: apply '' @ f @ '': '' @ err)), d)
       | (None, d) \<Rightarrow>
       (case Sscanf_d (version_prefix f) of
          None \<Rightarrow> ((applied, Some (''db: bad version in '' @ f)), d)
        | Some v \<Rightarrow>
        (case db_Record D v d of
           (Some err, d) \<Rightarrow> ((applied, Some (''db: record '' @ f @ '': '' @ err)), d)
         | (None, d) \<Rightarrow> apply_loop D F fs (applied @ [f]) d))))"

definition ApplyPending :: "'d sql_db \<Rightarrow> migration_fs \<Rightarrow> 'd \<Rightarrow> (string list \<times> go_error option) \<times> 'd" where
  "ApplyPending D F d =
     (case db_open D d of
        Some err \<Rightarrow> (([], Some err), d)
      | None \<Rightarrow>
          (case Pending D F d of
             (Inl err, d) \<Rightarrow> (([], Some err), d)
           | (Inr pending, d) \<Rightarrow> apply_loop D F pending [] d))"

definition migrator_Version :: "'d sql_db \<Rightarrow> 'd \<Rightarrow> (go_error + int) \<times> 'd" where
  "migrator_Version D d =
     (case db_open D d of
        Some err \<Rightarrow> (Inl err, d)
      | None \<Rightarrow>
          (case db_Ensure D d of
             (Some err, d) \<Rightarrow> (Inl err, d)
           | (None, d) \<Rightarrow>
               (case db_Max D d of
                  Inl err \<Rightarrow> (Inl (''db: version: '' @ err), d)
                | Inr v \<Rightarrow> (Inr (case v of None \<Rightarrow> 0 | Some n \<Rightarrow> n), d))))"

subsection \<open>What the database promises\<close>

text \<open>
  \<open>vers\<close> is the content of the table \<open>schema_migrations\<close>. The statements behave as documented for Postgres: the
  query returns the content, the insert adds one row or fails without effect, and no other statement
  touches the table.
\<close>

definition good_db :: "'d sql_db \<Rightarrow> ('d \<Rightarrow> int set) \<Rightarrow> bool" where
  "good_db D vers \<longleftrightarrow>
     (\<forall>d. vers (snd (db_Ensure D d)) = vers d)
     \<and> (\<forall>d vs. db_Versions D d = Inr (vs, None) \<longrightarrow> set vs = vers d)
     \<and> (\<forall>raw d. vers (snd (db_Exec D raw d)) = vers d)
     \<and> (\<forall>v d. vers (snd (db_Record D v d)) = (if fst (db_Record D v d) = None then insert v (vers d) else vers d))"

text \<open>A migration file is named by its version, padded to four digits, and an underscore.\<close>

definition file_version :: "string \<Rightarrow> int" where
  "file_version f = the (Sscanf_d (version_prefix f))"

definition numbered :: "string \<Rightarrow> bool" where
  "numbered f \<longleftrightarrow> (\<exists>v rest. f = pad_nat 4 v @ CHR ''_'' # rest \<and> int v < 2 ^ 63)"

lemma numberedD:
  assumes "numbered f"
  shows "version_prefix f = fmt_04d (file_version f)" "Sscanf_d (version_prefix f) = Some (file_version f)" "0 \<le> file_version f"
proof -
  obtain v rest where f: "f = pad_nat 4 v @ CHR ''_'' # rest" "int v < 2 ^ 63" using assms by (auto simp: numbered_def)
  have "\<forall>c \<in> set (pad_nat 4 v). c \<noteq> CHR ''_''" using pad_nat_chars by (fastforce simp: char_digit_def)
  then have p: "version_prefix f = pad_nat 4 v" by (simp add: version_prefix_def f takeWhile_append2)
  have "Sscanf_d (pad_nat 4 v) = Some (int v)" using Sscanf_d_digits [OF parse_pad_nat f(2), of "[]" 4] by simp
  then show "Sscanf_d (version_prefix f) = Some (file_version f)" "version_prefix f = fmt_04d (file_version f)" "0 \<le> file_version f"
    by (simp_all add: file_version_def p fmt_04d_def)
qed

lemma fmt_04d_inject: "0 \<le> w \<Longrightarrow> fmt_04d v = fmt_04d w \<longleftrightarrow> v = w"
proof -
  assume "0 \<le> w"
  have "CHR ''-'' # s \<noteq> pad_nat 4 n" for s n using pad_nat_chars [of "CHR ''-''" 4 n] by (auto simp: char_digit_def) (metis list.set_intros(1))
  with \<open>0 \<le> w\<close> show ?thesis by (auto simp: fmt_04d_def)
qed

subsection \<open>Pending and applied migrations\<close>

definition migrations :: "string list \<Rightarrow> string list" where
  "migrations names = sort (filter (\<lambda>e. has_suffix e ''.sql'') names)"

lemma Pending_result:
  assumes "good_db D vers" "fs_ReadDir F = Inr names" "\<forall>f \<in> set (migrations names). numbered f" "Pending D F d = (Inr ps, d')"
  shows "ps = filter (\<lambda>f. file_version f \<notin> vers d) (migrations names) \<and> vers d' = vers d"
proof -
  obtain vs where vs: "db_Versions D d' = Inr (vs, None)" "ps = filter (\<lambda>f. version_prefix f \<notin> set (map fmt_04d vs)) (migrations names)"
      "d' = snd (db_Ensure D d)"
    using assms(2,4) by (auto simp: Pending_def migrations_def Let_def split: option.splits sum.splits prod.splits)
  then have v: "set vs = vers d" "vers d' = vers d" using assms(1) by (auto simp: good_db_def)
  have "version_prefix f \<notin> set (map fmt_04d vs) \<longleftrightarrow> file_version f \<notin> vers d" if "f \<in> set (migrations names)" for f
  proof -
    have "numbered f" using assms(3) that by simp
    from fmt_04d_inject [OF numberedD(3) [OF this]] show ?thesis
      unfolding numberedD(1) [OF \<open>numbered f\<close>] set_map v(1) by (metis (no_types) imageE image_eqI)
  qed
  then have "filter (\<lambda>f. version_prefix f \<notin> set (map fmt_04d vs)) (migrations names) = filter (\<lambda>f. file_version f \<notin> vers d) (migrations names)"
    by (rule filter_cong [OF refl])
  with vs(2) v(2) show ?thesis by simp
qed

lemma apply_loop_result:
  assumes "good_db D vers" "\<forall>f \<in> set fs. numbered f" "apply_loop D F fs before d = ((applied, err), d')"
  shows "\<exists>now rest. applied = before @ now \<and> fs = now @ rest \<and> vers d' = vers d \<union> file_version ` set now \<and> (err = None \<longleftrightarrow> rest = [])"
  using assms(2,3)
proof (induction fs arbitrary: before d)
  case (Cons f fs)
  have stop: ?case if "applied = before" "err \<noteq> None" "vers d' = vers d"
    using that by (intro exI [of _ "[]"] exI [of _ "f # fs"]) simp
  obtain raw where raw: "fs_ReadFile F f = Inr raw \<or> (\<exists>e. fs_ReadFile F f = Inl e)" by (cases "fs_ReadFile F f") auto
  obtain e1 d1 where x: "db_Exec D raw d = (e1, d1)" by fastforce
  obtain e2 d2 where r: "db_Record D (file_version f) d1 = (e2, d2)" by fastforce
  have v1: "vers d1 = vers d" using assms(1) x by (metis good_db_def snd_conv)
  have v2: "vers d2 = (if e2 = None then insert (file_version f) (vers d) else vers d)"
    using assms(1) r v1 by (metis good_db_def fst_conv snd_conv)
  have n: "Sscanf_d (version_prefix f) = Some (file_version f)" using Cons.prems(1) numberedD(2) by simp
  show ?case
  proof (cases "fs_ReadFile F f = Inr raw \<and> e1 = None \<and> e2 = None")
    case True
    then have "apply_loop D F fs (before @ [f]) d2 = ((applied, err), d')" using Cons.prems(2) x r n by simp
    from Cons.IH [OF _ this] Cons.prems(1) obtain now rest where "applied = (before @ [f]) @ now" "fs = now @ rest"
        "vers d' = vers d2 \<union> file_version ` set now" "err = None \<longleftrightarrow> rest = []" by auto
    then show ?thesis using True v2 by (intro exI [of _ "f # now"] exI [of _ rest]) auto
  next
    case False
    then show ?thesis using Cons.prems(2) x r n v1 v2 raw by (intro stop) (auto split: option.splits)
  qed
qed auto

subsection \<open>Properties\<close>


text \<open>A database whose table is a list of versions, with the two first migrations of the repository.\<close>

definition list_db :: "(int list) sql_db" where
  "list_db = \<lparr>db_Open = (\<lambda>d. None), db_Ensure = (\<lambda>d. (None, d)), db_Versions = (\<lambda>d. Inr (d, None)),
     db_Max = (\<lambda>d. Inr (if d = [] then None else Some (Max (set d)))), db_Exec = (\<lambda>raw d. (None, d)), db_Record = (\<lambda>v d. (None, v # d))\<rparr>"

definition two_files :: migration_fs where
  "two_files = \<lparr>fs_ReadDir = Inr [''0002_b.sql'', ''0001_a.sql''], fs_ReadFile = (\<lambda>_. Inr [])\<rparr>"

lemma two_files_numbered:
  "migrations [''0002_b.sql'', ''0001_a.sql''] = [''0001_a.sql'', ''0002_b.sql'']"
  "numbered ''0001_a.sql''" "numbered ''0002_b.sql''" "file_version ''0001_a.sql'' = 1" "file_version ''0002_b.sql'' = 2"
proof -
  have pad: "pad_nat 4 1 = ''0001''" "pad_nat 4 2 = ''0002''" by code_simp+
  show "migrations [''0002_b.sql'', ''0001_a.sql''] = [''0001_a.sql'', ''0002_b.sql'']" by code_simp
  show "numbered ''0001_a.sql''" unfolding numbered_def by (rule exI [of _ 1]) (simp add: pad del: One_nat_def)
  show "numbered ''0002_b.sql''" unfolding numbered_def by (rule exI [of _ 2]) (simp add: pad)
  show "file_version ''0001_a.sql'' = 1" "file_version ''0002_b.sql'' = 2" by code_simp+
qed


end
