(* ===== verification/Boot.thy ===== *)
theory Boot
  imports Registry Sim_Api Migrator
begin

section \<open>Process wiring (internal/boot, cmd/tide-api)\<close>

text \<open>
  How the two processes are put together: the choice between the services and their memory fallbacks, the rules
  published at start, the durable log, and what the API process does with events from the engine. The outcomes
  of opening Postgres, migrating, pinging Redis and connecting to NATS are arguments, as are the environment, the
  files and the decoders.
\<close>

subsection \<open>Rules at start\<close>

definition newDispatcher :: "(string \<Rightarrow> string) \<Rightarrow> dispatcher" where
  "newDispatcher getenv =
     (if getenv ''TIDE_WEBHOOK_ALLOW_PRIVATE'' = ''1'' then NewDispatcher\<lparr>dp_AllowPrivate := True\<rparr> else NewDispatcher)"

text \<open>The YAML text of the rule that ships with the engine.\<close>

definition yaml_lines :: "string list \<Rightarrow> string" where
  "yaml_lines ls = CHR 0x0A # concat (map (\<lambda>l. l @ [CHR 0x0A]) ls)"

definition DefaultSpeedingRule :: string where
  "DefaultSpeedingRule = yaml_lines
     [''id: speeding-alert'', ''version: v1'', ''when:'', ''  eventType: vehicle.speeding.started'', ''then:'',
      ''  emit: incident.created'', ''cooldownSecs: 60'', ''maxActionsPerHour: 100'']"

text \<open>\<open>glob dir pattern\<close> stands for \<open>filepath.Glob\<close> of the joined path.\<close>

definition ruleFiles :: "(string \<Rightarrow> string) \<Rightarrow> (string \<Rightarrow> string \<Rightarrow> string list) \<Rightarrow> string list" where
  "ruleFiles getenv glob =
     (let dir = (if getenv ''TIDE_RULES'' = [] then ''rules'' else getenv ''TIDE_RULES'')
      in glob dir ''*.yaml'' @ glob dir ''*.yml'')"

definition publish_default :: "(string \<Rightarrow> string) \<Rightarrow> (string \<Rightarrow> go_error + spec) \<Rightarrow> time \<Rightarrow> engine \<Rightarrow> engine" where
  "publish_default getenv yaml now e =
     (case ParseSpec yaml DefaultSpeedingRule of
        Inl _ \<Rightarrow> e
      | Inr sp \<Rightarrow>
          (let url = getenv ''TIDE_DEFAULT_WEBHOOK'';
               sp = (if url \<noteq> [] then sp\<lparr>sc_Then := (sc_Then sp)\<lparr>th_Webhook := url, th_Secret := getenv ''TIDE_DEFAULT_WEBHOOK_SECRET''\<rparr>\<rparr> else sp)
           in snd (Engine_Publish sp now e)))"

text \<open>\<open>clock\<close> is the time when the n-th of the remaining files is published.\<close>

fun publish_files :: "(string \<Rightarrow> go_error + string) \<Rightarrow> (string \<Rightarrow> go_error + spec) \<Rightarrow> (nat \<Rightarrow> time) \<Rightarrow> string list \<Rightarrow> engine \<Rightarrow> engine" where
  "publish_files readFile yaml clock [] e = e"
| "publish_files readFile yaml clock (f # fs) e =
     (case readFile f of
        Inl _ \<Rightarrow> publish_files readFile yaml clock fs e
      | Inr raw \<Rightarrow>
          (case ParseSpec yaml raw of
             Inl _ \<Rightarrow> publish_files readFile yaml clock fs e
           | Inr sp \<Rightarrow> publish_files readFile yaml clock fs (snd (Engine_Publish sp (clock (length fs)) e))))"

record boot_files =
  bf_getenv :: "string \<Rightarrow> string"
  bf_glob :: "string \<Rightarrow> string \<Rightarrow> string list"
  bf_readFile :: "string \<Rightarrow> go_error + string"
  bf_yaml :: "string \<Rightarrow> go_error + spec"
  bf_clock :: "nat \<Rightarrow> time"

definition boot_rules :: "boot_files \<Rightarrow> engine" where
  "boot_rules B =
     publish_files (bf_readFile B) (bf_yaml B) (bf_clock B) (ruleFiles (bf_getenv B) (bf_glob B))
       (publish_default (bf_getenv B) (bf_yaml B) (bf_clock B 0) (NewEngine True))"

subsection \<open>The durable log\<close>

text \<open>\<open>app\<close> stands for \<open>AppendTelemetry\<close> of the store on its state \<open>'g\<close>; its error is logged and dropped.\<close>

record 'g pg_log =
  pl_pg :: 'g
  pl_mem :: "telemetry list"

definition pgLog_Append :: "(telemetry \<Rightarrow> 'g \<Rightarrow> go_error option \<times> 'g) \<Rightarrow> telemetry \<Rightarrow> 'g pg_log \<Rightarrow> go_error option \<times> 'g pg_log" where
  "pgLog_Append app t l =
     (let (_, m) = MemoryLog_Append t (pl_mem l); (_, g) = app t (pl_pg l) in (None, l\<lparr>pl_mem := m, pl_pg := g\<rparr>))"

definition pgLog_All :: "'g pg_log \<Rightarrow> telemetry list" where
  "pgLog_All l = pl_mem l"

datatype 'g log_sink = MemSink "telemetry list" | PgSink "'g pg_log"

definition logSink :: "'g option \<Rightarrow> 'g log_sink" where
  "logSink pg = (case pg of None \<Rightarrow> MemSink [] | Some g \<Rightarrow> PgSink \<lparr>pl_pg = g, pl_mem = []\<rparr>)"

subsection \<open>Build\<close>

definition pingRedis :: "(string \<Rightarrow> (vehicle_state \<times> bool) \<times> go_error option) \<Rightarrow> bool" where
  "pingRedis get = (snd (get ''__boot_ping__'') = None)"

text \<open>What the services answer at start: the opened store, the migrations, the ping, the connection.\<close>

record ('g, 'b) services =
  sv_Open :: "go_error + 'g"
  sv_ApplyPending :: "string list \<times> go_error option"
  sv_RedisGet :: "string \<Rightarrow> (vehicle_state \<times> bool) \<times> go_error option"
  sv_NATS :: "go_error + 'b"

record ('g, 'b) boot_bundle =
  bd_PG :: "'g option"
  bd_Redis :: bool
  bd_NATSBus :: "'b resilient_bus option"
  bd_NATSUp :: bool
  bd_MemBus :: memory_bus
  bd_Log :: "'g log_sink"
  bd_Dispatcher :: dispatcher
  bd_Rules :: engine
  bd_Geo :: geo_tracker
  bd_Detectors :: tracker

text \<open>\<open>bd_Redis\<close> tells whether hot state and dedup are the Redis stores or the memory ones.\<close>

definition Build :: "boot_files \<Rightarrow> ('g, 'b) services \<Rightarrow> ('g, 'b) boot_bundle" where
  "Build B S =
     (let pg = (case sv_Open S of Inl _ \<Rightarrow> None | Inr g \<Rightarrow> if snd (sv_ApplyPending S) \<noteq> None then None else Some g);
          nats = (case sv_NATS S of Inl _ \<Rightarrow> None | Inr nb \<Rightarrow> Some (NewResilientBus nb))
      in \<lparr>bd_PG = pg, bd_Redis = pingRedis (sv_RedisGet S), bd_NATSBus = nats, bd_NATSUp = (nats \<noteq> None),
          bd_MemBus = [], bd_Log = logSink pg, bd_Dispatcher = newDispatcher (bf_getenv B), bd_Rules = boot_rules B,
          bd_Geo = NewGeoTracker [], bd_Detectors = NewTracker DefaultDetConfig\<rparr>)"

text \<open>
  The operations of a pipeline whose log is a \<open>pgLog\<close>: the memory log is the one of the given operations, the
  store is the second component.
\<close>

definition with_pg_log :: "(telemetry \<Rightarrow> 'g \<Rightarrow> go_error option \<times> 'g) \<Rightarrow> 'p pipeline_ops \<Rightarrow> ('p \<times> 'g) pipeline_ops" where
  "with_pg_log app ops =
     \<lparr>po_Seen = (\<lambda>k (p, g). let (r, p) = po_Seen ops k p in (r, p, g)),
      po_Append = (\<lambda>t (p, g). let (_, p) = po_Append ops t p; (_, g) = app t g in (None, p, g)),
      po_Get = (\<lambda>v (p, g). po_Get ops v p),
      po_Set = (\<lambda>s (p, g). let (err, p) = po_Set ops s p in (err, p, g)),
      po_Detect = (\<lambda>t s (p, g). let (p, evs) = po_Detect ops t s p in ((p, g), evs)),
      po_Geo = map_option (\<lambda>f t (p, g). let (p, evs) = f t p in ((p, g), evs)) (po_Geo ops),
      po_Rules = map_option (\<lambda>f t s evs (p, g). let (p, out) = f t s evs p in ((p, g), out)) (po_Rules ops),
      po_Publish = (\<lambda>e (p, g). let (err, p) = po_Publish ops e p in (err, p, g))\<rparr>"

subsection \<open>Refinement of a pipeline\<close>

text \<open>
  When every operation of one pipeline keeps an invariant and does, on the abstraction of its state, what the
  operation of another does, so does \<open>Process\<close>. \<open>Set\<close> may promise this for some vehicle states only.
\<close>

locale process_refinement =
  fixes ops :: "'c pipeline_ops" and ops' :: "'a pipeline_ops" and abs :: "'c \<Rightarrow> 'a"
    and inv :: "'c \<Rightarrow> bool" and ok :: "vehicle_state \<Rightarrow> bool"
  assumes seen: "inv p \<Longrightarrow> po_Seen ops' k (abs p) = apsnd abs (po_Seen ops k p) \<and> inv (snd (po_Seen ops k p))"
    and append_op: "inv p \<Longrightarrow> po_Append ops' t (abs p) = apsnd abs (po_Append ops t p) \<and> inv (snd (po_Append ops t p))"
    and get_op: "inv p \<Longrightarrow> po_Get ops' v (abs p) = po_Get ops v p"
    and set_op: "inv p \<Longrightarrow> ok s \<Longrightarrow> po_Set ops' s (abs p) = apsnd abs (po_Set ops s p) \<and> inv (snd (po_Set ops s p))"
    and detect: "inv p \<Longrightarrow> po_Detect ops' t s (abs p) = apfst abs (po_Detect ops t s p) \<and> inv (fst (po_Detect ops t s p))"
    and geo_off: "po_Geo ops = None \<longleftrightarrow> po_Geo ops' = None"
    and geo: "inv p \<Longrightarrow> po_Geo ops = Some f \<Longrightarrow> po_Geo ops' = Some f' \<Longrightarrow> f' t (abs p) = apfst abs (f t p) \<and> inv (fst (f t p))"
    and rules_off: "po_Rules ops = None \<longleftrightarrow> po_Rules ops' = None"
    and rules: "inv p \<Longrightarrow> po_Rules ops = Some h \<Longrightarrow> po_Rules ops' = Some h'
      \<Longrightarrow> h' t s evs (abs p) = apfst abs (h t s evs p) \<and> inv (fst (h t s evs p))"
    and publish: "inv p \<Longrightarrow> po_Publish ops' e (abs p) = apsnd abs (po_Publish ops e p) \<and> inv (snd (po_Publish ops e p))"
begin

lemma publish_all_refines:
  "inv p \<Longrightarrow> publish_all (po_Publish ops') es (abs p) = apsnd abs (publish_all (po_Publish ops) es p)
    \<and> inv (snd (publish_all (po_Publish ops) es p))"
proof (induction es arbitrary: p)
  case (Cons e es)
  obtain err q where "po_Publish ops e p = (err, q)" by fastforce
  then show ?case using Cons.IH [of q] publish [OF Cons.prems, of e] Cons.prems by (cases err) simp_all
qed simp

lemma detect_and_publish_refines:
  assumes "inv p"
  shows "detect_and_publish ops' t s (abs p) = apsnd abs (detect_and_publish ops t s p) \<and> inv (snd (detect_and_publish ops t s p))"
proof -
  obtain p1 evs1 where d: "po_Detect ops t s p = (p1, evs1)" by fastforce
  define geo_of where "geo_of = (\<lambda>(p, evs). case po_Geo ops of None \<Rightarrow> (p, evs) | Some f \<Rightarrow> (let (p, g) = f t p in (p, evs @ g)))"
  define rls_of where "rls_of = (\<lambda>(p, evs). case po_Rules ops of None \<Rightarrow> (p, evs) | Some f \<Rightarrow> (let (p, r) = f t s evs p in (p, evs @ r)))"
  have g: "(case po_Geo ops' of None \<Rightarrow> (abs p, evs) | Some f \<Rightarrow> (let (p, g) = f t (abs p) in (p, evs @ g))) = apfst abs (geo_of (p, evs))
      \<and> inv (fst (geo_of (p, evs)))" if "inv p" for p evs
    using that geo_off geo [OF that, of "the (po_Geo ops)" "the (po_Geo ops')" t]
    by (cases "po_Geo ops"; cases "po_Geo ops'") (simp_all add: geo_of_def case_prod_beta)
  have r: "(case po_Rules ops' of None \<Rightarrow> (abs p, evs) | Some f \<Rightarrow> (let (p, r) = f t s evs (abs p) in (p, evs @ r))) = apfst abs (rls_of (p, evs))
      \<and> inv (fst (rls_of (p, evs)))" if "inv p" for p evs
    using that rules_off rules [OF that, of "the (po_Rules ops)" "the (po_Rules ops')" t s evs]
    by (cases "po_Rules ops"; cases "po_Rules ops'") (simp_all add: rls_of_def case_prod_beta)
  obtain p2 evs2 p3 evs3 where 2: "geo_of (p1, evs1) = (p2, evs2)" "rls_of (p2, evs2) = (p3, evs3)" by (metis prod.collapse)
  obtain err q where 3: "publish_all (po_Publish ops) evs3 p3 = (err, q)" by fastforce
  have i: "inv p1" "inv p2" "inv p3"
    using detect [OF assms, of t s] g [of p1 evs1] r [of p2 evs2] by (simp_all add: d 2)
  have "detect_and_publish ops t s p = (case err of Some err \<Rightarrow> ((evs3, False, Some (PublishError evs3 err)), q) | None \<Rightarrow> ((evs3, False, None), q))"
    using 2 by (simp add: detect_and_publish_def d geo_of_def rls_of_def 3)
  moreover have "detect_and_publish ops' t s (abs p) = (case err of Some err \<Rightarrow> ((evs3, False, Some (PublishError evs3 err)), abs q) | None \<Rightarrow> ((evs3, False, None), abs q))"
    using g [OF i(1), of evs1] r [OF i(2), of evs2] 2 3 publish_all_refines [OF i(3), of evs3] detect [OF assms, of t s]
    by (simp add: detect_and_publish_def d)
  moreover have "inv q" using publish_all_refines [OF i(3), of evs3] by (simp add: 3)
  ultimately show ?thesis by (simp split: option.split)
qed

lemma process_refines:
  assumes "inv p" and next_ok: "\<And>p. inv p \<Longrightarrow> ok (fst (Apply (ck_apply clk) (fst (fst (po_Get ops (tel_VehicleID t) p))) t))"
  shows "Process L ops' clk t (abs p) = apsnd abs (Process L ops clk t p) \<and> inv (snd (Process L ops clk t p))"
proof -
  obtain dup e1 p1 where s: "po_Seen ops (DedupKey L t) p = ((dup, e1), p1)" by (metis prod.collapse)
  obtain e2 p2 where a: "po_Append ops t p1 = (e2, p2)" by fastforce
  obtain prev fnd e3 where g: "po_Get ops (tel_VehicleID t) p2 = ((prev, fnd), e3)" by (metis prod.collapse)
  obtain nx tr where n: "Apply (ck_apply clk) prev t = (nx, tr)" by fastforce
  obtain e4 p4 where st: "po_Set ops nx p2 = (e4, p4)" by fastforce
  have 1: "po_Seen ops' (DedupKey L t) (abs p) = ((dup, e1), abs p1)" "inv p1" using seen [OF assms(1), of "DedupKey L t"] by (simp_all add: s)
  have 2: "po_Append ops' t (abs p1) = (e2, abs p2)" "inv p2" using append_op [OF 1(2), of t] by (simp_all add: a)
  have 3: "po_Get ops' (tel_VehicleID t) (abs p2) = ((prev, fnd), e3)" using get_op [OF 2(2)] by (simp add: g)
  have 4: "po_Set ops' nx (abs p2) = (e4, abs p4)" "inv p4" using set_op [OF 2(2), of nx] next_ok [OF 2(2)] by (simp_all add: g n st)
  show ?thesis
    by (cases "telemetry_Validate t"; cases "ck_skew clk + MaxFutureSkew < tel_Timestamp t"; cases e1; cases dup; cases e2; cases e3; cases e4)
      (simp_all add: Process_def s 1 a 2 g 3 n st 4 detect_and_publish_refines assms(1))
qed

end

interpretation pg: process_refinement "with_pg_log app (mem_ops L ord disp clk p0)" "mem_ops L ord disp clk p0" fst "\<lambda>_. True" "\<lambda>_. True"
  for app L ord disp clk p0
  by unfold_locales (auto simp: with_pg_log_def mem_ops_def MemoryLog_Append_def case_prod_beta Let_def split: if_splits)

lemma with_pg_log_ops:
  "po_Seen (with_pg_log app ops) k (p, g) = (fst (po_Seen ops k p), snd (po_Seen ops k p), g)"
  "po_Append (with_pg_log app ops) t (p, g) = (None, snd (po_Append ops t p), snd (app t g))"
  "po_Get (with_pg_log app ops) v (p, g) = po_Get ops v p"
  "po_Set (with_pg_log app ops) s (p, g) = (fst (po_Set ops s p), snd (po_Set ops s p), g)"
  "po_Detect (with_pg_log app ops) t s (p, g) = ((fst (po_Detect ops t s p), g), snd (po_Detect ops t s p))"
  "po_Publish (with_pg_log app ops) e (p, g) = (fst (po_Publish ops e p), snd (po_Publish ops e p), g)"
  "po_Geo (with_pg_log app ops) = map_option (\<lambda>f t (p, g). ((fst (f t p), g), snd (f t p))) (po_Geo ops)"
  "po_Rules (with_pg_log app ops) = map_option (\<lambda>f t s evs (p, g). ((fst (f t s evs p), g), snd (f t s evs p))) (po_Rules ops)"
  by (simp_all add: with_pg_log_def case_prod_beta)

lemma with_pg_log_publish_all:
  "snd (snd (publish_all (po_Publish (with_pg_log app ops)) es (p, g))) = g"
proof (induction es arbitrary: p)
  case (Cons e es)
  then show ?case by (simp add: with_pg_log_ops split: option.split)
qed simp

lemma with_pg_log_detect: "snd (snd (detect_and_publish (with_pg_log app ops) t s (p, g))) = g"
  using with_pg_log_publish_all [of app ops]
  by (cases "po_Geo ops"; cases "po_Rules ops")
    (simp_all add: detect_and_publish_def with_pg_log_ops(5,7,8) case_prod_beta Let_def split: option.split)

lemma with_pg_log_store:
  "snd (snd (Process L (with_pg_log app (mem_ops L ord disp clk p)) clk t (p, g))) =
     (if accepted clk t \<and> \<not> duplicate L clk t p then snd (app t g) else g)"
proof (cases "accepted clk t")
  case True
  let ?ops = "mem_ops L ord disp clk p"
  obtain q where s: "po_Seen ?ops (DedupKey L t) p = ((duplicate L clk t p, None), q)"
    using MemoryStore_Seen_cases [of "ck_seen clk" "DedupKey L t" "mp_dedup p"]
    by (cases "duplicate L clk t p") (simp_all add: duplicate_def mem_ops_def)
  obtain e2 p2 where a: "po_Append ?ops t q = (e2, p2)" by fastforce
  obtain prev fnd where g: "po_Get ?ops (tel_VehicleID t) p2 = ((prev, fnd), None)"
    by (cases "mp_states p2 (tel_VehicleID t)") (auto simp: mem_ops_def MemoryStore_Get_def)
  obtain nx tr where n: "Apply (ck_apply clk) prev t = (nx, tr)" by fastforce
  obtain p4 where st: "po_Set ?ops nx p2 = (None, p4)" by (simp add: mem_ops_def MemoryStore_Set_def)
  show ?thesis using True
    by (cases "duplicate L clk t p") (simp_all add: Process_def accepted_def with_pg_log_ops s a g n st with_pg_log_detect)
qed (auto simp: Process_def accepted_def split: option.splits)

subsection \<open>Rules published at start\<close>

text \<open>The specs that are offered for publication, in order.\<close>

definition default_specs :: "boot_files \<Rightarrow> spec list" where
  "default_specs B =
     (case ParseSpec (bf_yaml B) DefaultSpeedingRule of
        Inl _ \<Rightarrow> []
      | Inr sp \<Rightarrow> [if bf_getenv B ''TIDE_DEFAULT_WEBHOOK'' = [] then sp
                  else sp\<lparr>sc_Then := (sc_Then sp)\<lparr>th_Webhook := bf_getenv B ''TIDE_DEFAULT_WEBHOOK'',
                         th_Secret := bf_getenv B ''TIDE_DEFAULT_WEBHOOK_SECRET''\<rparr>\<rparr>])"

definition boot_specs :: "boot_files \<Rightarrow> spec list" where
  "boot_specs B = default_specs B
     @ List.map_filter (\<lambda>f. case bf_readFile B f of Inl _ \<Rightarrow> None
         | Inr raw \<Rightarrow> (case ParseSpec (bf_yaml B) raw of Inl _ \<Rightarrow> None | Inr sp \<Rightarrow> Some sp)) (ruleFiles (bf_getenv B) (bf_glob B))"

lemma find_append: "find P (xs @ ys) = (case find P xs of Some x \<Rightarrow> Some x | None \<Rightarrow> find P ys)"
  by (induction xs) auto

lemma publish_first_wins:
  "map_option rl_Spec (en_rules (snd (Engine_Publish sp now e)) k) =
     (case map_option rl_Spec (en_rules e k) of Some s \<Rightarrow> Some s | None \<Rightarrow> if rule_key sp = k then Some sp else None)"
  by (auto simp: Engine_Publish_def Let_def dest: spec_DeepEqual_eq split: option.split)

lemma publish_default_first_wins:
  "map_option rl_Spec (en_rules (publish_default (bf_getenv B) (bf_yaml B) now (NewEngine b)) k) = find (\<lambda>sp. rule_key sp = k) (default_specs B)"
proof (cases "ParseSpec (bf_yaml B) DefaultSpeedingRule")
  case (Inr sp)
  have "en_rules (NewEngine b) k = None" by (simp add: NewEngine_def)
  then show ?thesis by (simp add: publish_default_def default_specs_def Inr Let_def publish_first_wins)
qed (simp add: publish_default_def default_specs_def NewEngine_def)

lemma publish_files_first_wins:
  "map_option rl_Spec (en_rules (publish_files readFile yaml clock fs e) k) =
     (case map_option rl_Spec (en_rules e k) of Some s \<Rightarrow> Some s
      | None \<Rightarrow> find (\<lambda>sp. rule_key sp = k) (List.map_filter (\<lambda>f. case readFile f of Inl _ \<Rightarrow> None
         | Inr raw \<Rightarrow> (case ParseSpec yaml raw of Inl _ \<Rightarrow> None | Inr sp \<Rightarrow> Some sp)) fs))"
proof (induction fs arbitrary: e)
  case (Cons f fs)
  show ?case
  proof (cases "case readFile f of Inl _ \<Rightarrow> None | Inr raw \<Rightarrow> (case ParseSpec yaml raw of Inl _ \<Rightarrow> None | Inr sp \<Rightarrow> Some sp)")
    case None
    then have "publish_files readFile yaml clock (f # fs) e = publish_files readFile yaml clock fs e" by (auto split: sum.splits)
    then show ?thesis by (simp only: Cons.IH None map_filter_simps option.case)
  next
    case (Some sp)
    then have "publish_files readFile yaml clock (f # fs) e = publish_files readFile yaml clock fs (snd (Engine_Publish sp (clock (length fs)) e))"
      by (auto split: sum.splits)
    then show ?thesis by (simp only: Cons.IH Some map_filter_simps option.case publish_first_wins) (simp split: option.split)
  qed
qed (simp add: map_filter_simps split: option.split)

subsection \<open>Properties\<close>


text \<open>The first publication wins. After start, every rule key holds the spec that came first under that key: the
  default rule, then the rule files in order; files that cannot be read or parsed and later contents under a key
  change nothing.\<close>

lemma boot_rules_first_wins:
  "map_option rl_Spec (en_rules (boot_rules B) k) = find (\<lambda>sp. rule_key sp = k) (boot_specs B)"
  unfolding boot_rules_def boot_specs_def publish_files_first_wins publish_default_first_wins find_append ..

end
