(* ===== verification/Serve.thy ===== *)
theory Serve
  imports Boot
begin

section \<open>The API process (cmd/tide-api, routing of internal/api)\<close>

text \<open>
  The HTTP server as one function from a request to what becomes of it: the security headers around the method
  filter around the mux, the rate limiter in front of ingestion and simulation, and the handlers of the other
  theories; and what the process does with messages from the engine. A request path is the escaped path without
  escape sequences. The readings of the clock, the decoders, the services and the redirect reply of the mux are the
  fields of \<open>api_env\<close>.
\<close>

subsection \<open>The mux\<close>

text \<open>\<open>net/http\<close> cleans a path before matching: empty and dot segments are dropped, double dots go up.\<close>

definition clean_segs :: "string list \<Rightarrow> string list" where
  "clean_segs segs = foldl (\<lambda>acc seg. if seg = [] \<or> seg = ''.'' then acc else if seg = ''..'' then butlast acc else acc @ [seg]) [] segs"

definition cleanPath :: "string \<Rightarrow> string" where
  "cleanPath p =
     (let np = CHR ''/'' # join_with (CHR ''/'') (clean_segs (split_on (CHR ''/'') p))
      in if p \<noteq> [] \<and> last p = CHR ''/'' \<and> np \<noteq> ''/'' then np @ ''/'' else np)"

datatype route = RHealthz | RReadyz | RIngest | REvents | RVehicle | RGeofences | RTriggers | RConnections
  | RSimulate | RSimStatus | RStream | RRedirect string | RNotFound

text \<open>The patterns of \<open>New\<close>; a pattern that ends in a slash matches every path below it.\<close>

definition patterns :: "(string \<times> route) list" where
  "patterns =
     [(''/healthz'', RHealthz), (''/readyz'', RReadyz), (''/v1/telemetry'', RIngest), (''/v1/telemetry:batch'', RIngest),
      (''/v1/events'', REvents), (''/v1/vehicles/'', RVehicle), (''/v1/geofences'', RGeofences),
      (''/v1/rules/triggers'', RTriggers), (''/v1/connections'', RConnections), (''/v1/simulate'', RSimulate),
      (''/v1/simulate/'', RSimStatus), (''/v1/stream'', RStream)]"

definition match_path :: "string \<Rightarrow> route option" where
  "match_path p =
     (case map_of patterns p of
        Some r \<Rightarrow> Some r
      | None \<Rightarrow> map_option snd (find (\<lambda>(pat, r). last pat = CHR ''/'' \<and> has_prefix p pat) patterns))"

definition route_of :: "string \<Rightarrow> route" where
  "route_of path =
     (let p = cleanPath path
      in case match_path p of
           Some r \<Rightarrow> if p \<noteq> path then RRedirect p else r
         | None \<Rightarrow> (case match_path (p @ ''/'') of Some _ \<Rightarrow> RRedirect (p @ ''/'') | None \<Rightarrow> if p \<noteq> path then RRedirect p else RNotFound))"

subsection \<open>The server\<close>

record api_request =
  ar_Method :: string
  ar_Path :: string
  ar_Query :: "string \<Rightarrow> string"
  ar_Body :: string
  ar_RemoteAddr :: string

record ('p, 'g, 'c) api_server =
  as_limiter :: rate_limiter
  as_p :: 'p
  as_fences :: "'g geofence_store \<times> geo_tracker"
  as_registry :: adapter_registry
  as_sims :: sim_registry
  as_started :: "(string \<times> sim_job) list"
  as_hub :: "'c hub"

record ('p, 'g, 'c) api_env =
  ae_now :: time
  ae_now2 :: time
  ae_splitHostPort :: "string \<Rightarrow> string option"
  ae_ingest :: "'p ingest_env"
  ae_recent :: "(string \<Rightarrow> string \<Rightarrow> string \<Rightarrow> go_error + event list) option"
  ae_bus :: "'p \<Rightarrow> memory_bus option"
  ae_get :: "'p \<Rightarrow> string \<Rightarrow> (vehicle_state \<times> bool) \<times> go_error option"
  ae_addPG :: "geofence \<Rightarrow> (float64 \<times> float64) list \<Rightarrow> 'g \<Rightarrow> go_error option \<times> 'g"
  ae_decodeFence :: "string \<Rightarrow> geofence option"
  ae_engine :: "'p \<Rightarrow> engine"
  ae_ord :: "string set \<Rightarrow> string list"
  ae_sims :: sim_files
  ae_upgrade :: "reply + 'c"
  ae_redirect :: "string \<Rightarrow> reply"

text \<open>The two limited handlers, on the whole server.\<close>

definition serve_ingest :: "('p, 'g, 'c) api_env \<Rightarrow> api_request \<Rightarrow> ('p, 'g, 'c) api_server \<Rightarrow> reply \<times> ('p, 'g, 'c) api_server" where
  "serve_ingest E r s = (let (rep, p) = handleIngest (ae_ingest E) (ar_Method r) (ar_Body r) (as_p s) in (rep, s\<lparr>as_p := p\<rparr>))"

definition serve_simulate :: "('p, 'g, 'c) api_env \<Rightarrow> api_request \<Rightarrow> ('p, 'g, 'c) api_server \<Rightarrow> reply \<times> ('p, 'g, 'c) api_server" where
  "serve_simulate E r s =
     (let (rep, sims, job) = handleSimulate (ae_sims E) (ar_Method r) (ar_Body r) (as_sims s)
      in (rep, s\<lparr>as_sims := sims, as_started := as_started s @ (case job of None \<Rightarrow> [] | Some j \<Rightarrow> [j])\<rparr>))"

definition limited ::
  "('p, 'g, 'c) api_env \<Rightarrow> (api_request \<Rightarrow> ('p, 'g, 'c) api_server \<Rightarrow> reply \<times> ('p, 'g, 'c) api_server) \<Rightarrow> api_request
    \<Rightarrow> ('p, 'g, 'c) api_server \<Rightarrow> outcome \<times> ('p, 'g, 'c) api_server" where
  "limited E handler r s =
     (let (out, l, s) = limiter_middleware handler (ae_now E) (ae_now2 E) (clientIP (ae_splitHostPort E) (ar_RemoteAddr r)) r (as_limiter s) s
      in (out, s\<lparr>as_limiter := l\<rparr>))"

text \<open>A new WebSocket connection is added to the hub; its read loop removes it when it ends.\<close>

definition handleStream :: "('p, 'g, 'c) api_env \<Rightarrow> ('p, 'g, 'c) api_server \<Rightarrow> outcome \<times> ('p, 'g, 'c) api_server" where
  "handleStream E s = (case ae_upgrade E of Inl rep \<Rightarrow> (Replied rep, s) | Inr c \<Rightarrow> (Hijacked, s\<lparr>as_hub := Hub_Add c (as_hub s)\<rparr>))"

definition stream_closed :: "'c \<Rightarrow> ('p, 'g, 'c) api_server \<Rightarrow> ('p, 'g, 'c) api_server" where
  "stream_closed c s = s\<lparr>as_hub := Hub_Remove c (as_hub s)\<rparr>"

definition text_reply :: "string \<Rightarrow> reply" where
  "text_reply msg = \<lparr>ry_Status = 200, ry_Header = [], ry_Body = TextBody msg\<rparr>"

definition mux ::
  "('p, 'g, 'c) api_env \<Rightarrow> api_request \<Rightarrow> ('p, 'g, 'c) api_server \<Rightarrow> outcome \<times> ('p, 'g, 'c) api_server" where
  "mux E r s =
     (case route_of (ar_Path r) of
        RHealthz \<Rightarrow> (Replied (text_reply ''ok''), s)
      | RReadyz \<Rightarrow> (Replied (text_reply ''ready''), s)
      | RIngest \<Rightarrow> limited E (serve_ingest E) r s
      | REvents \<Rightarrow> (Replied (handleEvents (ae_recent E) (ae_bus E (as_p s)) (ar_Query r ''tenant'') (ar_Query r ''vehicle'') (ar_Query r ''type'')), s)
      | RVehicle \<Rightarrow> (Replied (handleVehicle (ae_get E (as_p s)) (ar_Path r)), s)
      | RGeofences \<Rightarrow>
          (let (rep, f) = handleGeofences (ae_addPG E) (ae_decodeFence E) (ar_Method r) (ar_Body r) (as_fences s)
           in (Replied rep, s\<lparr>as_fences := f\<rparr>))
      | RTriggers \<Rightarrow> (Replied (handleTriggers (ae_engine E (as_p s))), s)
      | RConnections \<Rightarrow> (Replied (handleConnections (ae_ord E) (ae_now E) (ae_now2 E) (as_registry s)), s)
      | RSimulate \<Rightarrow> limited E (serve_simulate E) r s
      | RSimStatus \<Rightarrow>
          (let (rep, sims) = handleSimStatus (ar_Method r) (ar_Path r) (as_sims s) in (Replied rep, s\<lparr>as_sims := sims\<rparr>))
      | RStream \<Rightarrow> handleStream E s
      | RRedirect loc \<Rightarrow> (Replied (ae_redirect E loc), s)
      | RNotFound \<Rightarrow> (Replied (http_Error ''404 page not found'' 404), s))"

definition Handler ::
  "('p, 'g, 'c) api_env \<Rightarrow> api_request \<Rightarrow> ('p, 'g, 'c) api_server \<Rightarrow> outcome \<times> ('p, 'g, 'c) api_server" where
  "Handler E = securityHeaders (\<lambda>r. denyTrace (\<lambda>_. mux E r) (ar_Method r))"

text \<open>\<open>New\<close>: an absent limiter is replaced by 600 requests per minute.\<close>

definition server_New :: "rate_limiter option \<Rightarrow> 'p \<Rightarrow> 'g geofence_store \<times> geo_tracker \<Rightarrow> adapter_registry option \<Rightarrow> ('p, 'g, 'c) api_server" where
  "server_New limiter p fences reg =
     \<lparr>as_limiter = (case limiter of None \<Rightarrow> NewRateLimiter 600 Minute | Some l \<Rightarrow> l), as_p = p, as_fences = fences,
      as_registry = (case reg of None \<Rightarrow> Map.empty | Some r \<Rightarrow> r), as_sims = newSimRegistry, as_started = [], as_hub = {}\<rparr>"

definition rateLimiterFromEnv :: "(string \<Rightarrow> string) \<Rightarrow> rate_limiter option" where
  "rateLimiterFromEnv getenv =
     (let v = TrimSpace (getenv ''TIDE_RATE_LIMIT_PER_MIN'')
      in if v = [] then None
         else case ParseInt64 v of
           None \<Rightarrow> None
         | Some n \<Rightarrow> if n < 0 then None else Some (NewRateLimiter n Minute))"

subsection \<open>Messages from the engine\<close>

definition heartbeatStatus :: "string \<Rightarrow> string \<Rightarrow> health_status" where
  "heartbeatStatus st msg =
     \<lparr>hs_State = (if st \<in> {StateHealthy, StateConfigured, StateConnecting, StateDegraded, StateReconnecting, StateFailed}
                  then st else StateConfigured),
      hs_Message = msg, hs_DeviceCount = 0, hs_MsgPerSec = Fin 0\<rparr>"

text \<open>The callback of the subscription: heartbeats update the registry, other events are injected.\<close>

definition forward ::
  "(string \<Rightarrow> go_error + event) \<Rightarrow> (event \<Rightarrow> 's \<Rightarrow> 's) \<Rightarrow> time \<Rightarrow> string \<Rightarrow> adapter_registry \<times> 's \<Rightarrow> adapter_registry \<times> 's" where
  "forward unmarshal inject now raw s =
     (case unmarshal raw of
        Inl _ \<Rightarrow> s
      | Inr e \<Rightarrow>
          if ev_Type e = ''tide.heartbeat.created''
          then (let name = str_at (ev_Payload e) ''name''; st = str_at (ev_Payload e) ''state''
                in if name \<noteq> [] then (AdapterRegistry_Set now name (heartbeatStatus st ''via tide.heartbeat'') (fst s), snd s) else s)
          else (fst s, inject e (snd s)))"

definition bus_health :: "time \<Rightarrow> 'b resilient_bus \<Rightarrow> adapter_registry \<Rightarrow> adapter_registry" where
  "bus_health now b reg =
     (let (ts, msg) = LastError b
      in if \<not> IsZero ts \<and> time_Sub now ts < 10 * Minute
         then AdapterRegistry_Set now ''eventbus'' \<lparr>hs_State = StateDegraded, hs_Message = msg, hs_DeviceCount = 0, hs_MsgPerSec = Fin 0\<rparr> reg
         else AdapterRegistry_Set now ''eventbus'' \<lparr>hs_State = StateHealthy, hs_Message = [], hs_DeviceCount = 0, hs_MsgPerSec = Fin 0\<rparr> reg)"

subsection \<open>What a request changes\<close>

text \<open>What a request may change: nothing but what its route is for.\<close>

definition same_but_limiter :: "('p, 'g, 'c) api_server \<Rightarrow> ('p, 'g, 'c) api_server \<Rightarrow> bool" where
  "same_but_limiter s s' \<longleftrightarrow> (\<exists>l. s' = s\<lparr>as_limiter := l\<rparr>)"

lemma limited_cases:
  assumes "limited E handler r s = (out, s')" "\<And>r s. as_limiter (snd (handler r s)) = as_limiter s"
  shows "(\<exists>rep. out = Replied rep \<and> fst (fst (Allow (ae_now E) (ae_now2 E) (clientIP (ae_splitHostPort E) (ar_RemoteAddr r)) (as_limiter s)))
        \<and> handler r s = (rep, s'\<lparr>as_limiter := as_limiter s\<rparr>))
    \<or> (\<not> fst (fst (Allow (ae_now E) (ae_now2 E) (clientIP (ae_splitHostPort E) (ar_RemoteAddr r)) (as_limiter s)))
        \<and> same_but_limiter s s' \<and> (out = Aborted \<or> (\<exists>rep. out = Replied rep \<and> ry_Status rep = 429)))"
proof -
  obtain ok retry l where a: "Allow (ae_now E) (ae_now2 E) (clientIP (ae_splitHostPort E) (ar_RemoteAddr r)) (as_limiter s) = ((ok, retry), l)"
    by (metis prod.collapse)
  show ?thesis
  proof (cases ok)
    case True
    obtain rep t where h: "handler r s = (rep, t)" by fastforce
    have "t = s'\<lparr>as_limiter := as_limiter s\<rparr>" using assms a True h assms(2) [of r s]
      by (auto simp: limited_def limiter_middleware_def)
    then show ?thesis using assms(1) a True h by (auto simp: limited_def limiter_middleware_def)
  next
    case False
    then show ?thesis using assms(1) a
      by (auto simp: limited_def limiter_middleware_def same_but_limiter_def http_Error_def split: option.splits)
  qed
qed

lemma serve_frames:
  "as_limiter (snd (serve_ingest E r s)) = as_limiter s" "as_limiter (snd (serve_simulate E r s)) = as_limiter s"
  by (simp_all add: serve_ingest_def serve_simulate_def case_prod_beta Let_def)

definition admitted :: "('p, 'g, 'c) api_env \<Rightarrow> api_request \<Rightarrow> ('p, 'g, 'c) api_server \<Rightarrow> bool" where
  "admitted E r s = fst (fst (Allow (ae_now E) (ae_now2 E) (clientIP (ae_splitHostPort E) (ar_RemoteAddr r)) (as_limiter s)))"

definition within_route :: "('p, 'g, 'c) api_env \<Rightarrow> api_request \<Rightarrow> ('p, 'g, 'c) api_server \<Rightarrow> ('p, 'g, 'c) api_server \<Rightarrow> bool" where
  "within_route E r s s' \<longleftrightarrow>
     (as_p s' \<noteq> as_p s \<longrightarrow> route_of (ar_Path r) = RIngest \<and> ar_Method r = ''POST'' \<and> admitted E r s)
     \<and> (as_fences s' \<noteq> as_fences s \<longrightarrow> route_of (ar_Path r) = RGeofences \<and> ar_Method r = ''POST'')
     \<and> (as_sims s' \<noteq> as_sims s \<longrightarrow> route_of (ar_Path r) = RSimulate \<and> ar_Method r = ''POST'' \<and> admitted E r s
         \<or> route_of (ar_Path r) = RSimStatus \<and> ar_Method r = ''DELETE'')
     \<and> (as_limiter s' \<noteq> as_limiter s \<longrightarrow> route_of (ar_Path r) \<in> {RIngest, RSimulate})
     \<and> (as_hub s' \<noteq> as_hub s \<longrightarrow> route_of (ar_Path r) = RStream) \<and> as_registry s' = as_registry s"

lemma contained_refl: "within_route E r s s"
  by (simp add: within_route_def)

lemma limited_contained:
  assumes "limited E handler r s = (out, s')" "\<And>r s. as_limiter (snd (handler r s)) = as_limiter s"
    and "route_of (ar_Path r) \<in> {RIngest, RSimulate}" and "admitted E r s \<Longrightarrow> within_route E r s (snd (handler r s))"
  shows "within_route E r s s'"
proof -
  consider rep where "admitted E r s" "handler r s = (rep, s'\<lparr>as_limiter := as_limiter s\<rparr>)" | "same_but_limiter s s'"
    using limited_cases [OF assms(1,2)] unfolding admitted_def by blast
  then show ?thesis
  proof cases
    case 1
    then show ?thesis using assms(3,4) by (simp add: within_route_def)
  next
    case 2
    then show ?thesis using assms(3) by (auto simp: same_but_limiter_def within_route_def)
  qed
qed

lemma ingest_contained:
  assumes "route_of (ar_Path r) = RIngest" "admitted E r s"
  shows "within_route E r s (snd (serve_ingest E r s))"
  using assms by (cases "ar_Method r = ''POST''") (simp_all add: within_route_def serve_ingest_def handleIngest_def case_prod_beta Let_def)

lemma simulate_contained:
  assumes "route_of (ar_Path r) = RSimulate" "admitted E r s"
  shows "within_route E r s (snd (serve_simulate E r s))"
  using assms by (cases "ar_Method r = ''POST''") (simp_all add: within_route_def serve_simulate_def handleSimulate_def case_prod_beta Let_def)

lemma status_only_deletes: "ar_Method r \<noteq> ''DELETE'' \<Longrightarrow> snd (handleSimStatus (ar_Method r) path sims) = sims"
  by (simp add: handleSimStatus_def Let_def split: option.split)

lemma fences_only_post: "ar_Method r \<noteq> ''POST'' \<Longrightarrow> snd (handleGeofences a d (ar_Method r) b f) = f"
  by (simp add: handleGeofences_def case_prod_beta Let_def)

lemma mux_contained:
  assumes "mux E r s = (out, s')"
  shows "within_route E r s s'"
proof (cases "route_of (ar_Path r)")
  case RIngest
  with assms have "limited E (serve_ingest E) r s = (out, s')" by (simp add: mux_def)
  then show ?thesis by (rule limited_contained) (simp_all add: RIngest serve_frames ingest_contained)
next
  case RSimulate
  with assms have "limited E (serve_simulate E) r s = (out, s')" by (simp add: mux_def)
  then show ?thesis by (rule limited_contained) (simp_all add: RSimulate serve_frames simulate_contained)
next
  case RGeofences
  then show ?thesis using assms fences_only_post [of r "ae_addPG E" "ae_decodeFence E" "ar_Body r" "as_fences s"]
    by (cases "ar_Method r = ''POST''") (auto simp: mux_def within_route_def split: prod.splits)
next
  case RSimStatus
  then show ?thesis using assms status_only_deletes [of r "ar_Path r" "as_sims s"]
    by (cases "ar_Method r = ''DELETE''") (auto simp: mux_def within_route_def split: prod.splits)
next
  case RStream
  then show ?thesis using assms by (auto simp: mux_def handleStream_def within_route_def split: sum.splits)
qed (use assms in \<open>auto simp: mux_def contained_refl\<close>)

subsection \<open>Heartbeats on their way\<close>

text \<open>A transport that keeps the published events, and the heartbeat of one source.\<close>

definition record_event :: "event \<Rightarrow> event list \<Rightarrow> go_error option \<times> event list" where
  "record_event e es = (None, es @ [e])"

definition source_heartbeat :: "time \<Rightarrow> time \<Rightarrow> reg_adapter \<Rightarrow> event" where
  "source_heartbeat now now2 r = heartbeat_event now (rg_name r)
     [(''name'', JStr (rg_name r)), (''state'', JStr (hs_State (source_Health now2 (rg_src r)))),
      (''message'', JStr (hs_Message (source_Health now2 (rg_src r)))), (''msgPerSec'', JNum (rg_rate now2 r))]"

definition engine_event :: "time \<Rightarrow> event" where
  "engine_event now = heartbeat_event now ''tide-engine'' [(''name'', JStr ''tide-engine''), (''state'', JStr ''HEALTHY'')]"

lemma Heartbeats_recorded: "Heartbeats now now2 record_event regs es = es @ map (source_heartbeat now now2) regs"
  by (induction regs arbitrary: es) (simp_all add: Heartbeats_def source_heartbeat_def record_event_def Let_def)

lemma engine_heartbeat_recorded:
  "engine_heartbeat now now2 record_event regs [] = engine_event now # map (source_heartbeat now now2) regs"
  by (simp add: engine_heartbeat_def Heartbeats_recorded engine_event_def record_event_def)

text \<open>The entry a heartbeat of a source leaves in the registry.\<close>

definition heard :: "time \<Rightarrow> time \<Rightarrow> reg_adapter \<Rightarrow> registry_entry" where
  "heard now2 t r = \<lparr>re_Status = heartbeatStatus (hs_State (source_Health now2 (rg_src r))) ''via tide.heartbeat'', re_At = t\<rparr>"

lemma forward_source:
  assumes "unmarshal (marshal (source_heartbeat now now2 r)) = Inr (source_heartbeat now now2 r)" "rg_name r \<noteq> []"
  shows "forward unmarshal inject t (marshal (source_heartbeat now now2 r)) (reg, x) = (reg(rg_name r \<mapsto> heard now2 t r), x)"
proof -
  have "ev_Type (source_heartbeat now now2 r) = ''tide.heartbeat.created''" "str_at (ev_Payload (source_heartbeat now now2 r)) ''name'' = rg_name r"
      "str_at (ev_Payload (source_heartbeat now now2 r)) ''state'' = hs_State (source_Health now2 (rg_src r))"
    by (simp_all add: source_heartbeat_def heartbeat_event_def str_at_def)
  with assms show ?thesis by (simp add: forward_def AdapterRegistry_Set_def heard_def)
qed

lemma forward_sources:
  assumes "\<forall>r \<in> set regs. unmarshal (marshal (source_heartbeat now now2 r)) = Inr (source_heartbeat now now2 r)" "\<forall>r \<in> set regs. rg_name r \<noteq> []"
  shows "fold (\<lambda>e. forward unmarshal inject t (marshal e)) (map (source_heartbeat now now2) regs) (reg, x)
    = (fold (\<lambda>r reg. reg(rg_name r \<mapsto> heard now2 t r)) regs reg, x)"
  using assms by (induction regs arbitrary: reg) (simp_all add: forward_source)

lemma heard_other: "n \<notin> rg_name ` set regs \<Longrightarrow> fold (\<lambda>r reg. reg(rg_name r \<mapsto> heard now2 t r)) regs reg n = reg n"
  by (induction regs arbitrary: reg) auto

lemma heard_last:
  "distinct (map rg_name regs) \<Longrightarrow> r \<in> set regs \<Longrightarrow> fold (\<lambda>r reg. reg(rg_name r \<mapsto> heard now2 t r)) regs reg (rg_name r) = Some (heard now2 t r)"
  by (induction regs arbitrary: reg) (auto simp: heard_other)

subsection \<open>Properties\<close>



definition trace_request :: api_request where
  "trace_request = \<lparr>ar_Method = ''TRACE'', ar_Path = ''/v1/telemetry'', ar_Query = (\<lambda>_. []), ar_Body = [], ar_RemoteAddr = ''10.0.0.1:5''\<rparr>"


definition one_source :: reg_adapter where
  "one_source = \<lparr>rg_name = ''traccar'', rg_src = TraccarSource \<lparr>ra_baseURL = [], ra_auth = [], ra_tenant = ''t'', ra_state = StateDegraded\<rparr>,
     rg_count = 0, rg_started = 0\<rparr>"


end
