(* ===== verification/System.thy ===== *)
theory System
  imports Serve "HOL-Library.Sublist"
begin

section \<open>The two processes and their transport (cmd/tide-engine, cmd/tide-api)\<close>

text \<open>
  The engine and the API process as one system: each has a pipeline whose bus fans out to NATS and to its memory bus;
  the API subscribes to all events, updates its connections from heartbeats and injects the rest. The NATS client is the
  record \<open>transport\<close>; \<open>queue\<close> is what the broker holds for the subscription of the API. Publishing may
  fail, connections may be dialled again, and messages may be lost while the subscription is down.
\<close>

subsection \<open>The fan-out bus of a process\<close>

record ('b, 'n) transport =
  tp_marshal :: "event \<Rightarrow> go_error + string"
  tp_unmarshal :: "string \<Rightarrow> go_error + event"
  tp_publish :: "'b \<Rightarrow> string \<Rightarrow> string \<Rightarrow> 'n \<Rightarrow> go_error option \<times> 'n"
  tp_dial :: "'n \<Rightarrow> (go_error + 'b) \<times> 'n"
  tp_close :: "'b \<Rightarrow> 'n \<Rightarrow> 'n"
  tp_next :: "'n \<Rightarrow> (string \<times> 'n) option"

text \<open>The NATS leg: a connection of type \<open>'b\<close> behind the resilient wrapper.\<close>

definition link_publish :: "('b, 'n) transport \<Rightarrow> time \<Rightarrow> event \<Rightarrow> 'b resilient_bus \<times> 'n \<Rightarrow> go_error option \<times> 'b resilient_bus \<times> 'n" where
  "link_publish T now e l =
     (let ((err, rb), n) = ResilientBus_Publish (\<lambda>b. NATSBus_Publish (tp_marshal T) (tp_publish T b)) (tp_dial T) (tp_close T) now e (fst l) (snd l)
      in (err, rb, n))"

definition fan_publish ::
  "('b, 'n) transport \<Rightarrow> time \<Rightarrow> event \<Rightarrow> 'd mem_pipeline \<times> 'b resilient_bus \<times> 'n \<Rightarrow> go_error option \<times> 'd mem_pipeline \<times> 'b resilient_bus \<times> 'n" where
  "fan_publish T now =
     FanOut_Publish [\<lambda>e (p, l). let (err, l) = link_publish T now e l in (err, p, l), \<lambda>e (p, l). let (err, p) = mem_publish e p in (err, p, l)]"

text \<open>The operations of a pipeline whose bus is the fan-out.\<close>

definition with_fanout ::
  "('b, 'n) transport \<Rightarrow> time \<Rightarrow> ('d mem_pipeline) pipeline_ops \<Rightarrow> ('d mem_pipeline \<times> 'b resilient_bus \<times> 'n) pipeline_ops" where
  "with_fanout T now ops =
     \<lparr>po_Seen = (\<lambda>k (p, l). let (d, p) = po_Seen ops k p in (d, p, l)),
      po_Append = (\<lambda>t (p, l). let (err, p) = po_Append ops t p in (err, p, l)),
      po_Get = (\<lambda>v (p, l). po_Get ops v p),
      po_Set = (\<lambda>s (p, l). let (err, p) = po_Set ops s p in (err, p, l)),
      po_Detect = (\<lambda>t s (p, l). let (p, evs) = po_Detect ops t s p in ((p, l), evs)),
      po_Geo = map_option (\<lambda>f t (p, l). let (p, evs) = f t p in ((p, l), evs)) (po_Geo ops),
      po_Rules = map_option (\<lambda>f t s evs (p, l). let (p, out) = f t s evs p in ((p, l), out)) (po_Rules ops),
      po_Publish = fan_publish T now\<rparr>"

subsection \<open>The system\<close>

record ('d, 'b, 'n) system =
  sy_engine :: "'d mem_pipeline"
  sy_elink :: "'b resilient_bus"
  sy_api :: "'d mem_pipeline"
  sy_alink :: "'b resilient_bus"
  sy_net :: 'n
  sy_registry :: adapter_registry
  sy_delivered :: "string list"
  sy_direct :: "event list"
  sy_injected :: "event list"

text \<open>
  One call of \<open>Process\<close> in the engine, from a source; one tick of the engine: the sweep, then the heartbeats; one point
  of an ingestion request in the API, which injects the events of the call, also those of a \<open>PublishError\<close>; one message
  handed to the subscription. The calls of \<open>Inject\<close> are recorded in order, those for own points also in
  \<open>sy_direct\<close>.
\<close>

definition engine_point ::
  "('b, 'n) transport \<Rightarrow> go_lib \<Rightarrow> (string set \<Rightarrow> string list) \<Rightarrow> (string \<Rightarrow> string \<Rightarrow> event \<Rightarrow> 'd \<Rightarrow> go_error option \<times> 'd)
    \<Rightarrow> clocks \<Rightarrow> time \<Rightarrow> telemetry \<Rightarrow> ('d, 'b, 'n) system \<Rightarrow> ('d, 'b, 'n) system" where
  "engine_point T L ord disp clk now t s =
     (let (_, p, rb, n) = Process L (with_fanout T now (mem_ops L ord disp clk (sy_engine s))) clk t (sy_engine s, sy_elink s, sy_net s)
      in s\<lparr>sy_engine := p, sy_elink := rb, sy_net := n\<rparr>)"

definition engine_tick ::
  "('b, 'n) transport \<Rightarrow> (string set \<Rightarrow> string list) \<Rightarrow> time \<Rightarrow> time \<Rightarrow> reg_adapter list \<Rightarrow> ('d, 'b, 'n) system \<Rightarrow> ('d, 'b, 'n) system" where
  "engine_tick T ord now now2 regs s =
     (let pl = (sy_engine s, sy_elink s, sy_net s);
          pl = sweep (Some (\<lambda>(p, l). (MemoryStore_ListIDs ord (mp_states p), None))) (\<lambda>v (p, l). mem_get v p)
                 (\<lambda>st (p, l). let (err, p) = mem_set st p in (err, p, l)) (fan_publish T now2) now pl;
          (p, rb, n) = engine_heartbeat now now2 (fan_publish T now2) regs pl
      in s\<lparr>sy_engine := p, sy_elink := rb, sy_net := n\<rparr>)"

definition injected_by :: "process_result \<Rightarrow> event list" where
  "injected_by r = (case r of (_, _, Some (PublishError pevs _)) \<Rightarrow> pevs | (_, _, Some (PlainError _)) \<Rightarrow> [] | (evs, _, None) \<Rightarrow> evs)"

definition api_process ::
  "('b, 'n) transport \<Rightarrow> go_lib \<Rightarrow> (string set \<Rightarrow> string list) \<Rightarrow> (string \<Rightarrow> string \<Rightarrow> event \<Rightarrow> 'd \<Rightarrow> go_error option \<times> 'd)
    \<Rightarrow> clocks \<Rightarrow> time \<Rightarrow> telemetry \<Rightarrow> ('d, 'b, 'n) system \<Rightarrow> process_result \<times> ('d, 'b, 'n) system" where
  "api_process T L ord disp clk now t s =
     (let (r, p, rb, n) = Process L (with_fanout T now (mem_ops L ord disp clk (sy_api s))) clk t (sy_api s, sy_alink s, sy_net s)
      in (r, s\<lparr>sy_api := p, sy_alink := rb, sy_net := n\<rparr>))"

definition api_inject :: "event \<Rightarrow> ('d, 'b, 'n) system \<Rightarrow> ('d, 'b, 'n) system" where
  "api_inject e s = s\<lparr>sy_direct := sy_direct s @ [e], sy_injected := sy_injected s @ [e]\<rparr>"

definition api_point ::
  "('b, 'n) transport \<Rightarrow> go_lib \<Rightarrow> (string set \<Rightarrow> string list) \<Rightarrow> (string \<Rightarrow> string \<Rightarrow> event \<Rightarrow> 'd \<Rightarrow> go_error option \<times> 'd)
    \<Rightarrow> clocks \<Rightarrow> time \<Rightarrow> telemetry \<Rightarrow> ('d, 'b, 'n) system \<Rightarrow> ('d, 'b, 'n) system" where
  "api_point T L ord disp clk now t s =
     (let (r, s) = api_process T L ord disp clk now t s in fold api_inject (injected_by r) s)"

text \<open>A whole ingestion request on the system: \<open>handleIngest\<close> with the pipeline and \<open>Inject\<close> of the API.\<close>

definition api_ingest ::
  "('b, 'n) transport \<Rightarrow> go_lib \<Rightarrow> (string set \<Rightarrow> string list) \<Rightarrow> (string \<Rightarrow> string \<Rightarrow> event \<Rightarrow> 'd \<Rightarrow> go_error option \<times> 'd)
    \<Rightarrow> (nat \<Rightarrow> string) \<Rightarrow> ingest_codec \<Rightarrow> ingest_clock \<Rightarrow> (nat \<Rightarrow> time) \<Rightarrow> ('d, 'b, 'n) system ingest_env" where
  "api_ingest T L ord disp newid co ck nows =
     \<lparr>ie_Decode = ic_Decode co, ie_Envelope = ic_Envelope co, ie_Unmarshal = ic_Unmarshal co, ie_NewID = newid,
      ie_received = ik_received ck, ie_stamp = ik_stamp ck, ie_now = ik_now ck,
      ie_Process = (\<lambda>n. api_process T L ord disp (ik_clocks ck n) (nows n)), ie_Inject = api_inject, ie_AppendTelemetry = None\<rparr>"

definition api_deliver :: "('b, 'n) transport \<Rightarrow> time \<Rightarrow> ('d, 'b, 'n) system \<Rightarrow> ('d, 'b, 'n) system" where
  "api_deliver T now s =
     (case tp_next T (sy_net s) of
        None \<Rightarrow> s
      | Some (raw, n) \<Rightarrow>
          (let (reg, inj) = forward (tp_unmarshal T) (\<lambda>e es. es @ [e]) now raw (sy_registry s, sy_injected s)
           in s\<lparr>sy_net := n, sy_registry := reg, sy_injected := inj, sy_delivered := sy_delivered s @ [raw]\<rparr>))"

text \<open>The emit function of an engine source over the fan-out; the clock readings come from the world \<open>h\<close>.\<close>

definition engine_emit ::
  "('b, 'n) transport \<Rightarrow> go_lib \<Rightarrow> (string set \<Rightarrow> string list) \<Rightarrow> (string \<Rightarrow> string \<Rightarrow> event \<Rightarrow> 'd \<Rightarrow> go_error option \<times> 'd) \<Rightarrow> ('h \<Rightarrow> clocks) \<Rightarrow> ('h \<Rightarrow> time)
    \<Rightarrow> telemetry \<Rightarrow> 'h \<times> int \<times> 'd mem_pipeline \<times> 'b resilient_bus \<times> 'n \<Rightarrow> go_error option \<times> 'h \<times> int \<times> 'd mem_pipeline \<times> 'b resilient_bus \<times> 'n" where
  "engine_emit T L ord disp clk now t w =
     (let (h, s) = w;
          (err, s) = emitting (\<lambda>t pl. Process L (with_fanout T (now h) (mem_ops L ord disp (clk h) (fst pl))) (clk h) t pl) t s
      in (err, h, s))"

inductive sys_reach ::
  "('b, 'n) transport \<Rightarrow> go_lib \<Rightarrow> (string set \<Rightarrow> string list) \<Rightarrow> (string \<Rightarrow> string \<Rightarrow> event \<Rightarrow> 'd \<Rightarrow> go_error option \<times> 'd)
    \<Rightarrow> ('d, 'b, 'n) system \<Rightarrow> ('d, 'b, 'n) system \<Rightarrow> bool" for T L ord disp s0 where
  start: "sys_reach T L ord disp s0 s0"
| engine_point: "sys_reach T L ord disp s0 s \<Longrightarrow> sys_reach T L ord disp s0 (engine_point T L ord disp clk now t s)"
| engine_tick: "sys_reach T L ord disp s0 s \<Longrightarrow> sys_reach T L ord disp s0 (engine_tick T ord now now2 regs s)"
| api_point: "sys_reach T L ord disp s0 s \<Longrightarrow> sys_reach T L ord disp s0 (api_point T L ord disp clk now t s)"
| api_deliver: "sys_reach T L ord disp s0 s \<Longrightarrow> sys_reach T L ord disp s0 (api_deliver T now s)"

subsection \<open>Interleavings of lists\<close>

lemma shuffles_append1: "zs \<in> shuffles xs ys \<Longrightarrow> zs @ us \<in> shuffles (xs @ us) ys"
proof (induction xs ys arbitrary: zs rule: shuffles.induct)
  case (1 ys)
  have "ys @ us \<in> shuffles us ys" for ys :: "'a list"
    by (induction ys) (simp_all add: Cons_in_shuffles_rightI)
  with 1 show ?case by simp
next
  case (3 x xs y ys)
  from "3.prems" show ?case
    by (rule shufflesE) (use "3.IH" in \<open>auto intro: Cons_in_shuffles_leftI Cons_in_shuffles_rightI\<close>)
qed simp

lemma shuffles_append2: "zs \<in> shuffles xs ys \<Longrightarrow> zs @ us \<in> shuffles xs (ys @ us)"
  using shuffles_append1 [of zs ys xs us] by (simp add: shuffles_commutes)

lemma shuffles_ConsE:
  assumes "z # zs \<in> shuffles xs ys"
  obtains xs' where "xs = z # xs'" "zs \<in> shuffles xs' ys" | ys' where "ys = z # ys'" "zs \<in> shuffles xs ys'"
  using assms by (cases xs; cases ys) (auto simp: Cons_in_shuffles_iff)

lemma shuffles_subseq:
  "subseq us zs \<Longrightarrow> zs \<in> shuffles xs ys \<Longrightarrow> \<exists>xs' ys'. subseq xs' xs \<and> subseq ys' ys \<and> us \<in> shuffles xs' ys'"
proof (induction us zs arbitrary: xs ys rule: list_emb.induct)
  case (list_emb_Nil zs)
  show ?case by (intro exI [of _ "[]"]) simp
next
  case (list_emb_Cons us zs z)
  from list_emb_Cons.prems show ?case
  proof (cases rule: shuffles_ConsE)
    case (1 xs')
    with list_emb_Cons.IH [of xs' ys] show ?thesis by (auto intro: list_emb.list_emb_Cons)
  next
    case (2 ys')
    with list_emb_Cons.IH [of xs ys'] show ?thesis by (auto intro: list_emb.list_emb_Cons)
  qed
next
  case (list_emb_Cons2 u z us zs)
  from list_emb_Cons2.prems show ?case
  proof (cases rule: shuffles_ConsE)
    case (1 xs')
    with list_emb_Cons2.IH [of xs' ys] obtain as bs where "subseq as xs'" "subseq bs ys" "us \<in> shuffles as bs" by auto
    then show ?thesis using 1 list_emb_Cons2.hyps(1) by (intro exI [of _ "u # as"] exI [of _ bs]) (auto intro: Cons_in_shuffles_leftI)
  next
    case (2 ys')
    with list_emb_Cons2.IH [of xs ys'] obtain as bs where "subseq as xs" "subseq bs ys'" "us \<in> shuffles as bs" by auto
    then show ?thesis using 2 list_emb_Cons2.hyps(1) by (intro exI [of _ as] exI [of _ "u # bs"]) (auto intro: Cons_in_shuffles_rightI)
  qed
qed

subsection \<open>What the broker promises\<close>

text \<open>An event is on the wire as its encoding; an event that cannot be encoded is not sent.\<close>

definition wire :: "('b, 'n) transport \<Rightarrow> event list \<Rightarrow> string list" where
  "wire T es = List.map_filter (\<lambda>e. case tp_marshal T e of Inl _ \<Rightarrow> None | Inr raw \<Rightarrow> Some raw) es"

text \<open>
  A publication on a subject of the subscription is enqueued or reports an error; dialling and closing change nothing; a
  delivered message comes from the queue, and those before it are lost. When the broker is up, publications succeed,
  messages are delivered and nothing is lost.
\<close>

definition broker_ok :: "('b, 'n) transport \<Rightarrow> ('n \<Rightarrow> string list) \<Rightarrow> bool" where
  "broker_ok T queue \<longleftrightarrow>
     (\<forall>b s raw n. has_prefix s ''tide.events.'' \<longrightarrow>
        queue (snd (tp_publish T b s raw n)) = (if fst (tp_publish T b s raw n) = None then queue n @ [raw] else queue n))
     \<and> (\<forall>n. queue (snd (tp_dial T n)) = queue n) \<and> (\<forall>b n. queue (tp_close T b n) = queue n)
     \<and> (\<forall>n raw n'. tp_next T n = Some (raw, n') \<longrightarrow> (\<exists>lost. queue n = lost @ raw # queue n'))"

definition broker_up :: "('b, 'n) transport \<Rightarrow> ('n \<Rightarrow> string list) \<Rightarrow> bool" where
  "broker_up T queue \<longleftrightarrow> (\<forall>b s raw n. fst (tp_publish T b s raw n) = None)
     \<and> (\<forall>n. queue n \<noteq> [] \<longrightarrow> tp_next T n \<noteq> None) \<and> (\<forall>n raw n'. tp_next T n = Some (raw, n') \<longrightarrow> queue n = raw # queue n')"

lemma wire_simps [simp]: "wire T [] = []" "wire T (es @ es') = wire T es @ wire T es'"
  by (simp_all add: wire_def map_filter_def)

lemma link_publish_queue:
  assumes "broker_ok T queue" "event_Validate e = None"
  shows "\<exists>sent. queue (snd (snd (link_publish T now e l))) = queue (snd l) @ sent \<and> subseq sent (wire T [e])
    \<and> (broker_up T queue \<longrightarrow> sent = wire T [e])"
proof -
  have "has_prefix (Subject e) ''tide.events.''" by (simp add: Subject_def has_prefix_def)
  then have pub: "queue (snd (tp_publish T b (Subject e) raw n)) = (if fst (tp_publish T b (Subject e) raw n) = None then queue n @ [raw] else queue n)" for b raw n
    using assms(1) by (simp add: broker_ok_def)
  have dial: "queue (snd (tp_dial T n)) = queue n" and close: "queue (tp_close T b n) = queue n" for b n
    using assms(1) by (simp_all add: broker_ok_def)
  have up: "broker_up T queue \<Longrightarrow> fst (tp_publish T b s raw n) = None" for b s raw n by (simp add: broker_up_def)
  show ?thesis
  proof (cases "tp_marshal T e")
    case (Inl err)
    then show ?thesis using assms(2) dial close
      by (auto simp: link_publish_def ResilientBus_Publish_def NATSBus_Publish_def rb_fail_def wire_def map_filter_def case_prod_beta Let_def
          split: sum.split option.split prod.split)
  next
    case (Inr raw)
    let ?w = "wire T [e]"
    have w: "?w = [raw]" by (simp add: wire_def map_filter_def Inr)
    obtain e1 n1 where 1: "tp_publish T (rb_bus (fst l)) (Subject e) raw (snd l) = (e1, n1)" by fastforce
    obtain d n2 where 2: "tp_dial T n1 = (d, n2)" by fastforce
    have q1: "queue n1 = (if e1 = None then queue (snd l) @ [raw] else queue (snd l))" using pub [of "rb_bus (fst l)" raw "snd l"] 1 by simp
    have q2: "queue n2 = queue n1" using dial [of n1] 2 by simp
    show ?thesis
    proof (cases "e1 = None")
      case True
      then show ?thesis using q1 w by (intro exI [of _ "[raw]"]) (simp add: link_publish_def ResilientBus_Publish_def NATSBus_Publish_def assms(2) Inr 1)
    next
      case f: False
      have nup: "\<not> broker_up T queue" using up 1 f by (metis fst_conv)
      show ?thesis
      proof (cases d)
        case (Inl derr)
        then show ?thesis using f q1 q2 nup
          by (intro exI [of _ "[]"]) (auto simp: link_publish_def ResilientBus_Publish_def NATSBus_Publish_def assms(2) Inr 1 2 rb_fail_def)
      next
        case (Inr nb)
        obtain e3 n3 where 3: "tp_publish T nb (Subject e) raw (tp_close T (rb_bus (fst l)) n2) = (e3, n3)" by fastforce
        have "queue n3 = (if e3 = None then queue (snd l) @ [raw] else queue (snd l))"
          using pub [of nb raw "tp_close T (rb_bus (fst l)) n2"] 3 close q1 q2 f by simp
        then show ?thesis using f nup w \<open>tp_marshal T e = Inr raw\<close>
          by (intro exI [of _ "if e3 = None then [raw] else []"])
            (auto simp: link_publish_def ResilientBus_Publish_def NATSBus_Publish_def assms(2) 1 2 3 Inr rb_fail_def Let_def split: option.split)
      qed
    qed
  qed
qed

subsection \<open>Both legs of the fan-out\<close>

text \<open>From \<open>pl\<close> to \<open>pl'\<close> the memory bus got the events \<open>new\<close> and the broker a part of them, all when it is up.\<close>

definition carried ::
  "('b, 'n) transport \<Rightarrow> ('n \<Rightarrow> string list) \<Rightarrow> 'd mem_pipeline \<times> 'b resilient_bus \<times> 'n \<Rightarrow> 'd mem_pipeline \<times> 'b resilient_bus \<times> 'n \<Rightarrow> event list \<Rightarrow> bool" where
  "carried T queue pl pl' new \<longleftrightarrow> mp_bus (fst pl') = mp_bus (fst pl) @ new
     \<and> (\<exists>sent. queue (snd (snd pl')) = queue (snd (snd pl)) @ sent \<and> subseq sent (wire T new) \<and> (broker_up T queue \<longrightarrow> sent = wire T new))"

lemma carried_frame: "mp_bus (fst pl') = mp_bus (fst pl) \<Longrightarrow> snd (snd pl') = snd (snd pl) \<Longrightarrow> carried T queue pl pl' []"
  by (simp add: carried_def)

lemma carried_trans:
  assumes "carried T queue a b xs" "carried T queue b c ys"
  shows "carried T queue a c (xs @ ys)"
proof -
  from assms obtain s1 s2 where "queue (snd (snd b)) = queue (snd (snd a)) @ s1" "subseq s1 (wire T xs)" "broker_up T queue \<longrightarrow> s1 = wire T xs"
    "queue (snd (snd c)) = queue (snd (snd b)) @ s2" "subseq s2 (wire T ys)" "broker_up T queue \<longrightarrow> s2 = wire T ys" by (auto simp: carried_def)
  with assms show ?thesis unfolding carried_def by (intro conjI exI [of _ "s1 @ s2"]) (auto intro: list_emb_append_mono)
qed

lemma link_publish_invalid: "event_Validate e = Some err \<Longrightarrow> broker_ok T queue \<Longrightarrow> queue (snd (snd (link_publish T now e l))) = queue (snd l)"
  by (auto simp: link_publish_def ResilientBus_Publish_def NATSBus_Publish_def rb_fail_def broker_ok_def case_prod_beta Let_def split: sum.split)

lemma fan_publish_carried:
  assumes "broker_ok T queue"
  shows "carried T queue pl (snd (fan_publish T now e pl)) (if event_Validate e = None then [e] else [])"
proof -
  obtain p l where pl: "pl = (p, l)" by (cases pl)
  have f: "snd (fan_publish T now e (p, l)) = (snd (mem_publish e p), snd (link_publish T now e l))"
    by (simp add: fan_publish_def FanOut_Publish_def case_prod_beta Let_def)
  show ?thesis
  proof (cases "event_Validate e")
    case None
    then show ?thesis using link_publish_queue [OF assms None, of now l]
      by (simp add: carried_def f pl mem_publish_def MemoryBus_Publish_def)
  next
    case (Some err)
    then show ?thesis using link_publish_invalid [OF Some assms, of now l]
      by (simp add: carried_def f pl mem_publish_def MemoryBus_Publish_def)
  qed
qed

lemma publish_all_carried:
  assumes "broker_ok T queue"
  shows "\<exists>new. prefix new es \<and> carried T queue pl (snd (publish_all (fan_publish T now) es pl)) new"
proof (induction es arbitrary: pl)
  case (Cons e es)
  let ?new = "if event_Validate e = None then [e] else []"
  obtain err pl1 where 1: "fan_publish T now e pl = (err, pl1)" by (cases "fan_publish T now e pl")
  have c: "carried T queue pl pl1 ?new" using fan_publish_carried [OF assms, of pl now e] by (simp add: 1)
  show ?case
  proof (cases "err = None")
    case True
    then have "event_Validate e = None"
      using 1 by (auto simp: fan_publish_def FanOut_Publish_def mem_publish_def MemoryBus_Publish_def case_prod_beta Let_def split: option.splits if_splits)
    moreover obtain new where "prefix new es" "carried T queue pl1 (snd (publish_all (fan_publish T now) es pl1)) new" using Cons by blast
    ultimately show ?thesis using carried_trans [OF c, of _ new] True by (intro exI [of _ "e # new"]) (simp add: 1)
  next
    case False
    then show ?thesis using c by (intro exI [of _ ?new]) (auto simp: 1)
  qed
qed (simp add: carried_frame)

subsection \<open>One call of the pipeline, one tick\<close>

lemma mem_ops_bus:
  "mp_bus (snd (po_Seen (mem_ops L ord disp clk p0) k p)) = mp_bus p"
  "mp_bus (snd (po_Append (mem_ops L ord disp clk p0) t p)) = mp_bus p"
  "mp_bus (snd (po_Set (mem_ops L ord disp clk p0) s p)) = mp_bus p"
  "mp_bus (fst (po_Detect (mem_ops L ord disp clk p0) t s p)) = mp_bus p"
  "po_Geo (mem_ops L ord disp clk p0) = Some g \<Longrightarrow> mp_bus (fst (g t p)) = mp_bus p"
  "po_Rules (mem_ops L ord disp clk p0) = Some r \<Longrightarrow> mp_bus (fst (r t s evs p)) = mp_bus p"
  by (auto simp: mem_ops_def case_prod_beta Let_def split: if_splits)

lemma detect_fanout:
  "\<exists>evs p'. mp_bus p' = mp_bus p \<and> detect_and_publish (with_fanout T now (mem_ops L ord disp clk p0)) t s (p, l) =
     (case publish_all (fan_publish T now) evs (p', l) of
        (Some err, pl) \<Rightarrow> ((evs, False, Some (PublishError evs err)), pl) | (None, pl) \<Rightarrow> ((evs, False, None), pl))"
proof -
  let ?ops = "mem_ops L ord disp clk p0"
  obtain p1 evs1 where 1: "po_Detect ?ops t s p = (p1, evs1)" by (cases "po_Detect ?ops t s p")
  obtain p2 evs2 where 2: "(case po_Geo ?ops of None \<Rightarrow> (p1, evs1) | Some g \<Rightarrow> (fst (g t p1), evs1 @ snd (g t p1))) = (p2, evs2)" by fastforce
  obtain p3 evs3 where 3: "(case po_Rules ?ops of None \<Rightarrow> (p2, evs2) | Some r \<Rightarrow> (fst (r t s evs2 p2), evs2 @ snd (r t s evs2 p2))) = (p3, evs3)" by fastforce
  have "mp_bus p1 = mp_bus p" using mem_ops_bus(4) [of L ord disp clk p0 t s p] 1 by simp
  moreover have "mp_bus p2 = mp_bus p1" using 2 mem_ops_bus(5) by (auto split: option.splits)
  moreover have "mp_bus p3 = mp_bus p2" using 3 mem_ops_bus(6) by (auto split: option.splits)
  moreover have "detect_and_publish (with_fanout T now ?ops) t s (p, l) =
     (case publish_all (fan_publish T now) evs3 (p3, l) of
        (Some err, pl) \<Rightarrow> ((evs3, False, Some (PublishError evs3 err)), pl) | (None, pl) \<Rightarrow> ((evs3, False, None), pl))"
    using 2 3 by (cases "po_Geo ?ops"; cases "po_Rules ?ops") (simp_all add: detect_and_publish_def with_fanout_def 1 case_prod_beta Let_def del: append_assoc cong del: option.case_cong_weak)
  ultimately show ?thesis by (intro exI [of _ evs3] exI [of _ p3]) simp
qed

text \<open>A call either stops before the detectors or publishes the events it returns; the bus is touched by nothing else.\<close>

lemma process_fanout_cases:
  obtains (quiet) p' where "mp_bus p' = mp_bus p" "snd (Process L (with_fanout T now (mem_ops L ord disp clk p0)) clk t (p, l)) = (p', l)"
      "fst (fst (Process L (with_fanout T now (mem_ops L ord disp clk p0)) clk t (p, l))) = []"
      "injected_by (fst (Process L (with_fanout T now (mem_ops L ord disp clk p0)) clk t (p, l))) = []"
    | (publishes) p' evs where "mp_bus p' = mp_bus p" "Process L (with_fanout T now (mem_ops L ord disp clk p0)) clk t (p, l) =
      (case publish_all (fan_publish T now) evs (p', l) of
         (Some err, pl) \<Rightarrow> ((evs, False, Some (PublishError evs err)), pl) | (None, pl) \<Rightarrow> ((evs, False, None), pl))"
proof -
  let ?ops = "mem_ops L ord disp clk p0" and ?P = "Process L (with_fanout T now (mem_ops L ord disp clk p0)) clk t (p, l)"
  obtain d e1 p1 where 1: "po_Seen ?ops (DedupKey L t) p = ((d, e1), p1)" by (cases "po_Seen ?ops (DedupKey L t) p") auto
  obtain e2 p2 where 2: "po_Append ?ops t p1 = (e2, p2)" by (cases "po_Append ?ops t p1")
  obtain prev b e3 where 3: "po_Get ?ops (tel_VehicleID t) p2 = ((prev, b), e3)" by (cases "po_Get ?ops (tel_VehicleID t) p2") auto
  let ?s = "fst (Apply (ck_apply clk) prev t)"
  obtain e4 p4 where 4: "po_Set ?ops ?s p2 = (e4, p4)" by (cases "po_Set ?ops ?s p2")
  have b: "mp_bus p1 = mp_bus p" "mp_bus p2 = mp_bus p" "mp_bus p4 = mp_bus p"
    using mem_ops_bus(1) [of L ord disp clk p0 "DedupKey L t" p] mem_ops_bus(2) [of L ord disp clk p0 t p1]
      mem_ops_bus(3) [of L ord disp clk p0 ?s p2] 1 2 4 by simp_all
  have w: "po_Seen (with_fanout T now ?ops) (DedupKey L t) (p, l) = ((d, e1), p1, l)" "po_Append (with_fanout T now ?ops) t (p1, l) = (e2, p2, l)"
    "po_Get (with_fanout T now ?ops) (tel_VehicleID t) (p2, l) = ((prev, b), e3)" "po_Set (with_fanout T now ?ops) ?s (p2, l) = (e4, p4, l)"
    by (simp_all add: with_fanout_def 1 2 3 4)
  show thesis
  proof (cases "telemetry_Validate t = None \<and> \<not> ck_skew clk + MaxFutureSkew < tel_Timestamp t")
    case acc: True
    show thesis
    proof (cases "e1 = None \<and> \<not> d \<and> e2 = None \<and> e3 = None \<and> e4 = None")
      case True
      then have P: "?P = detect_and_publish (with_fanout T now ?ops) t ?s (p4, l)" using acc by (simp add: Process_def w case_prod_beta)
      obtain evs p' where "mp_bus p' = mp_bus p4" "?P = (case publish_all (fan_publish T now) evs (p', l) of
         (Some err, pl) \<Rightarrow> ((evs, False, Some (PublishError evs err)), pl) | (None, pl) \<Rightarrow> ((evs, False, None), pl))"
        using detect_fanout [of p4 T now L ord disp clk p0 t ?s l] unfolding P by blast
      then show thesis using publishes b(3) by simp
    next
      case False
      then have "snd ?P \<in> {(p1, l), (p2, l), (p4, l)} \<and> fst (fst ?P) = [] \<and> injected_by (fst ?P) = []"
        using acc by (cases e1; cases d; cases e2; cases e3; cases e4) (simp_all add: Process_def w case_prod_beta injected_by_def)
      then show thesis using quiet b by blast
    qed
  next
    case False
    then show thesis using quiet [of p] by (cases "telemetry_Validate t") (simp_all add: Process_def injected_by_def)
  qed
qed

lemma process_carried:
  assumes "broker_ok T queue"
  shows "\<exists>new. prefix new (injected_by (fst (Process L (with_fanout T now (mem_ops L ord disp clk p0)) clk t (p, l))))
    \<and> carried T queue (p, l) (snd (Process L (with_fanout T now (mem_ops L ord disp clk p0)) clk t (p, l))) new"
proof -
  let ?P = "Process L (with_fanout T now (mem_ops L ord disp clk p0)) clk t (p, l)"
  show ?thesis
  proof (cases rule: process_fanout_cases [of p L T now ord disp clk p0 t l])
    case quiet
    then show ?thesis by (intro exI [of _ "[]"]) (simp add: carried_frame)
  next
    case (publishes p' evs)
    have "injected_by (fst ?P) = evs" "snd ?P = snd (publish_all (fan_publish T now) evs (p', l))"
      by (simp_all add: publishes(2) injected_by_def split: prod.split option.split)
    moreover obtain new where "prefix new evs" "carried T queue (p', l) (snd (publish_all (fan_publish T now) evs (p', l))) new"
      using publish_all_carried [OF assms] by blast
    moreover have "carried T queue (p, l) (p', l) []" using publishes(1) by (simp add: carried_frame)
    ultimately show ?thesis using carried_trans by (intro exI [of _ new]) fastforce
  qed
qed

lemma carried_foldl:
  assumes "\<And>x pl. \<exists>new. carried T queue pl (f pl x) new"
  shows "\<exists>new. carried T queue pl (foldl f pl xs) new"
proof (induction xs arbitrary: pl)
  case Nil
  have "carried T queue pl pl []" by (simp add: carried_frame)
  then show ?case by auto
next
  case (Cons x xs)
  obtain a b where "carried T queue pl (f pl x) a" "carried T queue (f pl x) (foldl f (f pl x) xs) b" using assms Cons by blast
  then have "carried T queue pl (foldl f pl (x # xs)) (a @ b)" by (simp add: carried_trans)
  then show ?case by blast
qed

lemma sweep_carried:
  assumes "broker_ok T queue"
  shows "\<exists>new. carried T queue pl (sweep lister (\<lambda>v (p, l). mem_get v p) (\<lambda>st (p, l). let (err, p) = mem_set st p in (err, p, l)) (fan_publish T now2) now pl) new"
proof -
  let ?get = "\<lambda>v (p, l). mem_get v p" and ?set = "\<lambda>st (p, l). let (err, p) = mem_set st p in (err, p, l)"
  have id: "\<exists>new. carried T queue pl pl new" for pl
    using carried_frame [of pl pl] by auto
  have one: "\<exists>new. carried T queue pl (sweep_one ?get ?set (fan_publish T now2) now pl v) new" for pl v
  proof -
    have s: "carried T queue pl (snd (?set st pl)) []" for st
      by (rule carried_frame) (simp_all add: mem_set_def case_prod_beta Let_def)
    have "\<exists>new. carried T queue pl (snd (fan_publish T now2 e (snd (?set st pl)))) new" for e st
      using carried_trans [OF s fan_publish_carried [OF assms]] by blast
    then show ?thesis using id [of pl] by (auto simp: sweep_one_def case_prod_beta Let_def split: option.split)
  qed
  have "\<exists>new. carried T queue pl (foldl (sweep_one ?get ?set (fan_publish T now2) now) pl ids) new" for ids by (rule carried_foldl) (rule one)
  then show ?thesis using id [of pl] by (simp add: sweep_def split: prod.split option.split)
qed

lemma heartbeat_carried:
  assumes "broker_ok T queue"
  shows "\<exists>new. carried T queue pl (engine_heartbeat now now2 (fan_publish T now3) regs pl) new"
proof -
  have "\<exists>new. carried T queue pl (Heartbeats now now2 (fan_publish T now3) regs pl) new" for pl
    unfolding Heartbeats_def Let_def by (rule carried_foldl) (use fan_publish_carried [OF assms] in blast)
  then show ?thesis unfolding engine_heartbeat_def using fan_publish_carried [OF assms] carried_trans by blast
qed

subsection \<open>Requests are sequences of steps\<close>

lemma api_inject_fold: "fold api_inject es s = s\<lparr>sy_direct := sy_direct s @ es, sy_injected := sy_injected s @ es\<rparr>"
  by (induction es arbitrary: s) (simp_all add: api_inject_def)

lemma ingest_loop_reach:
  "sys_reach T L ord disp s0 s \<Longrightarrow> sys_reach T L ord disp s0 (snd (ingest_loop (api_ingest T L ord disp newid co ck nows) n raws a b s))"
proof (induction raws arbitrary: n a b s)
  case (Cons raw raws)
  let ?E = "api_ingest T L ord disp newid co ck nows"
  show ?case
  proof (cases "ic_Unmarshal co raw")
    case (Inr t0)
    define t where "t = stamp_point ?E n t0"
    obtain evs dup err s1 where P: "api_process T L ord disp (ik_clocks ck n) (nows n) t s = ((evs, dup, err), s1)"
      by (cases "api_process T L ord disp (ik_clocks ck n) (nows n) t s") auto
    have step: "sys_reach T L ord disp s0 (fold api_inject (injected_by (evs, dup, err)) s1)"
      using sys_reach.api_point [OF Cons.prems, of "ik_clocks ck n" "nows n" t] by (simp add: api_point_def P)
    have E: "ie_Unmarshal ?E raw = Inr t0" "ie_Process ?E n t s = ((evs, dup, err), s1)" "ie_Inject ?E = api_inject" "ie_AppendTelemetry ?E = None"
      by (simp_all add: api_ingest_def Inr P)
    consider "err = None" | e where "err = Some (PlainError e)" | pevs e where "err = Some (PublishError pevs e)"
      by (metis option.exhaust process_error.exhaust)
    then show ?thesis
      using step Cons.prems Cons.IH [OF step, of "Suc n" "a + 1" "b + length evs"]
      by cases (auto simp: E t_def [symmetric] injected_by_def Let_def split: option.split)
  qed (simp add: Cons.prems api_ingest_def)
qed simp

lemma api_request_reach:
  "sys_reach T L ord disp s0 s \<Longrightarrow> sys_reach T L ord disp s0 (snd (handleIngest (api_ingest T L ord disp newid co ck nows) meth reqBody s))"
  by (auto simp: handleIngest_def Let_def ingest_loop_reach split: option.split)

lemma api_deliver_reach: "sys_reach T L ord disp s0 s \<Longrightarrow> sys_reach T L ord disp s0 ((api_deliver T now ^^ k) s)"
  by (induction k) (simp_all add: sys_reach.api_deliver)

subsection \<open>The invariant of the system\<close>

text \<open>The events of delivered messages that are injected: the decoded ones but heartbeats.\<close>

definition news :: "('b, 'n) transport \<Rightarrow> string list \<Rightarrow> event list" where
  "news T raws = List.map_filter (\<lambda>raw. case tp_unmarshal T raw of Inl _ \<Rightarrow> None
     | Inr e \<Rightarrow> if ev_Type e = ''tide.heartbeat.created'' then None else Some e) raws"

lemma news_simps [simp]: "news T [] = []" "news T (as @ bs) = news T as @ news T bs"
  by (simp_all add: news_def map_filter_def)

text \<open>Nothing was published, sent or injected yet.\<close>

definition fresh_system :: "('n \<Rightarrow> string list) \<Rightarrow> ('d, 'b, 'n) system \<Rightarrow> bool" where
  "fresh_system queue s \<longleftrightarrow> mp_bus (sy_engine s) = [] \<and> mp_bus (sy_api s) = [] \<and> queue (sy_net s) = []
     \<and> sy_delivered s = [] \<and> sy_direct s = [] \<and> sy_injected s = []"

definition transported :: "('b, 'n) transport \<Rightarrow> ('n \<Rightarrow> string list) \<Rightarrow> ('d, 'b, 'n) system \<Rightarrow> bool" where
  "transported T queue s \<longleftrightarrow> (\<exists>xs ys. sy_delivered s @ queue (sy_net s) \<in> shuffles xs ys
     \<and> subseq xs (wire T (mp_bus (sy_engine s))) \<and> subseq ys (wire T (mp_bus (sy_api s)))
     \<and> (broker_up T queue \<longrightarrow> xs = wire T (mp_bus (sy_engine s)) \<and> ys = wire T (mp_bus (sy_api s))))"

definition sys_inv :: "('b, 'n) transport \<Rightarrow> ('n \<Rightarrow> string list) \<Rightarrow> ('d, 'b, 'n) system \<Rightarrow> bool" where
  "sys_inv T queue s \<longleftrightarrow> transported T queue s \<and> sy_injected s \<in> shuffles (news T (sy_delivered s)) (sy_direct s)
     \<and> subseq (mp_bus (sy_api s)) (sy_direct s)"

lemma transported_engine:
  assumes "transported T queue s" "carried T queue (sy_engine s, sy_elink s, sy_net s) (p, rb, n) new"
    and s': "sy_engine s' = p" "sy_net s' = n" "sy_api s' = sy_api s" "sy_delivered s' = sy_delivered s"
  shows "transported T queue s'"
proof -
  from assms(2) obtain sent where c: "mp_bus p = mp_bus (sy_engine s) @ new" "queue n = queue (sy_net s) @ sent"
    "subseq sent (wire T new)" "broker_up T queue \<longrightarrow> sent = wire T new" by (auto simp: carried_def)
  from assms(1) obtain xs ys where *: "sy_delivered s @ queue (sy_net s) \<in> shuffles xs ys"
    "subseq xs (wire T (mp_bus (sy_engine s)))" "subseq ys (wire T (mp_bus (sy_api s)))"
    "broker_up T queue \<longrightarrow> xs = wire T (mp_bus (sy_engine s)) \<and> ys = wire T (mp_bus (sy_api s))" unfolding transported_def by blast
  have "sy_delivered s' @ queue (sy_net s') \<in> shuffles (xs @ sent) ys" using shuffles_append1 [OF *(1), of sent] s' c by simp
  moreover have "subseq (xs @ sent) (wire T (mp_bus (sy_engine s')))" using *(2) c s' by (auto intro: list_emb_append_mono)
  ultimately show ?thesis unfolding transported_def using * c s' by (intro exI [of _ "xs @ sent"] exI [of _ ys]) simp
qed

lemma transported_api:
  assumes "transported T queue s" "carried T queue (sy_api s, sy_alink s, sy_net s) (p, rb, n) new"
    and s': "sy_engine s' = sy_engine s" "sy_net s' = n" "sy_api s' = p" "sy_delivered s' = sy_delivered s"
  shows "transported T queue s'"
proof -
  from assms(2) obtain sent where c: "mp_bus p = mp_bus (sy_api s) @ new" "queue n = queue (sy_net s) @ sent"
    "subseq sent (wire T new)" "broker_up T queue \<longrightarrow> sent = wire T new" by (auto simp: carried_def)
  from assms(1) obtain xs ys where *: "sy_delivered s @ queue (sy_net s) \<in> shuffles xs ys"
    "subseq xs (wire T (mp_bus (sy_engine s)))" "subseq ys (wire T (mp_bus (sy_api s)))"
    "broker_up T queue \<longrightarrow> xs = wire T (mp_bus (sy_engine s)) \<and> ys = wire T (mp_bus (sy_api s))" unfolding transported_def by blast
  have "sy_delivered s' @ queue (sy_net s') \<in> shuffles xs (ys @ sent)" using shuffles_append2 [OF *(1), of sent] s' c by simp
  moreover have "subseq (ys @ sent) (wire T (mp_bus (sy_api s')))" using *(3) c s' by (auto intro: list_emb_append_mono)
  ultimately show ?thesis unfolding transported_def using * c s' by (intro exI [of _ xs] exI [of _ "ys @ sent"]) simp
qed

lemma transported_deliver:
  assumes "transported T queue s" "broker_ok T queue" "tp_next T (sy_net s) = Some (raw, n)"
    and s': "sy_engine s' = sy_engine s" "sy_net s' = n" "sy_api s' = sy_api s" "sy_delivered s' = sy_delivered s @ [raw]"
  shows "transported T queue s'"
proof -
  from assms(1) obtain xs ys where *: "sy_delivered s @ queue (sy_net s) \<in> shuffles xs ys"
    "subseq xs (wire T (mp_bus (sy_engine s)))" "subseq ys (wire T (mp_bus (sy_api s)))"
    "broker_up T queue \<longrightarrow> xs = wire T (mp_bus (sy_engine s)) \<and> ys = wire T (mp_bus (sy_api s))" unfolding transported_def by blast
  show ?thesis
  proof (cases "broker_up T queue")
    case True
    then have "queue (sy_net s) = raw # queue n" using assms(3) by (simp add: broker_up_def)
    then show ?thesis unfolding transported_def using * s' by (intro exI [of _ xs] exI [of _ ys]) simp
  next
    case False
    obtain lost where q: "queue (sy_net s) = lost @ raw # queue n" using assms(2,3) unfolding broker_ok_def by blast
    have "subseq (sy_delivered s' @ queue (sy_net s')) (sy_delivered s @ queue (sy_net s))"
      using s' q by (simp add: list_emb_append_mono list_emb_append2)
    from shuffles_subseq [OF this *(1)] obtain as bs where "subseq as xs" "subseq bs ys" "sy_delivered s' @ queue (sy_net s') \<in> shuffles as bs" by blast
    then show ?thesis unfolding transported_def using * s' False
      by (intro exI [of _ as] exI [of _ bs]) (auto intro: subseq_order.trans)
  qed
qed

lemma sys_inv_engine_point:
  assumes "broker_ok T queue" "sys_inv T queue s"
  shows "sys_inv T queue (engine_point T L ord disp clk now t s)"
proof -
  let ?P = "Process L (with_fanout T now (mem_ops L ord disp clk (sy_engine s))) clk t (sy_engine s, sy_elink s, sy_net s)"
  obtain r p rb n where P: "?P = (r, p, rb, n)" by (cases ?P) auto
  obtain new where "carried T queue (sy_engine s, sy_elink s, sy_net s) (p, rb, n) new"
    using process_carried [OF assms(1), of L now ord disp clk "sy_engine s" t "sy_engine s" "(sy_elink s, sy_net s)"] by (auto simp: P)
  then show ?thesis using transported_engine [of T queue s p rb n new "engine_point T L ord disp clk now t s"] assms(2)
    by (simp add: sys_inv_def engine_point_def P)
qed

lemma sys_inv_engine_tick:
  assumes "broker_ok T queue" "sys_inv T queue s"
  shows "sys_inv T queue (engine_tick T ord now now2 regs s)"
proof -
  define pl where "pl = sweep (Some (\<lambda>(p, l). (MemoryStore_ListIDs ord (mp_states p), None))) (\<lambda>v (p, l). mem_get v p)
    (\<lambda>st (p, l). let (err, p) = mem_set st p in (err, p, l)) (fan_publish T now2) now (sy_engine s, sy_elink s, sy_net s)"
  obtain p rb n where P: "engine_heartbeat now now2 (fan_publish T now2) regs pl = (p, rb, n)"
    by (cases "engine_heartbeat now now2 (fan_publish T now2) regs pl") auto
  obtain a where a: "carried T queue (sy_engine s, sy_elink s, sy_net s) pl a" unfolding pl_def using sweep_carried [OF assms(1)] by blast
  obtain b where b: "carried T queue pl (p, rb, n) b" using heartbeat_carried [OF assms(1), of pl now now2 now2 regs] by (auto simp: P)
  have "engine_tick T ord now now2 regs s = s\<lparr>sy_engine := p, sy_elink := rb, sy_net := n\<rparr>"
    unfolding engine_tick_def Let_def pl_def [unfolded Let_def, symmetric] P by simp
  then show ?thesis using transported_engine [OF _ carried_trans [OF a b], of "engine_tick T ord now now2 regs s"] assms(2)
    by (simp add: sys_inv_def)
qed

lemma sys_inv_api_point:
  assumes "broker_ok T queue" "sys_inv T queue s"
  shows "sys_inv T queue (api_point T L ord disp clk now t s)"
proof -
  let ?P = "Process L (with_fanout T now (mem_ops L ord disp clk (sy_api s))) clk t (sy_api s, sy_alink s, sy_net s)"
  obtain r p rb n where P: "?P = (r, p, rb, n)" by (cases ?P) auto
  obtain new where new: "prefix new (injected_by r)" and c: "carried T queue (sy_api s, sy_alink s, sy_net s) (p, rb, n) new"
    using process_carried [OF assms(1), of L now ord disp clk "sy_api s" t "sy_api s" "(sy_alink s, sy_net s)"] by (auto simp: P)
  let ?s = "api_point T L ord disp clk now t s"
  have s': "sy_api ?s = p" "sy_net ?s = n" "sy_engine ?s = sy_engine s" "sy_delivered ?s = sy_delivered s"
    "sy_direct ?s = sy_direct s @ injected_by r" "sy_injected ?s = sy_injected s @ injected_by r"
    by (simp_all add: api_point_def api_process_def P api_inject_fold)
  have "transported T queue ?s" using transported_api [OF _ c, of ?s] assms(2) s' by (simp add: sys_inv_def)
  moreover have "mp_bus p = mp_bus (sy_api s) @ new" using c by (simp add: carried_def)
  ultimately show ?thesis using assms(2) new s'
    by (auto simp: sys_inv_def intro: shuffles_append2 list_emb_append_mono prefix_imp_subseq)
qed

lemma sys_inv_api_deliver:
  assumes "broker_ok T queue" "sys_inv T queue s"
  shows "sys_inv T queue (api_deliver T now s)"
proof (cases "tp_next T (sy_net s)")
  case (Some rn)
  obtain raw n where rn: "rn = (raw, n)" by (cases rn)
  let ?s = "api_deliver T now s"
  have s': "sy_engine ?s = sy_engine s" "sy_net ?s = n" "sy_api ?s = sy_api s" "sy_delivered ?s = sy_delivered s @ [raw]" "sy_direct ?s = sy_direct s"
    "sy_injected ?s = sy_injected s @ news T [raw]"
    by (simp_all add: api_deliver_def Some rn forward_def news_def map_filter_def case_prod_beta Let_def split: sum.split)
  have "transported T queue ?s" using transported_deliver [OF _ assms(1), of s raw n ?s] assms(2) Some rn s' by (simp add: sys_inv_def)
  then show ?thesis using assms(2) s' shuffles_append1 by (auto simp: sys_inv_def)
qed (use assms(2) in \<open>simp add: api_deliver_def\<close>)

lemma sys_inv_reach:
  assumes "broker_ok T queue" "fresh_system queue s0" "sys_reach T L ord disp s0 s"
  shows "sys_inv T queue s"
  using assms(3)
proof induction
  case start
  show ?case using assms(2) by (auto simp: sys_inv_def transported_def fresh_system_def)
qed (simp_all add: sys_inv_engine_point sys_inv_engine_tick sys_inv_api_point sys_inv_api_deliver assms(1))

subsection \<open>The in-memory leg\<close>

text \<open>
  With a transport on which encoding, publishing and dialling succeed, the NATS leg is invisible to the pipeline: results
  and in-memory state are those of the pipeline with the memory bus alone, so that the theorems on \<open>mem_Process\<close> apply.
\<close>

definition good_link :: "('b, 'n) transport \<Rightarrow> bool" where
  "good_link T \<longleftrightarrow> (\<forall>e. \<exists>raw. tp_marshal T e = Inr raw) \<and> (\<forall>b s raw n. fst (tp_publish T b s raw n) = None) \<and> (\<forall>n. \<exists>b. fst (tp_dial T n) = Inr b)"

lemma link_publish_good:
  assumes "good_link T"
  shows "fst (link_publish T now e l) = event_Validate e"
proof (cases "event_Validate e")
  case None
  obtain raw where "tp_marshal T e = Inr raw" using assms unfolding good_link_def by blast
  then have "NATSBus_Publish (tp_marshal T) (tp_publish T (rb_bus (fst l))) e (snd l) = (None, snd (tp_publish T (rb_bus (fst l)) (Subject e) raw (snd l)))"
    using assms by (simp add: NATSBus_Publish_def None good_link_def prod_eq_iff)
  then show ?thesis by (simp add: link_publish_def ResilientBus_Publish_def None)
next
  case (Some err)
  obtain b where "fst (tp_dial T (snd l)) = Inr b" using assms unfolding good_link_def by blast
  then show ?thesis by (simp add: link_publish_def ResilientBus_Publish_def NATSBus_Publish_def Some rb_fail_def case_prod_beta Let_def)
qed

lemma fan_publish_good: "good_link T \<Longrightarrow> apsnd fst (fan_publish T now e (p, l)) = mem_publish e p"
  using link_publish_good [of T now e l]
  by (auto simp: fan_publish_def FanOut_Publish_def mem_publish_def MemoryBus_Publish_def case_prod_beta Let_def apsnd_def map_prod_def split: option.split)

lemma fan_refinement:
  assumes "good_link T"
  shows "process_refinement (with_fanout T now (mem_ops L ord disp clk p0)) (mem_ops L ord disp clk p0) fst (\<lambda>_. True) (\<lambda>_. True)"
proof unfold_locales
  fix pl e
  show "po_Publish (mem_ops L ord disp clk p0) e (fst pl) = apsnd fst (po_Publish (with_fanout T now (mem_ops L ord disp clk p0)) e pl)
      \<and> True"
    using fan_publish_good [OF assms, of now e "fst pl" "snd pl"] by (simp add: with_fanout_def mem_ops_def mem_publish_def)
qed (auto simp: with_fanout_def mem_ops_def case_prod_beta Let_def split: if_splits)

lemma fan_transparent:
  "good_link T \<Longrightarrow> apsnd fst (Process L (with_fanout T now (mem_ops L ord disp clk p)) clk t (p, l)) = mem_Process L ord disp clk t p"
  using process_refinement.process_refines [OF fan_refinement [of T now L ord disp clk p], where p = "(p, l)" and clk = clk and t = t and L = L] by (simp add: mem_Process_def)

subsection \<open>Draining the subscription\<close>

lemma api_deliver_frame [simp]: "sy_api (api_deliver T now s) = sy_api s" "sy_direct (api_deliver T now s) = sy_direct s"
  by (simp_all add: api_deliver_def case_prod_beta Let_def split: option.split prod.split)

lemma api_drain_frame [simp]: "sy_api ((api_deliver T now ^^ k) s) = sy_api s" "sy_direct ((api_deliver T now ^^ k) s) = sy_direct s"
  by (induction k) simp_all

lemma api_drained:
  assumes "broker_up T queue"
  shows "queue (sy_net ((api_deliver T now ^^ length (queue (sy_net s))) s)) = []"
proof (induction "length (queue (sy_net s))" arbitrary: s)
  case (Suc k)
  then have "queue (sy_net s) \<noteq> []" by auto
  then obtain raw n where n: "tp_next T (sy_net s) = Some (raw, n)" using assms unfolding broker_up_def by (metis option.exhaust surj_pair)
  then have q: "queue (sy_net s) = raw # queue n" using assms by (simp add: broker_up_def)
  have "sy_net (api_deliver T now s) = n" by (simp add: api_deliver_def n case_prod_beta Let_def)
  then show ?case using Suc(1) [of "api_deliver T now s"] Suc(2) q by (simp add: funpow_Suc_right del: funpow.simps)
qed simp

subsection \<open>Counting\<close>

lemma count_map_filter_shuffles:
  "zs \<in> shuffles xs ys \<Longrightarrow> count_list (List.map_filter f zs) e = count_list (List.map_filter f xs) e + count_list (List.map_filter f ys) e"
  by (induction xs ys arbitrary: zs rule: shuffles.induct) (auto simp: map_filter_simps split: option.split)

lemma count_shuffles: "zs \<in> shuffles xs ys \<Longrightarrow> count_list zs e = count_list xs e + count_list ys e"
  by (induction xs ys arbitrary: zs rule: shuffles.induct) auto

lemma count_subseq: "subseq xs ys \<Longrightarrow> count_list xs e \<le> count_list ys e"
  by (induction rule: list_emb.induct) auto

lemma count_news_wire:
  assumes "tp_marshal T e = Inr raw" "tp_unmarshal T raw = Inr e" "ev_Type e \<noteq> ''tide.heartbeat.created''"
  shows "count_list es e \<le> count_list (news T (wire T es)) e"
proof (induction es)
  case (Cons x es)
  have "wire T (x # es) = wire T [x] @ wire T es" using wire_simps(2) [of T "[x]" es] by simp
  moreover have "news T (wire T [e]) = [e]" using assms by (simp add: wire_def news_def map_filter_simps)
  ultimately show ?case using Cons by (cases "x = e") simp_all
qed simp

subsection \<open>Outages\<close>

text \<open>The events of a call do not depend on the bus.\<close>

lemma process_events_publish: "fst (fst (Process L (ops\<lparr>po_Publish := pub\<rparr>) clk t p)) = fst (fst (Process L ops clk t p))"
  by (simp add: Process_def detect_and_publish_def case_prod_beta Let_def split: option.split)

lemma fan_events: "fst (fst (Process L (with_fanout T now (mem_ops L ord disp clk p)) clk t (p, l))) = fst (fst (mem_Process L ord disp clk t p))"
proof -
  let ?f = "with_fanout T now (mem_ops L ord disp clk p)\<lparr>po_Publish := \<lambda>e pl. (None, pl)\<rparr>" and ?m = "mem_ops L ord disp clk p\<lparr>po_Publish := \<lambda>e p. (None, p)\<rparr>"
  have "process_refinement ?f ?m fst (\<lambda>_. True) (\<lambda>_. True)"
    by unfold_locales (auto simp: with_fanout_def mem_ops_def case_prod_beta Let_def split: if_splits)
  from process_refinement.process_refines [OF this, where p = "(p, l)" and clk = clk and t = t and L = L]
  have "Process L ?m clk t p = apsnd fst (Process L ?f clk t (p, l))" by simp
  then have "fst (fst (Process L ?m clk t p)) = fst (fst (Process L ?f clk t (p, l)))" by (simp add: apsnd_def map_prod_def case_prod_beta)
  then show ?thesis by (simp only: process_events_publish mem_Process_def)
qed

text \<open>The states of the transport in which publications fail; dialling and closing do not end an outage by themselves.\<close>

definition outage :: "('b, 'n) transport \<Rightarrow> ('n \<Rightarrow> bool) \<Rightarrow> bool" where
  "outage T down \<longleftrightarrow> (\<forall>b s raw n. down n \<longrightarrow> fst (tp_publish T b s raw n) \<noteq> None \<and> down (snd (tp_publish T b s raw n)))
     \<and> (\<forall>n. down n \<longrightarrow> down (snd (tp_dial T n))) \<and> (\<forall>b n. down n \<longrightarrow> down (tp_close T b n))"

lemma link_publish_down:
  assumes "outage T down" "down (snd l)"
  shows "fst (link_publish T now e l) \<noteq> None"
proof -
  have pub: "fst (NATSBus_Publish (tp_marshal T) (tp_publish T b) e n) \<noteq> None" "down (snd (NATSBus_Publish (tp_marshal T) (tp_publish T b) e n))" if "down n" for b n
    using assms(1) that by (simp_all add: outage_def NATSBus_Publish_def split: option.split sum.split)
  let ?n1 = "snd (NATSBus_Publish (tp_marshal T) (tp_publish T (rb_bus (fst l))) e (snd l))"
  have "down (tp_close T (rb_bus (fst l)) (snd (tp_dial T ?n1)))" using assms pub(2) [OF assms(2)] by (simp add: outage_def)
  from pub(1) [OF this] pub(1) [OF assms(2)] show ?thesis
    by (auto simp: link_publish_def ResilientBus_Publish_def rb_fail_def case_prod_beta Let_def split: option.split sum.split) (metis option.distinct(1))
qed

lemma publish_all_outage:
  assumes "outage T down" "down (snd l)"
  shows "\<exists>x. publish_all (fan_publish T now) (e # es) (p, l) = (Some x, snd (mem_publish e p), snd (link_publish T now e l))"
  using link_publish_down [OF assms, of now e] by (auto simp: fan_publish_def FanOut_Publish_def case_prod_beta Let_def)

lemma process_outage:
  assumes "outage T down" "down (snd l)" "Process L (with_fanout T now (mem_ops L ord disp clk p0)) clk t (p, l) = ((evs, dup, err), p', l')"
  shows "(\<forall>e \<in> set evs. event_Validate e = None) \<longrightarrow> mp_bus p' = mp_bus p @ take 1 evs" "evs \<noteq> [] \<longrightarrow> err \<noteq> None"
proof -
  have "((\<forall>e \<in> set evs. event_Validate e = None) \<longrightarrow> mp_bus p' = mp_bus p @ take 1 evs) \<and> (evs \<noteq> [] \<longrightarrow> err \<noteq> None)"
  proof (cases rule: process_fanout_cases [of p L T now ord disp clk p0 t l])
    case quiet
    then show ?thesis using assms(3) by simp
  next
    case (publishes q es)
    then have es: "es = evs" using assms(3) by (auto split: prod.splits option.splits)
    show ?thesis
    proof (cases evs)
      case Nil
      then show ?thesis using publishes assms(3) es by simp
    next
      case (Cons e es')
      from publish_all_outage [OF assms(1,2), of now e es' q] publishes(2) assms(3)
      have "p' = snd (mem_publish e q)" "err \<noteq> None" unfolding es Cons by auto
      then show ?thesis using Cons publishes(1) by (simp add: mem_publish_def MemoryBus_Publish_def)
    qed
  qed
  then show "(\<forall>e \<in> set evs. event_Validate e = None) \<longrightarrow> mp_bus p' = mp_bus p @ take 1 evs" "evs \<noteq> [] \<longrightarrow> err \<noteq> None" by blast+
qed

text \<open>
  An event that fails its own validation is taken for a broken connection: a connection is dialled, the working one is closed,
  and \<open>Connections\<close> shows the event bus as degraded for ten minutes, although the transport has no fault.
\<close>

lemma invalid_event_degrades_bus:
  assumes "event_Validate e = Some err" "tp_dial T n = (Inr b, n')" "now \<noteq> 0" "now \<le> now'" "now' - now < 10 * Minute"
  shows "link_publish T now e (rb, n) = (Some err, rb\<lparr>rb_bus := b, rb_lastErr := now, rb_lastMsg := err\<rparr>, tp_close T (rb_bus rb) n')"
    and "bus_health now' (fst (snd (link_publish T now e (rb, n)))) reg ''eventbus''
      = Some \<lparr>re_Status = \<lparr>hs_State = StateDegraded, hs_Message = err, hs_DeviceCount = 0, hs_MsgPerSec = Fin 0\<rparr>, re_At = now'\<rparr>"
proof -
  show l: "link_publish T now e (rb, n) = (Some err, rb\<lparr>rb_bus := b, rb_lastErr := now, rb_lastMsg := err\<rparr>, tp_close T (rb_bus rb) n')"
    using assms(1,2) by (simp add: link_publish_def ResilientBus_Publish_def NATSBus_Publish_def rb_fail_def Let_def)
  have "time_Sub now' now < 10 * Minute" using assms(5) time_Sub_lt_iff [of "10 * Minute" now' now] by (simp add: in_int64_def)
  then show "bus_health now' (fst (snd (link_publish T now e (rb, n)))) reg ''eventbus''
      = Some \<lparr>re_Status = \<lparr>hs_State = StateDegraded, hs_Message = err, hs_DeviceCount = 0, hs_MsgPerSec = Fin 0\<rparr>, re_At = now'\<rparr>"
    using assms(3) unfolding l by (simp add: bus_health_def LastError_def IsZero_def AdapterRegistry_Set_def)
qed

text \<open>On the in-memory pipeline a point with a correlation id has all its events published.\<close>

lemma mem_Process_bus:
  assumes "md_CorrelationID (tel_Metadata t) \<noteq> []"
  shows "(\<forall>e \<in> set (fst (fst (mem_Process L ord disp clk t p))). event_Validate e = None)
    \<and> mp_bus (snd (mem_Process L ord disp clk t p)) = mp_bus p @ fst (fst (mem_Process L ord disp clk t p))"
proof (cases "accepted clk t")
  case acc: True
  have "mp_bus (snd (mem_Process L ord disp clk t p)) = mp_bus p @ fst (fst (mem_Process L ord disp clk t p))"
    using mem_run_publishes [of "[(clk, t)]" L ord disp p] acc assms by (simp add: case_prod_beta Let_def)
  moreover have "\<forall>e \<in> set (fst (fst (mem_Process L ord disp clk t p))). event_Validate e = None"
  proof (cases "duplicate L clk t p")
    case True
    then show ?thesis by (simp add: mem_Process_duplicate [OF acc])
  next
    case False
    have "telemetry_Validate t = None" using acc by (simp add: accepted_def)
    from point_events_valid [OF this assms] show ?thesis using mem_Process_fresh_result [OF acc False refl refl, of ord disp] by simp
  qed
  ultimately show ?thesis by blast
next
  case False
  then show ?thesis using mem_Process_rejected [OF False, of L ord disp p] by auto
qed

subsection \<open>Properties\<close>


text \<open>A broker that is a list, with the encoding of one event, and two fresh processes.\<close>

definition list_broker :: "event \<Rightarrow> (unit, string list) transport" where
  "list_broker e0 =
     \<lparr>tp_marshal = (\<lambda>e. Inr (ev_ID e)), tp_unmarshal = (\<lambda>raw. if raw = ev_ID e0 then Inr e0 else Inl ''unknown''),
      tp_publish = (\<lambda>b s raw n. (None, n @ [raw])), tp_dial = (\<lambda>n. (Inr (), n)), tp_close = (\<lambda>b n. n),
      tp_next = (\<lambda>n. case n of [] \<Rightarrow> None | raw # n \<Rightarrow> Some (raw, n))\<rparr>"

definition eager_pipeline :: "unit mem_pipeline" where
  "eager_pipeline = NewTestPipeline\<lparr>mp_tracker := NewTracker (DefaultDetConfig\<lparr>cfg_SpeedForSecs := 0\<rparr>)\<rparr>"

definition calm_system :: "(unit, unit, string list) system" where
  "calm_system = \<lparr>sy_engine = eager_pipeline, sy_elink = NewResilientBus (), sy_api = eager_pipeline, sy_alink = NewResilientBus (),
     sy_net = [], sy_registry = Map.empty, sy_delivered = [], sy_direct = [], sy_injected = []\<rparr>"

lemmas eager_simps = eager_pipeline_def NewTestPipeline_def

lemma list_broker_props: "broker_ok (list_broker e0) id" "broker_up (list_broker e0) id" "good_link (list_broker e0)" "fresh_system id calm_system"
  by (auto simp: list_broker_def broker_ok_def broker_up_def good_link_def fresh_system_def calm_system_def eager_simps split: list.splits)

text \<open>A fast point: speeding and a trip start.\<close>

definition fast_point :: telemetry where
  "fast_point = point_at ''v'' 1 (Some (Fin 120)) None None"

definition fast_events :: "event list" where
  "fast_events = fst (fst (mem_Process plain_lib sorted_list_of_set (\<lambda>_ _ _ d. (None, d)) (clk_at 5) fast_point eager_pipeline))"

definition first_event :: event where
  "first_event = hd fast_events"

lemma fast_point_correlated: "md_CorrelationID (tel_Metadata fast_point) \<noteq> []"
  by (simp add: fast_point_def point_at_simps)

lemma fast_point_events: "2 \<le> length fast_events" "ev_Type first_event \<noteq> ''tide.heartbeat.created''"
proof -
  let ?disp = "\<lambda>_ _ _ d. (None, d) :: go_error option \<times> unit" and ?tr = "NewTracker (DefaultDetConfig\<lparr>cfg_SpeedForSecs := 0\<rparr>)"
  let ?s = "fst (Apply (ck_apply (clk_at 5)) (state_of eager_pipeline (tel_VehicleID fast_point)) fast_point)"
  have "telemetry_Validate fast_point = None" unfolding fast_point_def by (rule point_at_valid) simp_all
  then have a: "accepted (clk_at 5) fast_point" by (simp add: accepted_def fast_point_def clk_at_def MaxFutureSkew_def point_at_simps)
  have d: "\<not> duplicate plain_lib (clk_at 5) fast_point eager_pipeline"
    by (simp add: duplicate_def eager_pipeline_def NewTestPipeline_start MemoryStore_Seen_def)
  have "vs_Motion ?s = MotionMoving"
    by (simp add: Apply_Motion is_late_def state_of_def eager_pipeline_def NewTestPipeline_start zero_vehicle_state_def IsZero_def
        classifyMotion_def fast_point_def point_at_simps MovingThresholdKmh_def StoppedThresholdKmh_def)
  then have "1 \<le> length (snd (trip_step plain_lib (tk_cfg ?tr) fast_point ?s (trip_of ?tr (tel_VehicleID fast_point))))"
    by (simp add: trip_step_def trip_start_def zero_trip_def Let_def case_prod_beta)
  moreover have "fle (f_of_int 0) (Seconds 0)" using Seconds_ge_iff [of 0 0] by (simp add: in_int64_def)
  then obtain c pl where sp: "snd (speeding_step (tk_cfg ?tr) fast_point (speeding_of ?tr (tel_VehicleID fast_point))) = [mkEvent ''vehicle.speeding.started'' fast_point c pl]"
    by (simp add: speeding_step_def DefaultDetConfig_def fast_point_def point_at_simps speedOf_def zero_speeding_def IsZero_def Let_def)
  moreover have fe: "fast_events = snd (Detect plain_lib fast_point ?s ?tr)"
    using mem_Process_fresh_result [OF a d refl refl, of sorted_list_of_set ?disp]
    by (simp add: fast_events_def point_events_def geo_part_def rules_part_def eager_simps)
  ultimately show "2 \<le> length fast_events" unfolding fe by (simp add: Detect_events)
  show "ev_Type first_event \<noteq> ''tide.heartbeat.created''"
    unfolding first_event_def fe Detect_events sp by (simp add: mkEvent_def)
qed

text \<open>The system after the point was ingested by the API.\<close>

definition api_busy :: "(unit, unit, string list) system" where
  "api_busy = api_point (list_broker first_event) plain_lib sorted_list_of_set (\<lambda>_ _ _ d. (None, d)) (clk_at 5) 5 fast_point calm_system"

lemma api_busy_props:
  "sys_reach (list_broker first_event) plain_lib sorted_list_of_set (\<lambda>_ _ _ d. (None, d)) calm_system api_busy" "first_event \<in> set (mp_bus (sy_api api_busy))"
proof -
  show "sys_reach (list_broker first_event) plain_lib sorted_list_of_set (\<lambda>_ _ _ d. (None, d)) calm_system api_busy"
    unfolding api_busy_def by (intro sys_reach.api_point sys_reach.start)
  have "sy_api api_busy = snd (mem_Process plain_lib sorted_list_of_set (\<lambda>_ _ _ d. (None, d)) (clk_at 5) fast_point eager_pipeline)"
    using fan_transparent [OF list_broker_props(3) [of first_event], where p = eager_pipeline and l = "(NewResilientBus (), [])" and L = plain_lib and now = 5
        and ord = sorted_list_of_set and disp = "\<lambda>_ _ _ d. (None, d)" and clk = "clk_at 5" and t = fast_point, symmetric]
    by (simp add: api_busy_def api_point_def api_process_def api_inject_fold calm_system_def case_prod_beta Let_def)
  then have "mp_bus (sy_api api_busy) = fast_events"
    using mem_Process_bus [OF fast_point_correlated, of plain_lib sorted_list_of_set "\<lambda>_ _ _ d. (None, d)" "clk_at 5" eager_pipeline]
    by (simp add: fast_events_def eager_simps)
  then show "first_event \<in> set (mp_bus (sy_api api_busy))" using fast_point_events(1) by (auto simp: first_event_def intro!: hd_in_set)
qed


text \<open>C38: The API injects the events of its own points twice. Once with the ingestion request and once more when its
  own subscription, which takes all subjects \<open>tide.events.>\<close>, gets them back from the broker: with the broker up,
  and after the waiting messages were delivered, every event of the API's bus has been handed to the WebSocket clients and
  the event log at least twice as often as it was published.\<close>

theorem api_events_injected_twice:
  assumes "broker_ok T queue" "broker_up T queue" "fresh_system queue s0" "sys_reach T L ord disp s0 s"
    and "tp_marshal T e = Inr raw" "tp_unmarshal T raw = Inr e" "ev_Type e \<noteq> ''tide.heartbeat.created''"
  shows "2 * count_list (mp_bus (sy_api s)) e \<le> count_list (sy_injected ((api_deliver T now ^^ length (queue (sy_net s))) s)) e"
proof -
  define s' where "s' = (api_deliver T now ^^ length (queue (sy_net s))) s"
  have "sys_reach T L ord disp s0 s'" unfolding s'_def by (rule api_deliver_reach [OF assms(4)])
  then have inv: "sys_inv T queue s'" by (rule sys_inv_reach [OF assms(1,3)])
  have same: "sy_api s' = sy_api s" "queue (sy_net s') = []" by (simp_all add: s'_def api_drained [OF assms(2)])
  from inv same assms(2) have "sy_delivered s' \<in> shuffles (wire T (mp_bus (sy_engine s'))) (wire T (mp_bus (sy_api s)))"
    by (auto simp: sys_inv_def transported_def)
  then have "count_list (news T (sy_delivered s')) e = count_list (news T (wire T (mp_bus (sy_engine s')))) e + count_list (news T (wire T (mp_bus (sy_api s)))) e"
    unfolding news_def by (rule count_map_filter_shuffles)
  moreover have "count_list (mp_bus (sy_api s)) e \<le> count_list (sy_direct s') e" using inv same by (auto simp: sys_inv_def intro: count_subseq)
  moreover have "count_list (sy_injected s') e = count_list (news T (sy_delivered s')) e + count_list (sy_direct s') e"
    using inv by (auto simp: sys_inv_def intro: count_shuffles)
  ultimately show ?thesis unfolding s'_def [symmetric] using count_news_wire [OF assms(5-7), of "mp_bus (sy_api s)"] by linarith
qed

theorem api_events_injected_twice_witness:
  "2 \<le> count_list (sy_injected ((api_deliver (list_broker first_event) 6 ^^ length (sy_net api_busy)) api_busy)) first_event"
proof -
  have "tp_marshal (list_broker first_event) first_event = Inr (ev_ID first_event)" "tp_unmarshal (list_broker first_event) (ev_ID first_event) = Inr first_event"
    by (simp_all add: list_broker_def)
  from api_events_injected_twice [OF list_broker_props(1,2,4) api_busy_props(1) this, of 6] fast_point_events(2)
  have "2 * count_list (mp_bus (sy_api api_busy)) first_event
      \<le> count_list (sy_injected ((api_deliver (list_broker first_event) 6 ^^ length (sy_net api_busy)) api_busy)) first_event" by simp
  moreover have "0 < count_list (mp_bus (sy_api api_busy)) first_event" using api_busy_props(2) by (metis count_list_0_iff gr0I)
  ultimately show ?thesis by linarith
qed

text \<open>A NATS outage cuts off the events of a point. With the memory bus alone every event of a point that carries a
  correlation id is published. While publications to NATS fail, the fan-out still hands the first event to the memory bus, but
  its error ends the loop of \<open>Process\<close>, so that of the same events only the first reaches the memory bus.\<close>

lemma nats_outage_truncates:
  assumes "outage T down" "down (snd l)" "md_CorrelationID (tel_Metadata t) \<noteq> []"
    and "fst (fst (mem_Process L ord disp clk t p)) = evs"
  shows "mp_bus (snd (mem_Process L ord disp clk t p)) = mp_bus p @ evs
    \<and> mp_bus (fst (snd (Process L (with_fanout T now (mem_ops L ord disp clk p)) clk t (p, l)))) = mp_bus p @ take 1 evs"
proof -
  let ?P = "Process L (with_fanout T now (mem_ops L ord disp clk p)) clk t (p, l)"
  note mem = mem_Process_bus [OF assms(3), of L ord disp clk p, unfolded assms(4)]
  obtain evs' dup err p' l' where P: "?P = ((evs', dup, err), p', l')" by (metis surj_pair)
  then have "evs' = evs" using fan_events [of L T now ord disp clk p t l] assms(4) by simp
  then show ?thesis using process_outage(1) [OF assms(1,2) P] mem P by simp
qed

definition closed_broker :: "(unit, string list) transport" where
  "closed_broker = list_broker first_event \<lparr>tp_publish := \<lambda>b s raw n. (Some ''nats: connection closed'', n)\<rparr>"

lemma closed_broker_outage: "outage closed_broker (\<lambda>_. True)"
  by (simp add: outage_def closed_broker_def)

lemma nats_outage_truncates_example:
  "length (mp_bus (snd (mem_Process plain_lib sorted_list_of_set (\<lambda>_ _ _ d. (None, d)) (clk_at 5) fast_point eager_pipeline))) \<ge> 2
   \<and> length (mp_bus (fst (snd (Process plain_lib (with_fanout closed_broker 5 (mem_ops plain_lib sorted_list_of_set (\<lambda>_ _ _ d. (None, d)) (clk_at 5) eager_pipeline))
         (clk_at 5) fast_point (eager_pipeline, NewResilientBus (), []))))) = 1"
  using nats_outage_truncates [OF closed_broker_outage TrueI, of fast_point plain_lib sorted_list_of_set
      "\<lambda>_ _ _ d. (None, d)" "clk_at 5" eager_pipeline fast_events 5 "(NewResilientBus (), [])"] fast_point_correlated fast_point_events(1)
  by (simp add: fast_events_def [symmetric]) (simp add: eager_simps)

text \<open>C37: A NATS outage ends a Traccar source. When a poll during an outage returns a position that causes an event, the error
  of the fan-out comes back through \<open>Process\<close> and \<open>emit\<close> to the poll loop, which returns: the source is disconnected and
  stays stopped whatever ticks follow, also after NATS has recovered.\<close>

theorem nats_outage_ends_polling:
  assumes "outage T down" "down n"
    and "traccar_Connect http a (h, c, p, rb, n) = ((None, a1), h1, c, p, rb, n)"
    and "fetchPositions http decode a1 (h1, c, p, rb, n) = (Inr (q # qs), h2, c, p, rb, n)"
    and "unmarshal (marshal q) = Inr q" "PositionToTelemetry (ra_tenant a1) q (clock (h2, c, p, rb, n)) = Inr t"
    and "fst (fst (mem_Process L ord disp (clk h2) t p)) \<noteq> []"
  shows "\<exists>w'. \<forall>is. run_traccar http decode marshal unmarshal clock (engine_emit T L ord disp clk now) (PollTick # is) (a, h, c, p, rb, n)
    = (Stopped, a1\<lparr>ra_state := StateConfigured\<rparr>, w')"
proof -
  let ?emit = "engine_emit T L ord disp clk now" and ?w = "(h2, c, p, rb, n)"
  let ?h = "traccar_handler unmarshal clock ?emit a1"
  obtain evs dup err p' l' where P: "Process L (with_fanout T (now h2) (mem_ops L ord disp (clk h2) p)) (clk h2) t (p, rb, n) = ((evs, dup, err), p', l')"
    by (metis surj_pair)
  have "evs \<noteq> []" using fan_events [of L T "now h2" ord disp "clk h2" p t "(rb, n)"] assms(7) by (simp add: P)
  then obtain pe where "err = Some pe" using process_outage(2) [OF assms(1) _ P] assms(2) by auto
  then have "?h (marshal q) ?w = (Some (process_error_string pe), h2, c, p', l')"
    using assms(5,6) by (simp add: traccar_handler_def traccar_HandleRaw_def engine_emit_def emitting_def P)
  then have bad: "hand_over marshal ?h (q # qs) ?w = (Some (process_error_string pe), h2, c, p', l')" by simp
  then have "fst (hand_over marshal ?h (q # qs) ?w) \<noteq> None" by simp
  note ends = poll_fails [OF assms(4) this]
  have "run_traccar http decode marshal unmarshal clock ?emit (PollTick # is) (a, h, c, p, rb, n) = (Stopped, a1\<lparr>ra_state := StateConfigured\<rparr>, h2, c, p', l')" for "is"
    using ends [of "is"] bad assms(3) by (auto simp: run_traccar_def traccar_Disconnect_def simp del: traccar_Subscribe.simps hand_over.simps)
  then show ?thesis by blast
qed

text \<open>A vehicle that was speeding and now stands.\<close>

definition speeding_pipeline :: "unit mem_pipeline" where
  "speeding_pipeline = NewTestPipeline\<lparr>mp_tracker := (NewTracker DefaultDetConfig)\<lparr>tk_speeding := \<lambda>_. Some \<lparr>sp_since = 1, sp_started = True, sp_lastContinued = 1\<rparr>\<rparr>\<rparr>"

lemma speeding_pipeline_events:
  "fst (fst (mem_Process plain_lib sorted_list_of_set (\<lambda>_ _ _ d. (None, d)) (clk_at 5) (position_telemetry ''t'' good_position 5) speeding_pipeline)) \<noteq> []"
proof -
  let ?t = "position_telemetry ''t'' good_position 5" and ?disp = "\<lambda>_ _ _ d. (None, d) :: go_error option \<times> unit"
  have "telemetry_Validate ?t = None" using good_position_ok [of 5] by (simp add: PositionToTelemetry_def Let_def split: option.splits)
  then have a: "accepted (clk_at 5) ?t" by (simp add: accepted_def position_telemetry_def good_position_def clk_at_def MaxFutureSkew_def)
  have d: "\<not> duplicate plain_lib (clk_at 5) ?t speeding_pipeline"
    by (simp add: duplicate_def speeding_pipeline_def NewTestPipeline_start MemoryStore_Seen_def)
  have "\<not> flt (Fin 100) (fmul (Fin 0) (rnd (1852 / 1000)))" by (cases "rnd (1852 / 1000)") (simp_all add: fsign_def finf_def)
  then have "snd (speeding_step DefaultDetConfig ?t \<lparr>sp_since = 1, sp_started = True, sp_lastContinued = 1\<rparr>) \<noteq> []"
    by (simp add: speeding_step_def DefaultDetConfig_def speedOf_def position_telemetry_def good_position_def)
  then show ?thesis using mem_Process_fresh_result [OF a d refl refl, of sorted_list_of_set ?disp]
    by (simp add: point_events_def Detect_events speeding_pipeline_def NewTestPipeline_def track_of_defs Let_def)
qed

theorem nats_outage_ends_polling_witness:
  "\<exists>w'. \<forall>is. run_traccar (\<lambda>_ _ w. (Inr (200, []), w)) (\<lambda>_. Inr [good_position]) (\<lambda>_. ''p'') (\<lambda>_. Inr good_position) (\<lambda>_. 5)
      (engine_emit closed_broker plain_lib sorted_list_of_set (\<lambda>_ _ _ d. (None, d)) (\<lambda>_. clk_at 5) (\<lambda>_. 5)) (PollTick # is)
      (traccar_New (\<lambda>s. s) ''u'' ''n'' ''p'' ''t'', (), 0, speeding_pipeline, NewResilientBus (), [])
    = (Stopped, traccar_New (\<lambda>s. s) ''u'' ''n'' ''p'' ''t'', w')"
proof -
  let ?a = "traccar_New (\<lambda>s. s) ''u'' ''n'' ''p'' ''t''" and ?http = "\<lambda>_ _ w. (Inr (200, []), w)"
  let ?a1 = "?a\<lparr>ra_state := StateHealthy\<rparr>" and ?w = "((), 0, speeding_pipeline, NewResilientBus (), [])"
  have c: "traccar_Connect ?http ?a ?w = ((None, ?a1), ?w)" by (simp add: traccar_Connect_def traccar_New_def)
  have f: "fetchPositions ?http (\<lambda>_. Inr [good_position]) ?a1 ?w = (Inr (good_position # []), ?w)" by (simp add: fetchPositions_def)
  have "PositionToTelemetry (ra_tenant ?a1) good_position 5 = Inr (position_telemetry ''t'' good_position 5)" by (simp add: traccar_New_def good_position_ok)
  from nats_outage_ends_polling [OF closed_broker_outage TrueI c f, of "\<lambda>_. Inr good_position" "\<lambda>_. ''p''" "\<lambda>_. 5", OF refl this,
      where clk = "\<lambda>_. clk_at 5" and L = plain_lib and ord = sorted_list_of_set and disp = "\<lambda>_ _ _ d. (None, d)" and now = "\<lambda>_. 5"] speeding_pipeline_events
  show ?thesis by (simp add: traccar_New_def)
qed

end
