(* ===== verification/Concurrent.thy ===== *)
theory Concurrent
  imports Pipeline "HOL-Library.Multiset"
begin

section \<open>Concurrent calls of Process (internal/pipeline)\<close>

text \<open>
  The HTTP server and the adapters call \<open>Process\<close> from many goroutines. Every operation \<open>Process\<close> calls holds the
  mutex of its own component, but nothing holds a lock over the whole call. Here a call is a sequence of phases,
  one operation of an interface each, and the phases of different calls interleave freely. Run alone, the
  phases are \<open>Process\<close>. The four clock readings of a call are fixed when it starts, at arbitrary values.
\<close>

datatype phase =
    PEntry
  | PAppend
  | PGet
  | PSet vehicle_state
  | PDetect vehicle_state
  | PGeo vehicle_state "event list"
  | PRules vehicle_state "event list"
  | PPublish "event list" "event list"
  | PReturn process_result

text \<open>One phase: the checks and \<open>Seen\<close>, then one operation at a time; \<open>PPublish evs es\<close> has \<open>es\<close> left to publish.\<close>

fun proc_step :: "go_lib \<Rightarrow> 'p pipeline_ops \<Rightarrow> clocks \<Rightarrow> telemetry \<Rightarrow> phase \<Rightarrow> 'p \<Rightarrow> phase \<times> 'p" where
  "proc_step L ops clk t PEntry p =
     (case telemetry_Validate t of
        Some err \<Rightarrow> (PReturn ([], False, Some (PlainError err)), p)
      | None \<Rightarrow>
          if ck_skew clk + MaxFutureSkew < tel_Timestamp t
          then (PReturn ([], False, Some (PlainError (''timestamp '' @ format_rfc3339 (tel_Timestamp t) @ '' too far in future''))), p)
          else case po_Seen ops (DedupKey L t) p of
            ((dup, Some err), p) \<Rightarrow> (PReturn ([], False, Some (PlainError err)), p)
          | ((dup, None), p) \<Rightarrow> (if dup then PReturn ([], True, None) else PAppend, p))"
| "proc_step L ops clk t PAppend p =
     (case po_Append ops t p of
        (Some err, p) \<Rightarrow> (PReturn ([], False, Some (PlainError err)), p)
      | (None, p) \<Rightarrow> (PGet, p))"
| "proc_step L ops clk t PGet p =
     (case po_Get ops (tel_VehicleID t) p of
        (_, Some err) \<Rightarrow> (PReturn ([], False, Some (PlainError err)), p)
      | ((prev, _), None) \<Rightarrow> (PSet (fst (Apply (ck_apply clk) prev t)), p))"
| "proc_step L ops clk t (PSet s) p =
     (case po_Set ops s p of
        (Some err, p) \<Rightarrow> (PReturn ([], False, Some (PlainError err)), p)
      | (None, p) \<Rightarrow> (PDetect s, p))"
| "proc_step L ops clk t (PDetect s) p = (let (p, evs) = po_Detect ops t s p in (PGeo s evs, p))"
| "proc_step L ops clk t (PGeo s evs) p =
     (case po_Geo ops of
        None \<Rightarrow> (PRules s evs, p)
      | Some geo \<Rightarrow> (let (p, g) = geo t p in (PRules s (evs @ g), p)))"
| "proc_step L ops clk t (PRules s evs) p =
     (case po_Rules ops of
        None \<Rightarrow> (PPublish evs evs, p)
      | Some rls \<Rightarrow> (let (p, r) = rls t s evs p in (PPublish (evs @ r) (evs @ r), p)))"
| "proc_step L ops clk t (PPublish evs []) p = (PReturn (evs, False, None), p)"
| "proc_step L ops clk t (PPublish evs (e # es)) p =
     (case po_Publish ops e p of
        (Some err, p) \<Rightarrow> (PReturn (evs, False, Some (PublishError evs err)), p)
      | (None, p) \<Rightarrow> (PPublish evs es, p))"
| "proc_step L ops clk t (PReturn r) p = (PReturn r, p)"

definition call_step :: "go_lib \<Rightarrow> 'p pipeline_ops \<Rightarrow> clocks \<Rightarrow> telemetry \<Rightarrow> phase \<times> 'p \<Rightarrow> phase \<times> 'p" where
  "call_step L ops clk t = (\<lambda>(ph, p). proc_step L ops clk t ph p)"

lemma call_step_pair [simp]: "call_step L ops clk t (ph, p) = proc_step L ops clk t ph p"
  by (simp add: call_step_def)

subsection \<open>The phases of one call are Process\<close>

text \<open>\<open>leads f x y\<close>: iterating \<open>f\<close> gets from \<open>x\<close> to \<open>y\<close>.\<close>

definition leads :: "('a \<Rightarrow> 'a) \<Rightarrow> 'a \<Rightarrow> 'a \<Rightarrow> bool" where
  "leads f x y \<longleftrightarrow> (\<exists>n. (f ^^ n) x = y)"

lemma leads_refl: "leads f x x"
  unfolding leads_def by (rule exI [of _ 0]) simp

lemma leads_step: "leads f (f x) y \<Longrightarrow> leads f x y"
  unfolding leads_def by (metis comp_apply funpow_Suc_right)

lemma publish_leads:
  "leads (call_step L ops clk t) (PPublish evs es, p)
    (case publish_all (po_Publish ops) es p of
       (Some err, p) \<Rightarrow> (PReturn (evs, False, Some (PublishError evs err)), p)
     | (None, p) \<Rightarrow> (PReturn (evs, False, None), p))"
proof (induction es arbitrary: p)
  case Nil
  show ?case by (rule leads_step) (simp add: leads_refl)
next
  case (Cons e es)
  show ?case
  proof (rule leads_step)
    show "leads (call_step L ops clk t) (call_step L ops clk t (PPublish evs (e # es), p))
      (case publish_all (po_Publish ops) (e # es) p of
         (Some err, p) \<Rightarrow> (PReturn (evs, False, Some (PublishError evs err)), p)
       | (None, p) \<Rightarrow> (PReturn (evs, False, None), p))"
      using Cons by (cases "po_Publish ops e p"; cases "fst (po_Publish ops e p)") (simp_all add: leads_refl)
  qed
qed

lemma detect_leads:
  "leads (call_step L ops clk t) (PDetect s, p) (apfst PReturn (detect_and_publish ops t s p))"
proof -
  define pub where "pub evs p = (case publish_all (po_Publish ops) evs p of
      (Some err, p) \<Rightarrow> ((evs, False, Some (PublishError evs err)), p) | (None, p) \<Rightarrow> ((evs, False, None), p))" for evs p
  define rls where "rls evs p = (case po_Rules ops of None \<Rightarrow> (p, evs) | Some f \<Rightarrow> (let (p, r) = f t s evs p in (p, evs @ r)))" for evs p
  define geo where "geo evs p = (case po_Geo ops of None \<Rightarrow> (p, evs) | Some f \<Rightarrow> (let (p, g) = f t p in (p, evs @ g)))" for evs p
  have 1: "leads (call_step L ops clk t) (PPublish evs evs, p) (apfst PReturn (pub evs p))" for evs p
    using publish_leads [of L ops clk t evs evs p] by (auto simp: pub_def split: prod.splits option.splits)
  have "call_step L ops clk t (PRules s evs, p) = (PPublish (snd (rls evs p)) (snd (rls evs p)), fst (rls evs p))" for evs p
    by (simp add: rls_def case_prod_beta Let_def split: option.split)
  then have 2: "leads (call_step L ops clk t) (PRules s evs, p) (apfst PReturn (let (p, evs) = rls evs p in pub evs p))" for evs p
    using 1 by - (rule leads_step, simp add: case_prod_beta)
  have "call_step L ops clk t (PGeo s evs, p) = (PRules s (snd (geo evs p)), fst (geo evs p))" for evs p
    by (simp add: geo_def case_prod_beta Let_def split: option.split)
  then have 3: "leads (call_step L ops clk t) (PGeo s evs, p) (apfst PReturn (let (p, evs) = geo evs p; (p, evs) = rls evs p in pub evs p))" for evs p
    using 2 by - (rule leads_step, simp add: case_prod_beta)
  have "detect_and_publish ops t s p = (let (p, evs) = po_Detect ops t s p; (p, evs) = geo evs p; (p, evs) = rls evs p in pub evs p)"
    by (simp add: detect_and_publish_def geo_def rls_def pub_def)
  then show ?thesis using 3 by - (rule leads_step, simp add: case_prod_beta Let_def)
qed

lemma set_leads:
  "leads (call_step L ops clk t) (PSet s, p)
     (apfst PReturn (case po_Set ops s p of
        (Some err, p) \<Rightarrow> (([], False, Some (PlainError err)), p) | (None, p) \<Rightarrow> detect_and_publish ops t s p))"
  by (rule leads_step, cases "po_Set ops s p"; cases "fst (po_Set ops s p)") (simp_all add: leads_refl detect_leads)

lemma get_leads:
  "leads (call_step L ops clk t) (PGet, p)
     (apfst PReturn (case po_Get ops (tel_VehicleID t) p of
        (_, Some err) \<Rightarrow> (([], False, Some (PlainError err)), p)
      | ((prev, _), None) \<Rightarrow>
          (case po_Set ops (fst (Apply (ck_apply clk) prev t)) p of
             (Some err, p) \<Rightarrow> (([], False, Some (PlainError err)), p)
           | (None, p) \<Rightarrow> detect_and_publish ops t (fst (Apply (ck_apply clk) prev t)) p)))"
  by (rule leads_step, cases "po_Get ops (tel_VehicleID t) p"; cases "snd (po_Get ops (tel_VehicleID t) p)";
      cases "fst (po_Get ops (tel_VehicleID t) p)") (simp_all add: leads_refl set_leads)

lemma append_leads:
  "leads (call_step L ops clk t) (PAppend, p)
     (apfst PReturn (case po_Append ops t p of
        (Some err, p) \<Rightarrow> (([], False, Some (PlainError err)), p)
      | (None, p) \<Rightarrow> (case po_Get ops (tel_VehicleID t) p of
          (_, Some err) \<Rightarrow> (([], False, Some (PlainError err)), p)
        | ((prev, _), None) \<Rightarrow>
            (case po_Set ops (fst (Apply (ck_apply clk) prev t)) p of
               (Some err, p) \<Rightarrow> (([], False, Some (PlainError err)), p)
             | (None, p) \<Rightarrow> detect_and_publish ops t (fst (Apply (ck_apply clk) prev t)) p))))"
  by (rule leads_step, cases "po_Append ops t p"; cases "fst (po_Append ops t p)") (simp_all add: leads_refl get_leads)

lemma let_fst: "(let (a, b) = x in f a) = f (fst x)"
  by (simp add: case_prod_beta)

lemma call_leads: "leads (call_step L ops clk t) (PEntry, p) (apfst PReturn (Process L ops clk t p))"
proof (rule leads_step)
  obtain dup err q where s: "po_Seen ops (DedupKey L t) p = ((dup, err), q)" by (metis prod.collapse)
  show "leads (call_step L ops clk t) (call_step L ops clk t (PEntry, p)) (apfst PReturn (Process L ops clk t p))"
    by (cases "telemetry_Validate t"; cases "ck_skew clk + MaxFutureSkew < tel_Timestamp t"; cases dup; cases err)
      (simp_all add: Process_def [unfolded let_fst] s leads_refl append_leads)
qed

subsection \<open>Interleavings on the in-memory pipeline\<close>

record goroutine =
  go_clk :: clocks
  go_t :: telemetry
  go_phase :: phase

text \<open>
  Goroutines start at any time and take turns phase by phase. \<open>p0\<close> is the pipeline as it was built, which fixes
  whether geofences and rules are configured; the readings of the dedup clock lie in a window of 24 hours.
\<close>

inductive conc_reach ::
  "time \<Rightarrow> go_lib \<Rightarrow> (string set \<Rightarrow> string list) \<Rightarrow> (string \<Rightarrow> string \<Rightarrow> event \<Rightarrow> 'd \<Rightarrow> go_error option \<times> 'd) \<Rightarrow> 'd mem_pipeline
    \<Rightarrow> goroutine list \<Rightarrow> 'd mem_pipeline \<Rightarrow> bool"
  for lo L ord disp p0 where
  start: "conc_reach lo L ord disp p0 [] p0"
| spawn: "conc_reach lo L ord disp p0 gs p \<Longrightarrow> lo \<le> ck_seen clk \<Longrightarrow> ck_seen clk < lo + 24 * Hour \<Longrightarrow>
    conc_reach lo L ord disp p0 (gs @ [\<lparr>go_clk = clk, go_t = t, go_phase = PEntry\<rparr>]) p"
| run: "conc_reach lo L ord disp p0 gs p \<Longrightarrow> i < length gs \<Longrightarrow>
    proc_step L (mem_ops L ord disp (go_clk (gs ! i)) p0) (go_clk (gs ! i)) (go_t (gs ! i)) (go_phase (gs ! i)) p = (ph, p') \<Longrightarrow>
    conc_reach lo L ord disp p0 (gs[i := (gs ! i)\<lparr>go_phase := ph\<rparr>]) p'"

definition go_accepted :: "'x goroutine_scheme \<Rightarrow> bool" where
  "go_accepted g \<longleftrightarrow> accepted (go_clk g) (go_t g)"

definition returned :: "'x goroutine_scheme \<Rightarrow> bool" where
  "returned g \<longleftrightarrow> (\<exists>r. go_phase g = PReturn r)"

definition passing :: "'x goroutine_scheme list \<Rightarrow> nat \<Rightarrow> bool" where
  "passing gs i \<longleftrightarrow> i < length gs \<and> go_phase (gs ! i) = PAppend"

lemma advance_at: "gs[i := g] ! j = (if j = i \<and> i < length gs then g else gs ! j)"
  by (cases "i < length gs") (auto simp: not_less list_update_beyond)

lemma advance_nth [simp]:
  "go_t (gs[i := (gs ! i)\<lparr>go_phase := ph\<rparr>] ! j) = go_t (gs ! j)"
  "go_clk (gs[i := (gs ! i)\<lparr>go_phase := ph\<rparr>] ! j) = go_clk (gs ! j)"
  "go_accepted (gs[i := (gs ! i)\<lparr>go_phase := ph\<rparr>] ! j) = go_accepted (gs ! j)"
  by (simp_all add: advance_at go_accepted_def)

lemma advance_phase:
  "i < length gs \<Longrightarrow> go_phase (gs[i := (gs ! i)\<lparr>go_phase := ph\<rparr>] ! j) = (if j = i then ph else go_phase (gs ! j))"
  by simp

lemma advance_passing:
  "i < length gs \<Longrightarrow> passing (gs[i := (gs ! i)\<lparr>go_phase := ph\<rparr>]) j \<longleftrightarrow> (if j = i then ph = PAppend else passing gs j)"
  by (auto simp: passing_def)

subsection \<open>Calls behind a dedup gate\<close>

text \<open>
  What makes concurrent calls log every point once, as a contract on the phases alone: the entry lets one call per key
  pass and records the key, the append adds the point to the log, no other phase touches either. \<open>known\<close> are the keys
  recorded and \<open>logged\<close> the points logged in a state; \<open>sound\<close> and \<open>timely\<close> are what the gate needs of a state and a call.
\<close>

locale gated_log =
  fixes step :: "'x goroutine_scheme \<Rightarrow> 's \<Rightarrow> phase \<times> 's" and key :: "telemetry \<Rightarrow> string"
    and known :: "'s \<Rightarrow> string set" and logged :: "'s \<Rightarrow> telemetry list"
    and sound :: "'s \<Rightarrow> bool" and timely :: "'x goroutine_scheme \<Rightarrow> bool"
  assumes entry: "sound s \<Longrightarrow> timely g \<Longrightarrow> go_phase g = PEntry \<Longrightarrow> step g s = (ph, s') \<Longrightarrow> logged s' = logged s
      \<and> ((\<not> go_accepted g \<or> key (go_t g) \<in> known s) \<and> known s' = known s \<and> (\<exists>r. ph = PReturn r)
         \<or> go_accepted g \<and> key (go_t g) \<notin> known s \<and> known s' = insert (key (go_t g)) (known s) \<and> ph = PAppend)"
    and append: "sound s \<Longrightarrow> timely g \<Longrightarrow> go_phase g = PAppend \<Longrightarrow> step g s = (ph, s') \<Longrightarrow>
      ph = PGet \<and> known s' = known s \<and> mset (logged s') = add_mset (go_t g) (mset (logged s))"
    and later: "sound s \<Longrightarrow> timely g \<Longrightarrow> go_phase g \<noteq> PEntry \<Longrightarrow> go_phase g \<noteq> PAppend \<Longrightarrow> step g s = (ph, s') \<Longrightarrow>
      known s' = known s \<and> logged s' = logged s \<and> ph \<noteq> PEntry \<and> ph \<noteq> PAppend"
    and step_sound: "sound s \<Longrightarrow> timely g \<Longrightarrow> step g s = (ph, s') \<Longrightarrow> sound s'"
    and timely_phase: "timely (g\<lparr>go_phase := ph\<rparr>) = timely g"
begin

definition keyof :: "'x goroutine_scheme \<Rightarrow> string" where
  "keyof g = key (go_t g)"

definition keys :: "'s \<Rightarrow> string set" where
  "keys s = key ` set (logged s)"

text \<open>A key is recorded when its point is logged, or about to be logged by the one call that passed.\<close>

definition calls_inv :: "'x goroutine_scheme list \<Rightarrow> 's \<Rightarrow> bool" where
  "calls_inv gs s \<longleftrightarrow> sound s
     \<and> (\<forall>i < length gs. timely (gs ! i))
     \<and> known s = keys s \<union> (\<lambda>i. keyof (gs ! i)) ` {i. passing gs i}
     \<and> distinct (map key (logged s))
     \<and> (\<forall>i. passing gs i \<longrightarrow> go_accepted (gs ! i) \<and> keyof (gs ! i) \<notin> keys s)
     \<and> (\<forall>i j. passing gs i \<longrightarrow> passing gs j \<longrightarrow> keyof (gs ! i) = keyof (gs ! j) \<longrightarrow> i = j)
     \<and> (\<forall>i < length gs. go_phase (gs ! i) \<noteq> PEntry \<longrightarrow> go_accepted (gs ! i) \<longrightarrow> keyof (gs ! i) \<in> known s)
     \<and> (\<forall>t \<in> set (logged s). \<exists>i < length gs. go_t (gs ! i) = t \<and> go_accepted (gs ! i))"

lemma calls_inv_logged: "calls_inv gs s \<Longrightarrow> t \<in> set (logged s) \<Longrightarrow> \<exists>i < length gs. go_t (gs ! i) = t \<and> go_accepted (gs ! i)"
  by (simp add: calls_inv_def)

lemma calls_inv_keys: "calls_inv gs s \<Longrightarrow> known s = keys s \<union> (\<lambda>i. keyof (gs ! i)) ` {i. passing gs i}"
  unfolding calls_inv_def by blast

lemma calls_inv_known:
  "calls_inv gs s \<Longrightarrow> i < length gs \<Longrightarrow> go_phase (gs ! i) \<noteq> PEntry \<Longrightarrow> go_accepted (gs ! i) \<Longrightarrow> keyof (gs ! i) \<in> known s"
  unfolding calls_inv_def by blast

lemma advance_keyof [simp]: "keyof (gs[i := (gs ! i)\<lparr>go_phase := ph\<rparr>] ! j) = keyof (gs ! j)"
  by (simp add: keyof_def)

lemma advance_timely [simp]: "timely (gs[i := (gs ! i)\<lparr>go_phase := ph\<rparr>] ! j) = timely (gs ! j)"
  by (simp add: advance_at timely_phase)

lemma calls_inv_advance:
  assumes "calls_inv gs s" "i < length gs" "go_phase (gs ! i) \<noteq> PAppend" "ph \<noteq> PEntry" "ph \<noteq> PAppend" "sound s'"
    and "known s' = known s" "logged s' = logged s"
    and "go_phase (gs ! i) = PEntry \<Longrightarrow> go_accepted (gs ! i) \<Longrightarrow> keyof (gs ! i) \<in> known s"
  shows "calls_inv (gs[i := (gs ! i)\<lparr>go_phase := ph\<rparr>]) s'"
proof -
  have pass: "passing (gs[i := (gs ! i)\<lparr>go_phase := ph\<rparr>]) = passing gs"
    by (rule ext, simp only: advance_passing [OF assms(2)]) (use assms(3,5) in \<open>auto simp: passing_def\<close>)
  have known: "keyof (gs ! j) \<in> known s"
    if "j < length gs" "go_phase (gs[i := (gs ! i)\<lparr>go_phase := ph\<rparr>] ! j) \<noteq> PEntry" "go_accepted (gs ! j)" for j
  proof (cases "go_phase (gs ! j) = PEntry")
    case True
    with that advance_phase [OF assms(2), of ph j] have "j = i" by (auto split: if_splits)
    with assms(9) True that show ?thesis by simp
  next
    case False
    with calls_inv_known [OF assms(1)] that show ?thesis by blast
  qed
  have "keys s' = keys s" by (simp add: keys_def assms(8))
  with known assms(1,6) show ?thesis unfolding calls_inv_def pass assms(7,8) by simp
qed

lemma calls_inv_pass:
  assumes inv: "calls_inv gs s" and i: "i < length gs" "go_accepted (gs ! i)" and new: "keyof (gs ! i) \<notin> known s"
    and s': "sound s'" "known s' = insert (keyof (gs ! i)) (known s)" "logged s' = logged s"
  shows "calls_inv (gs[i := (gs ! i)\<lparr>go_phase := PAppend\<rparr>]) s'"
proof -
  let ?gs = "gs[i := (gs ! i)\<lparr>go_phase := PAppend\<rparr>]"
  have pass: "passing ?gs j \<longleftrightarrow> j = i \<or> passing gs j" for j using advance_passing [OF i(1)] by auto
  then have img: "(\<lambda>j. keyof (gs ! j)) ` {j. passing ?gs j} = insert (keyof (gs ! i)) ((\<lambda>j. keyof (gs ! j)) ` {j. passing gs j})"
    by auto
  have lk: "keys s' = keys s" by (simp add: keys_def s')
  have old: "keyof (gs ! j) \<noteq> keyof (gs ! i)" if "passing gs j" for j
    using new that unfolding calls_inv_keys [OF inv] by (metis (mono_tags, lifting) UnI2 image_eqI mem_Collect_eq)
  show ?thesis unfolding calls_inv_def
  proof (intro conjI allI impI ballI)
    show "known s' = keys s' \<union> (\<lambda>j. keyof (?gs ! j)) ` {j. passing ?gs j}"
      unfolding lk advance_keyof img s'(2) calls_inv_keys [OF inv] by blast
    show "keyof (?gs ! j) \<notin> keys s'" if "passing ?gs j" for j
      using that inv new unfolding lk pass calls_inv_def by auto
    show "j = k" if "passing ?gs j" "passing ?gs k" "keyof (?gs ! j) = keyof (?gs ! k)" for j k
      using that old inv unfolding pass calls_inv_def by (auto; metis)
  qed (use inv i in \<open>auto simp: calls_inv_def s' pass advance_phase split: if_splits\<close>)
qed

lemma calls_inv_append:
  assumes inv: "calls_inv gs s" and i: "passing gs i"
    and s': "sound s'" "known s' = known s" "mset (logged s') = add_mset (go_t (gs ! i)) (mset (logged s))"
  shows "calls_inv (gs[i := (gs ! i)\<lparr>go_phase := PGet\<rparr>]) s'"
proof -
  let ?gs = "gs[i := (gs ! i)\<lparr>go_phase := PGet\<rparr>]"
  have len: "i < length gs" using i by (simp add: passing_def)
  have pass: "passing ?gs j \<longleftrightarrow> j \<noteq> i \<and> passing gs j" for j using advance_passing [OF len] by auto
  have set': "set (logged s') = insert (go_t (gs ! i)) (set (logged s))"
    using arg_cong [OF s'(3), of set_mset] by simp
  have lk: "keys s' = insert (keyof (gs ! i)) (keys s)" by (simp add: keys_def set' keyof_def)
  have uniq: "keyof (gs ! j) \<noteq> keyof (gs ! i)" if "passing gs j" "j \<noteq> i" for j
    using inv i that unfolding calls_inv_def by blast
  have fresh: "keyof (gs ! i) \<notin> keys s" "go_accepted (gs ! i)" using inv i unfolding calls_inv_def by blast+
  have "mset (map key (logged s')) = mset (map key (go_t (gs ! i) # logged s))" using s'(3) by (simp only: mset_map mset.simps)
  then have "distinct (map key (logged s')) \<longleftrightarrow> distinct (map key (go_t (gs ! i) # logged s))" by (rule mset_eq_imp_distinct_iff)
  then have dist: "distinct (map key (logged s'))" using inv fresh(1) unfolding calls_inv_def by (simp add: keys_def keyof_def)
  have known: "keyof (gs ! j) \<in> known s" if "j < length gs" "go_phase (?gs ! j) \<noteq> PEntry" "go_accepted (gs ! j)" for j
    using that inv i advance_phase [OF len, of PGet j] unfolding calls_inv_def passing_def by (metis phase.distinct(1))
  show ?thesis unfolding calls_inv_def
  proof (intro conjI allI impI ballI)
    show "known s' = keys s' \<union> (\<lambda>j. keyof (?gs ! j)) ` {j. passing ?gs j}"
      using i unfolding lk advance_keyof pass s'(2) calls_inv_keys [OF inv] by auto
    show "keyof (?gs ! j) \<notin> keys s'" if "passing ?gs j" for j
      using that inv uniq unfolding lk pass calls_inv_def by simp
    show "keyof (?gs ! j) \<in> known s'"
      if "j < length ?gs" "go_phase (?gs ! j) \<noteq> PEntry" "go_accepted (?gs ! j)" for j
      using known [of j] that by (simp add: s')
    show "\<exists>j < length ?gs. go_t (?gs ! j) = t \<and> go_accepted (?gs ! j)" if "t \<in> set (logged s')" for t
      using that inv fresh len unfolding calls_inv_def set' by auto
  qed (use inv pass dist s'(1) in \<open>auto simp: calls_inv_def\<close>)
qed

lemma calls_inv_spawn:
  assumes "calls_inv gs s" "timely g" "go_phase g = PEntry"
  shows "calls_inv (gs @ [g]) s"
proof -
  let ?gs = "gs @ [g]"
  have at: "?gs ! j = gs ! j" if "j < length gs" for j using that by (simp add: nth_append)
  have pass: "passing ?gs = passing gs" using assms(3) by (auto simp: passing_def nth_append fun_eq_iff)
  have img: "(\<lambda>j. keyof (?gs ! j)) ` {j. passing gs j} = (\<lambda>j. keyof (gs ! j)) ` {j. passing gs j}"
    by (rule image_cong) (auto simp: at passing_def)
  show ?thesis unfolding calls_inv_def pass img
  proof (intro conjI allI impI ballI)
    show "\<exists>j < length ?gs. go_t (?gs ! j) = t \<and> go_accepted (?gs ! j)" if t: "t \<in> set (logged s)" for t
    proof -
      obtain j where "j < length gs" "go_t (gs ! j) = t" "go_accepted (gs ! j)" using calls_inv_logged [OF assms(1) t] by blast
      then show ?thesis using at [of j] by (intro exI [of _ j]) simp
    qed
    show "keyof (?gs ! j) \<in> known s" if "j < length ?gs" "go_phase (?gs ! j) \<noteq> PEntry" "go_accepted (?gs ! j)" for j
      using assms that by (cases "j < length gs") (auto simp: calls_inv_def at nth_append less_Suc_eq)
  qed (use assms in \<open>auto simp: calls_inv_def at nth_append passing_def less_Suc_eq\<close>)
qed

lemma calls_inv_run:
  assumes inv: "calls_inv gs s" and i: "i < length gs" and step: "step (gs ! i) s = (ph, s')"
  shows "calls_inv (gs[i := (gs ! i)\<lparr>go_phase := ph\<rparr>]) s'"
proof -
  have ok: "sound s" "timely (gs ! i)" using inv i by (simp_all add: calls_inv_def)
  note s' = step_sound [OF ok step]
  consider "go_phase (gs ! i) = PEntry" | "go_phase (gs ! i) = PAppend" | "go_phase (gs ! i) \<noteq> PEntry" "go_phase (gs ! i) \<noteq> PAppend" by blast
  then show ?thesis
  proof cases
    case 1
    from entry [OF ok 1 step] consider (stop) r where "\<not> go_accepted (gs ! i) \<or> keyof (gs ! i) \<in> known s" "known s' = known s" "logged s' = logged s" "ph = PReturn r"
      | (pass) "go_accepted (gs ! i)" "keyof (gs ! i) \<notin> known s" "known s' = insert (keyof (gs ! i)) (known s)" "logged s' = logged s" "ph = PAppend"
      by (auto simp: keyof_def)
    then show ?thesis
    proof cases
      case stop
      then show ?thesis using 1 s' by (intro calls_inv_advance [OF inv i]) auto
    next
      case pass
      then show ?thesis using calls_inv_pass [OF inv i] s' by simp
    qed
  next
    case 2
    then show ?thesis using append [OF ok 2 step] s' i by (auto intro: calls_inv_append [OF inv] simp: passing_def)
  next
    case 3
    then show ?thesis using later [OF ok 3 step] s' by (intro calls_inv_advance [OF inv i]) auto
  qed
qed

lemma calls_inv_start: "sound s \<Longrightarrow> known s = {} \<Longrightarrow> logged s = [] \<Longrightarrow> calls_inv [] s"
  by (simp add: calls_inv_def keys_def passing_def)

text \<open>The client's view: no key is logged twice, only accepted points are logged, and in the end every accepted one has its key in the log.\<close>

lemma logged_once:
  assumes inv: "calls_inv gs s"
  shows "distinct (map key (logged s)) \<and> set (logged s) \<subseteq> go_t ` {g \<in> set gs. go_accepted g}
    \<and> ((\<forall>g \<in> set gs. returned g) \<longrightarrow> key ` set (logged s) = (key \<circ> go_t) ` {g \<in> set gs. go_accepted g})"
proof (intro conjI impI)
  show "distinct (map key (logged s))" using inv by (simp add: calls_inv_def)
  show sub: "set (logged s) \<subseteq> go_t ` {g \<in> set gs. go_accepted g}" using calls_inv_logged [OF inv] nth_mem by fastforce
  assume ret: "\<forall>g \<in> set gs. returned g"
  then have none: "\<not> passing gs i" for i using nth_mem [of i gs] by (fastforce simp: passing_def returned_def)
  have "keyof g \<in> keys s" if "g \<in> set gs" "go_accepted g" for g
  proof -
    obtain i where i: "i < length gs" "gs ! i = g" using \<open>g \<in> set gs\<close> by (metis in_set_conv_nth)
    have "go_phase g \<noteq> PEntry" using ret that(1) by (auto simp: returned_def)
    then show ?thesis using calls_inv_known [OF inv i(1)] i(2) that(2) by (simp add: calls_inv_keys [OF inv] none)
  qed
  with sub show "key ` set (logged s) = (key \<circ> go_t) ` {g \<in> set gs. go_accepted g}"
    by (auto simp: keys_def keyof_def image_comp [symmetric] image_iff)
qed

end

subsection \<open>The in-memory pipeline is gated\<close>

lemma entry_step:
  assumes "proc_step L (mem_ops L ord disp clk p0) clk t PEntry p = (ph, p')"
  shows "(\<not> accepted clk t \<and> p' = p \<and> (\<exists>r. ph = PReturn r))
    \<or> (accepted clk t \<and> duplicate L clk t p \<and> p' = p \<and> ph = PReturn ([], True, None))
    \<or> (accepted clk t \<and> \<not> duplicate L clk t p \<and> ph = PAppend
        \<and> p' = p\<lparr>mp_dedup := (mp_dedup p)\<lparr>dm_seen := (dm_seen (mp_dedup p))(DedupKey L t \<mapsto> ck_seen clk)\<rparr>\<rparr>)"
proof (cases "accepted clk t")
  case True
  then show ?thesis
    using assms MemoryStore_Seen_cases [of "ck_seen clk" "DedupKey L t" "mp_dedup p"]
    by (cases "duplicate L clk t p") (auto simp: accepted_def duplicate_def mem_ops_def)
qed (use assms in \<open>auto simp: accepted_def split: option.splits if_splits\<close>)

lemma append_step:
  "proc_step L (mem_ops L ord disp clk p0) clk t PAppend p = (ph, p') \<Longrightarrow> ph = PGet \<and> p' = p\<lparr>mp_log := mp_log p @ [t]\<rparr>"
  by (auto simp: mem_ops_def MemoryLog_Append_def)

lemma later_step:
  assumes "proc_step L (mem_ops L ord disp clk p0) clk t ph p = (ph', p')" "ph \<noteq> PEntry" "ph \<noteq> PAppend"
  shows "mp_dedup p' = mp_dedup p \<and> mp_log p' = mp_log p \<and> ph' \<noteq> PEntry \<and> ph' \<noteq> PAppend"
  using assms
  by (cases "(L, mem_ops L ord disp clk p0, clk, t, ph, p)" rule: proc_step.cases)
    (auto simp: mem_ops_def case_prod_beta Let_def split: option.splits if_splits)

text \<open>The readings of the dedup clock, those stored and those of a call, lie in one window.\<close>

definition in_day :: "time \<Rightarrow> time \<Rightarrow> bool" where
  "in_day lo ts \<longleftrightarrow> lo \<le> ts \<and> ts < lo + 24 * Hour"

definition day_store :: "time \<Rightarrow> dedup_memory \<Rightarrow> bool" where
  "day_store lo m \<longleftrightarrow> dm_ttl m = 24 * Hour \<and> (\<forall>k ts. dm_seen m k = Some ts \<longrightarrow> in_day lo ts)"

lemma day_duplicate:
  assumes "day_store lo (mp_dedup p)" "in_day lo (ck_seen clk)"
  shows "duplicate L clk t p \<longleftrightarrow> DedupKey L t \<in> dom (dm_seen (mp_dedup p))"
proof -
  have "dedup_inv (mp_dedup p)" using assms(1) by (simp add: day_store_def dedup_inv_def in_int64_def)
  note flag = mem_dedup.seen_flag [OF this, of "ck_seen clk" "DedupKey L t"]
  have "ck_seen clk - ts < dm_ttl (mp_dedup p)" if "dm_seen (mp_dedup p) (DedupKey L t) = Some ts" for ts
  proof -
    have "in_day lo ts" "dm_ttl (mp_dedup p) = 24 * Hour" using assms(1) that unfolding day_store_def by blast+
    then show ?thesis using assms(2) by (simp add: in_day_def)
  qed
  then show ?thesis using flag by (auto simp: duplicate_def)
qed

interpretation mem_calls: gated_log
  "\<lambda>g. proc_step L (mem_ops L ord disp (go_clk g) p0) (go_clk g) (go_t g) (go_phase g)" "DedupKey L"
  "\<lambda>p. dom (dm_seen (mp_dedup p))" mp_log "\<lambda>p. day_store lo (mp_dedup p)" "\<lambda>g. in_day lo (ck_seen (go_clk g))"
  for L ord disp p0 lo
proof
  fix p g ph p'
  assume ok: "day_store lo (mp_dedup p)" "in_day lo (ck_seen (go_clk g))"
    and step: "proc_step L (mem_ops L ord disp (go_clk g) p0) (go_clk g) (go_t g) (go_phase g) p = (ph, p')"
  note dup = day_duplicate [OF ok, of L "go_t g"]
  have upd: "day_store lo (m\<lparr>dm_seen := (dm_seen m)(k \<mapsto> ck_seen (go_clk g))\<rparr>)" if "day_store lo m" for m k
    using that ok(2) by (simp add: day_store_def)
  consider "go_phase g = PEntry" | "go_phase g = PAppend" | "go_phase g \<noteq> PEntry" "go_phase g \<noteq> PAppend" by blast
  then show "day_store lo (mp_dedup p')"
  proof cases
    case 1
    from entry_step [OF step [unfolded 1]] show ?thesis using upd [OF ok(1)] ok(1) by (elim disjE conjE) simp_all
  next
    case 2
    from append_step [OF step [unfolded 2]] show ?thesis using ok(1) by simp
  next
    case 3
    then show ?thesis using later_step [OF step] ok by simp
  qed
  show "go_phase g = PEntry \<Longrightarrow> mp_log p' = mp_log p
      \<and> ((\<not> go_accepted g \<or> DedupKey L (go_t g) \<in> dom (dm_seen (mp_dedup p))) \<and> dom (dm_seen (mp_dedup p')) = dom (dm_seen (mp_dedup p)) \<and> (\<exists>r. ph = PReturn r)
         \<or> go_accepted g \<and> DedupKey L (go_t g) \<notin> dom (dm_seen (mp_dedup p))
           \<and> dom (dm_seen (mp_dedup p')) = insert (DedupKey L (go_t g)) (dom (dm_seen (mp_dedup p))) \<and> ph = PAppend)"
    using entry_step [of L ord disp "go_clk g" p0 "go_t g" p ph p'] step dup by (auto simp: go_accepted_def)
  show "go_phase g = PAppend \<Longrightarrow> ph = PGet \<and> dom (dm_seen (mp_dedup p')) = dom (dm_seen (mp_dedup p)) \<and> mset (mp_log p') = add_mset (go_t g) (mset (mp_log p))"
    using append_step [of L ord disp "go_clk g" p0 "go_t g" p ph p'] step by auto
  show "go_phase g \<noteq> PEntry \<Longrightarrow> go_phase g \<noteq> PAppend \<Longrightarrow>
      dom (dm_seen (mp_dedup p')) = dom (dm_seen (mp_dedup p)) \<and> mp_log p' = mp_log p \<and> ph \<noteq> PEntry \<and> ph \<noteq> PAppend"
    using later_step [OF step] by simp
qed simp

lemma conc_calls_inv:
  assumes "conc_reach lo L ord disp p0 gs p" "mp_log p0 = []" "mp_dedup p0 = NewDedupStore 0"
  shows "mem_calls.calls_inv L lo gs p"
  using assms(1)
proof induction
  case start
  show ?case using assms(2,3) by (intro mem_calls.calls_inv_start) (simp_all add: NewDedupStore_def day_store_def)
next
  case (spawn gs p clk t)
  then show ?case by (intro mem_calls.calls_inv_spawn) (simp_all add: in_day_def)
next
  case (run gs p i ph p')
  then show ?case by (intro mem_calls.calls_inv_run)
qed

subsection \<open>Schedules\<close>

lemma conc_reach_leads:
  assumes "conc_reach lo L ord disp p0 gs p" "i < length gs" "go_clk (gs ! i) = clk" "go_t (gs ! i) = t"
    and "leads (call_step L (mem_ops L ord disp clk p0) clk t) (go_phase (gs ! i), p) (ph, p')"
  shows "conc_reach lo L ord disp p0 (gs[i := (gs ! i)\<lparr>go_phase := ph\<rparr>]) p'"
proof -
  obtain n where "(call_step L (mem_ops L ord disp clk p0) clk t ^^ n) (go_phase (gs ! i), p) = (ph, p')"
    using assms(5) by (auto simp: leads_def)
  then show ?thesis
  proof (induction n arbitrary: ph p')
    case 0
    then have same: "(gs ! i)\<lparr>go_phase := ph\<rparr> = gs ! i" "p' = p" by auto
    show ?case unfolding same list_update_id by (rule assms(1))
  next
    case (Suc n)
    obtain ph1 p1 where mid: "(call_step L (mem_ops L ord disp clk p0) clk t ^^ n) (go_phase (gs ! i), p) = (ph1, p1)" by fastforce
    have "proc_step L (mem_ops L ord disp clk p0) clk t ph1 p1 = (ph, p')" using Suc.prems mid by simp
    then show ?case
      using conc_reach.run [OF Suc.IH [OF mid], of i ph p'] assms(2-4) by simp
  qed
qed

lemma mem_ops_cong:
  "mp_geo p = None \<longleftrightarrow> mp_geo q = None \<Longrightarrow> mp_rules p = None \<longleftrightarrow> mp_rules q = None \<Longrightarrow> mem_ops L ord disp clk p = mem_ops L ord disp clk q"
  by (simp add: mem_ops_def)

text \<open>A call that is alone on the pipeline runs to the result of \<open>Process\<close>.\<close>

lemma run_alone:
  assumes "conc_reach lo L ord disp p0 gs p" "i < length gs" "go_phase (gs ! i) = PEntry"
    and "mp_geo p = None \<longleftrightarrow> mp_geo p0 = None" "mp_rules p = None \<longleftrightarrow> mp_rules p0 = None"
  shows "conc_reach lo L ord disp p0 (gs[i := (gs ! i)\<lparr>go_phase := PReturn (fst (mem_Process L ord disp (go_clk (gs ! i)) (go_t (gs ! i)) p))\<rparr>])
    (snd (mem_Process L ord disp (go_clk (gs ! i)) (go_t (gs ! i)) p))"
  by (rule conc_reach_leads [OF assms(1,2) refl refl])
    (use call_leads [of L "mem_ops L ord disp (go_clk (gs ! i)) p0" "go_clk (gs ! i)" "go_t (gs ! i)" p] assms(3) mem_ops_cong [OF assms(4,5)]
     in \<open>simp add: mem_Process_def apfst_def map_prod_def case_prod_beta\<close>)

text \<open>The first three phases of a call on a new pipeline: the key is recorded, the point is logged, and the empty state is read.\<close>

definition first_logged :: "go_lib \<Rightarrow> clocks \<Rightarrow> telemetry \<Rightarrow> 'd mem_pipeline" where
  "first_logged L clk t = NewTestPipeline
     \<lparr>mp_dedup := (NewDedupStore 0)\<lparr>dm_seen := [DedupKey L t \<mapsto> ck_seen clk]\<rparr>, mp_log := [t]\<rparr>"

lemma first_phases:
  assumes "accepted clk t"
  shows "leads (call_step L (mem_ops L ord disp clk NewTestPipeline) clk t) (PEntry, NewTestPipeline)
    (PSet (fst (Apply (ck_apply clk) zero_vehicle_state t)), first_logged L clk t)"
  by (rule leads_step, rule leads_step, rule leads_step)
    (use assms in \<open>simp add: accepted_def mem_ops_def MemoryStore_Seen_def MemoryLog_Append_def MemoryStore_Get_def NewTestPipeline_def
      NewDedupStore_def NewMemoryStore_def first_logged_def leads_refl\<close>)

subsection \<open>Properties\<close>

text \<open>The phases refine the call. Over any implementation of the interfaces, the phases of one call executed in
  turn end in the result and the pipeline state of \<open>Process\<close>.\<close>

lemma phases_refine_Process:
  "\<exists>n. (call_step L ops clk t ^^ n) (PEntry, p) = (PReturn (fst (Process L ops clk t p)), snd (Process L ops clk t p))"
  using call_leads [of L ops clk t p] by (simp add: leads_def apfst_def map_prod_def case_prod_beta)

text \<open>C2: Concurrent duplicates are logged once. In every interleaving of the phases of any number of calls on a new
  pipeline within one dedup window, no two logged points share a dedup key and only points that pass the checks are logged;
  when all calls have returned, every such point has its key in the log.\<close>

theorem concurrent_points_logged_once:
  assumes "conc_reach lo L ord disp p0 gs p" "mp_log p0 = []" "mp_dedup p0 = NewDedupStore 0"
  shows "distinct (map (DedupKey L) (mp_log p)) \<and> set (mp_log p) \<subseteq> go_t ` {g \<in> set gs. go_accepted g}
    \<and> ((\<forall>g \<in> set gs. returned g) \<longrightarrow> DedupKey L ` set (mp_log p) = (DedupKey L \<circ> go_t) ` {g \<in> set gs. go_accepted g})"
  by (rule mem_calls.logged_once [OF conc_calls_inv [OF assms]])

text \<open>C32: Concurrent updates can be lost. Two calls for the same vehicle may both read its state before either
  writes: for any two fresh points of one vehicle there is an interleaving in which both calls return as processed and
  the stored watermark is the event time of the older point, although the newer one was applied.\<close>

theorem concurrent_update_lost:
  fixes disp :: "string \<Rightarrow> string \<Rightarrow> event \<Rightarrow> 'd \<Rightarrow> go_error option \<times> 'd"
  assumes acc: "accepted clk1 t1" "accepted clk2 t2" and keys: "DedupKey L t1 \<noteq> DedupKey L t2"
    and veh: "tel_VehicleID t2 = tel_VehicleID t1" and older: "tel_Timestamp t1 < tel_Timestamp t2"
    and win: "lo \<le> ck_seen clk1" "ck_seen clk1 < lo + 24 * Hour" "lo \<le> ck_seen clk2" "ck_seen clk2 < lo + 24 * Hour"
  shows "\<exists>gs p s. conc_reach lo L ord disp NewTestPipeline gs p \<and> map go_t gs = [t1, t2]
    \<and> (\<forall>g \<in> set gs. \<exists>evs err. go_phase g = PReturn (evs, False, err))
    \<and> mp_log p = [t1, t2] \<and> mp_states p (tel_VehicleID t1) = Some s \<and> vs_LastSeen s = tel_Timestamp t1"
proof -
  let ?p0 = "NewTestPipeline :: 'd mem_pipeline" and ?v = "tel_VehicleID t1"
  define s where "s = fst (Apply (ck_apply clk1) zero_vehicle_state t1)"
  define g1 g2 where "g1 ph = \<lparr>go_clk = clk1, go_t = t1, go_phase = ph\<rparr>" and "g2 ph = \<lparr>go_clk = clk2, go_t = t2, go_phase = ph\<rparr>" for ph
  define p2 where "p2 = (first_logged L clk1 t1 :: 'd mem_pipeline)"
  have "conc_reach lo L ord disp ?p0 [g1 PEntry, g2 PEntry] ?p0"
    using conc_reach.spawn [OF conc_reach.spawn [OF conc_reach.start win(1,2)] win(3,4)] by (simp add: g1_def g2_def)
  then have r2: "conc_reach lo L ord disp ?p0 [g1 (PSet s), g2 PEntry] p2"
    using first_phases [OF acc(1), of L ord disp]
    by - (drule conc_reach_leads [where i = 0 and clk = clk1 and t = t1], simp_all add: g1_def s_def p2_def)
  have fresh2: "\<not> duplicate L clk2 t2 p2"
    using keys by (simp add: duplicate_def MemoryStore_Seen_def p2_def first_logged_def)
  define p3 where "p3 = snd (mem_Process L ord disp clk2 t2 p2)"
  obtain evs2 err2 where m2: "fst (mem_Process L ord disp clk2 t2 p2) = (evs2, False, err2)"
    using mem_Process_fresh_result [OF acc(2) fresh2 refl refl, of ord disp] by simp
  have r3: "conc_reach lo L ord disp ?p0 [g1 (PSet s), g2 (PReturn (evs2, False, err2))] p3"
    using run_alone [OF r2, of 1] m2 by (simp add: g2_def p3_def p2_def first_logged_def NewTestPipeline_def)
  have p3: "mp_log p3 = [t1, t2]" "mp_geo p3 = None" "mp_rules p3 = None"
    using mem_Process_fresh_result [OF acc(2) fresh2 refl refl, of ord disp]
    by (simp_all add: p3_def p2_def first_logged_def detected_def geo_part_def rules_part_def ingested_def NewTestPipeline_def)
  define p4 where "p4 = p3\<lparr>mp_states := (mp_states p3)(?v \<mapsto> s)\<rparr>"
  have "leads (call_step L (mem_ops L ord disp clk1 ?p0) clk1 t1) (PSet s, p3)
      (apfst PReturn (detect_and_publish (mem_ops L ord disp clk1 ?p0) t1 s p4))"
    using set_leads [of L "mem_ops L ord disp clk1 ?p0" clk1 t1 s p3] by (simp add: mem_ops_def MemoryStore_Set_def p4_def s_def)
  moreover obtain evs1 err1 p5 where d: "detect_and_publish (mem_ops L ord disp clk1 ?p0) t1 s p4 = ((evs1, False, err1), p5)"
      "mp_log p5 = mp_log p4" "mp_states p5 = mp_states p4"
    using detect_and_publish_mem [of ?p0 p4 L ord disp clk1 t1 s] p3 by (auto simp: p4_def NewTestPipeline_def case_prod_beta Let_def)
  ultimately have "conc_reach lo L ord disp ?p0 [g1 (PReturn (evs1, False, err1)), g2 (PReturn (evs2, False, err2))] p5"
    using conc_reach_leads [OF r3, of 0 clk1 t1] by (simp add: g1_def)
  moreover have "vs_LastSeen s = tel_Timestamp t1" by (simp add: s_def Apply_LastSeen is_late_def zero_vehicle_state_def IsZero_def)
  ultimately show ?thesis
    using d(2,3) p3(1) by (intro exI [of _ "[g1 (PReturn (evs1, False, err1)), g2 (PReturn (evs2, False, err2))]"] exI [of _ p5] exI [of _ s])
      (simp add: g1_def g2_def p4_def)
qed

theorem concurrent_points_logged_once_witness:
  "DedupKey plain_lib ` set (mp_log (snd (mem_Process plain_lib sorted_list_of_set (\<lambda>_ _ _ d. (None, d)) (clk_at 5)
     (point_at ''v'' 1 None None (Some 7)) (NewTestPipeline :: unit mem_pipeline)))) = {DedupKey plain_lib (point_at ''v'' 1 None None (Some 7))}"
proof -
  let ?t = "point_at ''v'' 1 None None (Some 7)" and ?p = "NewTestPipeline :: unit mem_pipeline"
  let ?P = "mem_Process plain_lib sorted_list_of_set (\<lambda>_ _ _ d. (None, d)) (clk_at 5) ?t ?p"
  let ?g = "\<lparr>go_clk = clk_at 5, go_t = ?t, go_phase = PReturn (fst ?P)\<rparr>"
  have "conc_reach 0 plain_lib sorted_list_of_set (\<lambda>_ _ _ d. (None, d)) ?p ([] @ [\<lparr>go_clk = clk_at 5, go_t = ?t, go_phase = PEntry\<rparr>]) ?p"
    by (rule conc_reach.spawn [OF conc_reach.start]) (simp_all add: clk_at_def)
  from run_alone [OF this, of 0]
  have "conc_reach 0 plain_lib sorted_list_of_set (\<lambda>_ _ _ d. (None, d)) ?p [?g] (snd ?P)"
    by simp
  moreover have "mp_log ?p = []" "mp_dedup ?p = NewDedupStore 0" by (simp_all add: NewTestPipeline_def)
  ultimately have all: "(\<forall>g \<in> set [?g]. returned g) \<longrightarrow>
      DedupKey plain_lib ` set (mp_log (snd ?P)) = (DedupKey plain_lib \<circ> go_t) ` {g \<in> set [?g]. go_accepted g}"
    by (rule concurrent_points_logged_once [THEN conjunct2, THEN conjunct2])
  have "accepted (clk_at 5) ?t" by (simp add: accepted_def point_at_valid clk_at_def MaxFutureSkew_def) (simp add: point_at_simps)
  then have "{g \<in> set [?g]. go_accepted g} = {?g}" by (auto simp: go_accepted_def)
  moreover have "\<forall>g \<in> set [?g]. returned g" by (auto simp: returned_def simp del: split_paired_Ex)
  ultimately show ?thesis using all by simp
qed

theorem concurrent_update_lost_witness:
  "\<exists>gs (p :: unit mem_pipeline) s. conc_reach 0 plain_lib sorted_list_of_set (\<lambda>_ _ _ d. (None, d)) NewTestPipeline gs p
     \<and> mp_log p = [point_at ''v'' 1 None None (Some 7), point_at ''v'' 2 None None (Some 8)]
     \<and> mp_states p ''v'' = Some s \<and> vs_LastSeen s = 1"
proof -
  let ?t = "\<lambda>ts n. point_at ''v'' ts None None (Some n)"
  have acc: "accepted (clk_at 5) (?t 1 7)" "accepted (clk_at 5) (?t 2 8)"
    by (simp_all add: accepted_def point_at_valid clk_at_def MaxFutureSkew_def) (simp_all add: point_at_simps)
  have "show_int 7 \<noteq> show_int 8" by simp
  then have "DedupKey plain_lib (?t 1 7) \<noteq> DedupKey plain_lib (?t 2 8)" by (simp add: DedupKey_def point_at_simps)
  from concurrent_update_lost [OF acc this, of 0 sorted_list_of_set "\<lambda>_ _ _ d. (None, d :: unit)"] show ?thesis
    by (force simp: point_at_simps clk_at_def)
qed

end
