(* ===== verification/Stores.thy ===== *)
theory Stores
  imports Boot
begin

section \<open>Stores on services (internal/state RedisStore, internal/store)\<close>

text \<open>
  The hot state in Redis and the durable tables in Postgres. The client libraries are arguments: \<open>redis_client\<close> has the
  three commands the state store sends, \<open>sql_client\<close> the two calls of package sql. The encoded form of a state is a
  type of its own, so nothing is said about JSON but what a hypothesis names.
\<close>

subsection \<open>The Redis state store\<close>

datatype 'b redis_reply = RNil | RErr go_error | RVal 'b

record ('r, 'b) redis_client =
  rc_Get :: "string \<Rightarrow> 'r \<Rightarrow> 'b redis_reply"
  rc_Set :: "string \<Rightarrow> 'b \<Rightarrow> 'r \<Rightarrow> go_error option \<times> 'r"
  rc_Scan :: "string \<Rightarrow> nat \<Rightarrow> 'r \<Rightarrow> string list \<times> go_error option"
  rc_Marshal :: "vehicle_state \<Rightarrow> go_error + 'b"
  rc_Unmarshal :: "'b \<Rightarrow> go_error + vehicle_state"

definition state_key :: "string \<Rightarrow> string" where
  "state_key vehicleID = ''tide:state:'' @ vehicleID"

definition RedisStore_Get :: "('r, 'b) redis_client \<Rightarrow> string \<Rightarrow> 'r \<Rightarrow> (vehicle_state \<times> bool) \<times> go_error option" where
  "RedisStore_Get C vehicleID r =
     (case rc_Get C (state_key vehicleID) r of
        RNil \<Rightarrow> ((zero_vehicle_state, False), None)
      | RErr err \<Rightarrow> ((zero_vehicle_state, False), Some err)
      | RVal raw \<Rightarrow>
          (case rc_Unmarshal C raw of
             Inl err \<Rightarrow> ((zero_vehicle_state, False), Some (''state: corrupt cached state: '' @ err))
           | Inr v \<Rightarrow> ((v, True), None)))"

definition RedisStore_Set :: "('r, 'b) redis_client \<Rightarrow> vehicle_state \<Rightarrow> 'r \<Rightarrow> go_error option \<times> 'r" where
  "RedisStore_Set C v r =
     (case rc_Marshal C v of Inl err \<Rightarrow> (Some err, r) | Inr raw \<Rightarrow> rc_Set C (state_key (vs_VehicleID v)) raw r)"

definition RedisStore_ListIDs :: "('r, 'b) redis_client \<Rightarrow> 'r \<Rightarrow> string list \<times> go_error option" where
  "RedisStore_ListIDs C r =
     (let (keys, err) = rc_Scan C ''tide:state:*'' 100 r in (map (\<lambda>k. trim_prefix k ''tide:state:'') keys, err))"

text \<open>The operations of a pipeline whose hot state is in Redis; the rest is the one of the given operations.\<close>

definition with_redis_states :: "('r, 'b) redis_client \<Rightarrow> 'p pipeline_ops \<Rightarrow> ('p \<times> 'r) pipeline_ops" where
  "with_redis_states C ops =
     \<lparr>po_Seen = (\<lambda>k (p, r). let (d, p) = po_Seen ops k p in (d, p, r)),
      po_Append = (\<lambda>t (p, r). let (err, p) = po_Append ops t p in (err, p, r)),
      po_Get = (\<lambda>v (p, r). RedisStore_Get C v r),
      po_Set = (\<lambda>s (p, r). let (err, r) = RedisStore_Set C s r in (err, p, r)),
      po_Detect = (\<lambda>t s (p, r). let (p, evs) = po_Detect ops t s p in ((p, r), evs)),
      po_Geo = map_option (\<lambda>f t (p, r). let (p, evs) = f t p in ((p, r), evs)) (po_Geo ops),
      po_Rules = map_option (\<lambda>f t s evs (p, r). let (p, out) = f t s evs p in ((p, r), out)) (po_Rules ops),
      po_Publish = (\<lambda>e (p, r). let (err, p) = po_Publish ops e p in (err, p, r))\<rparr>"

fun redis_run ::
  "('r, 'b) redis_client \<Rightarrow> go_lib \<Rightarrow> (string set \<Rightarrow> string list) \<Rightarrow> (string \<Rightarrow> string \<Rightarrow> event \<Rightarrow> 'd \<Rightarrow> go_error option \<times> 'd)
    \<Rightarrow> (clocks \<times> telemetry) list \<Rightarrow> 'd mem_pipeline \<times> 'r \<Rightarrow> process_result list \<times> ('d mem_pipeline \<times> 'r)" where
  "redis_run C L ord disp [] pr = ([], pr)"
| "redis_run C L ord disp (ct # cts) pr =
     (let (res, pr') = Process L (with_redis_states C (mem_ops L ord disp (fst ct) (fst pr))) (fst ct) (snd ct) pr;
          (rest, pr'') = redis_run C L ord disp cts pr' in (res # rest, pr''))"

subsection \<open>What Redis and the codec promise\<close>

text \<open>\<open>contents\<close> is the keyspace of the server: GET reads it, SET writes one key, SCAN lists the keys under a prefix.\<close>

definition redis_up :: "('r, 'b) redis_client \<Rightarrow> ('r \<Rightarrow> string \<rightharpoonup> 'b) \<Rightarrow> bool" where
  "redis_up C contents \<longleftrightarrow>
     (\<forall>k r. rc_Get C k r = (case contents r k of None \<Rightarrow> RNil | Some raw \<Rightarrow> RVal raw))
     \<and> (\<forall>k raw r. fst (rc_Set C k raw r) = None \<and> contents (snd (rc_Set C k raw r)) = (contents r)(k \<mapsto> raw))
     \<and> (\<forall>pre n r. set (fst (rc_Scan C (pre @ ''*'') n r)) = {k \<in> dom (contents r). has_prefix k pre}
         \<and> snd (rc_Scan C (pre @ ''*'') n r) = None)"

definition ascii :: "string \<Rightarrow> bool" where
  "ascii s \<longleftrightarrow> list_all (\<lambda>c. of_char c < (128 :: nat)) s"

definition finite_float :: "float64 \<Rightarrow> bool" where
  "finite_float x \<longleftrightarrow> x \<notin> {NaN, NInf, PInf}"

text \<open>The states that JSON carries faithfully: ASCII text, finite numbers, four-digit years.\<close>

definition storable :: "vehicle_state \<Rightarrow> bool" where
  "storable s \<longleftrightarrow> ascii (vs_TenantID s) \<and> ascii (vs_VehicleID s) \<and> ascii (vs_TripID s) \<and> list_all ascii (vs_Geofences s)
     \<and> finite_float (vs_Lat s) \<and> finite_float (vs_Lng s) \<and> pred_option finite_float (vs_SpeedKmh s)
     \<and> four_digit_year (vs_LastSeen s) \<and> four_digit_year (vs_UpdatedAt s)"

definition storable_point :: "telemetry \<Rightarrow> bool" where
  "storable_point t \<longleftrightarrow> ascii (tel_TenantID t) \<and> ascii (tel_VehicleID t) \<and> finite_float (loc_Lat (tel_Location t))
     \<and> finite_float (loc_Lng (tel_Location t)) \<and> pred_option finite_float (tel_SpeedKmh t) \<and> four_digit_year (tel_Timestamp t)"

definition json_codec :: "('r, 'b) redis_client \<Rightarrow> bool" where
  "json_codec C \<longleftrightarrow> (\<forall>s. storable s \<longrightarrow> (\<exists>raw. rc_Marshal C s = Inr raw \<and> rc_Unmarshal C raw = Inr s))"

text \<open>The hot state a keyspace stands for, and that all of it is readable.\<close>

definition states_in :: "('r, 'b) redis_client \<Rightarrow> (string \<rightharpoonup> 'b) \<Rightarrow> memory_store" where
  "states_in C m = (\<lambda>v. case m (state_key v) of None \<Rightarrow> None | Some raw \<Rightarrow> (case rc_Unmarshal C raw of Inl _ \<Rightarrow> None | Inr s \<Rightarrow> Some s))"

definition readable :: "('r, 'b) redis_client \<Rightarrow> (string \<rightharpoonup> 'b) \<Rightarrow> bool" where
  "readable C m \<longleftrightarrow> (\<forall>v raw. m (state_key v) = Some raw \<longrightarrow> (\<exists>s. rc_Unmarshal C raw = Inr s \<and> storable s))"

lemma state_key_inject [simp]: "state_key v = state_key w \<longleftrightarrow> v = w"
  by (simp add: state_key_def)

lemma state_key_prefix: "has_prefix k ''tide:state:'' \<longleftrightarrow> (\<exists>v. k = state_key v)"
  unfolding has_prefix_def state_key_def by (metis append_eq_conv_conj append_take_drop_id)

lemma redis_get:
  assumes "redis_up C contents" "readable C (contents r)"
  shows "RedisStore_Get C v r = MemoryStore_Get v (states_in C (contents r))"
proof (cases "contents r (state_key v)")
  case (Some raw)
  with assms(2) obtain s where "rc_Unmarshal C raw = Inr s" by (auto simp: readable_def)
  with Some assms(1) show ?thesis by (simp add: RedisStore_Get_def MemoryStore_Get_def states_in_def redis_up_def)
qed (use assms(1) in \<open>simp add: RedisStore_Get_def MemoryStore_Get_def states_in_def redis_up_def\<close>)

lemma redis_set:
  assumes "redis_up C contents" "json_codec C" "storable s"
  shows "fst (RedisStore_Set C s r) = None"
    and "states_in C (contents (snd (RedisStore_Set C s r))) = (states_in C (contents r))(vs_VehicleID s \<mapsto> s)"
    and "readable C (contents r) \<Longrightarrow> readable C (contents (snd (RedisStore_Set C s r)))"
proof -
  obtain raw where raw: "rc_Marshal C s = Inr raw" "rc_Unmarshal C raw = Inr s" using assms(2,3) by (auto simp: json_codec_def)
  have c: "contents (snd (RedisStore_Set C s r)) = (contents r)(state_key (vs_VehicleID s) \<mapsto> raw)"
    and "fst (RedisStore_Set C s r) = None"
    using assms(1) by (simp_all add: RedisStore_Set_def raw redis_up_def)
  then show "fst (RedisStore_Set C s r) = None" by simp
  show "states_in C (contents (snd (RedisStore_Set C s r))) = (states_in C (contents r))(vs_VehicleID s \<mapsto> s)"
    unfolding c by (rule ext) (simp add: states_in_def raw)
  show "readable C (contents r) \<Longrightarrow> readable C (contents (snd (RedisStore_Set C s r)))"
    unfolding c readable_def using assms(3) raw by auto
qed

lemma readable_storable:
  "readable C m \<Longrightarrow> states_in C m v = Some s \<Longrightarrow> storable s"
  by (force simp: readable_def states_in_def split: option.splits sum.splits)

lemma redis_list:
  assumes "redis_up C contents" "readable C (contents r)"
  shows "snd (RedisStore_ListIDs C r) = None" "set (fst (RedisStore_ListIDs C r)) = dom (states_in C (contents r))"
proof -
  have "set (fst (rc_Scan C (pre @ ''*'') n r)) = {k \<in> dom (contents r). has_prefix k pre} \<and> snd (rc_Scan C (pre @ ''*'') n r) = None" for pre n
    using assms(1) unfolding redis_up_def by blast
  from this [of "''tide:state:''" 100]
  have scan: "set (fst (rc_Scan C ''tide:state:*'' 100 r)) = {k \<in> dom (contents r). has_prefix k ''tide:state:''}"
    "snd (rc_Scan C ''tide:state:*'' 100 r) = None" by simp_all
  have trim: "trim_prefix (state_key v) ''tide:state:'' = v" for v by (simp add: trim_prefix_def state_key_def has_prefix_def)
  have "v \<in> dom (states_in C (contents r)) \<longleftrightarrow> state_key v \<in> dom (contents r)" for v
  proof (cases "contents r (state_key v)")
    case (Some raw)
    with assms(2) obtain s where "rc_Unmarshal C raw = Inr s" by (auto simp: readable_def)
    with Some show ?thesis by (simp add: states_in_def dom_def)
  qed (simp add: states_in_def dom_def)
  moreover have "(\<lambda>k. trim_prefix k ''tide:state:'') ` {k \<in> dom (contents r). has_prefix k ''tide:state:''} = {v. state_key v \<in> dom (contents r)}"
    unfolding state_key_prefix by (auto simp: trim) (metis (mono_tags, lifting) domI image_eqI mem_Collect_eq trim)
  ultimately show "set (fst (RedisStore_ListIDs C r)) = dom (states_in C (contents r))" "snd (RedisStore_ListIDs C r) = None"
    using scan by (auto simp: RedisStore_ListIDs_def case_prod_beta)
qed

lemma storable_zero: "storable zero_vehicle_state"
  by (simp add: storable_def zero_vehicle_state_def ascii_def finite_float_def four_digit_year_def civil_def Let_def)

lemma storable_Apply:
  assumes "storable s" "storable_point t" "four_digit_year now"
  shows "storable (fst (Apply now s t))"
  using assms by (simp add: storable_def storable_point_def Apply_def Let_def)

lemma redis_refinement:
  assumes "redis_up C contents" "json_codec C"
  shows "process_refinement (with_redis_states C (mem_ops L ord disp clk p0)) (mem_ops L ord disp clk p0)
    (\<lambda>(p, r). p\<lparr>mp_states := states_in C (contents r)\<rparr>) (\<lambda>(p, r). readable C (contents r)) storable"
  by unfold_locales
    (auto simp: with_redis_states_def mem_ops_def MemoryLog_Append_def MemoryStore_Set_def redis_get [OF assms(1)] redis_set [OF assms]
      case_prod_beta Let_def split: if_splits)

lemma redis_step:
  assumes "redis_up C contents" "json_codec C" "readable C (contents r)" "storable_point t" "four_digit_year (ck_apply clk)"
    and "Process L (with_redis_states C (mem_ops L ord disp clk p)) clk t (p, r) = (res, p', r')"
  shows "mem_Process L ord disp clk t (p\<lparr>mp_states := states_in C (contents r)\<rparr>) = (res, p'\<lparr>mp_states := states_in C (contents r')\<rparr>)"
    and "readable C (contents r')"
proof -
  let ?ops = "mem_ops L ord disp clk p"
  have "storable (fst (Apply (ck_apply clk) (fst (fst (po_Get (with_redis_states C ?ops) (tel_VehicleID t) q))) t))"
    if "readable C (contents (snd q))" for q
  proof (rule storable_Apply [OF _ assms(4,5)])
    have "po_Get (with_redis_states C ?ops) (tel_VehicleID t) q = MemoryStore_Get (tel_VehicleID t) (states_in C (contents (snd q)))"
      using redis_get [OF assms(1) that] by (simp add: with_redis_states_def case_prod_beta)
    then show "storable (fst (fst (po_Get (with_redis_states C ?ops) (tel_VehicleID t) q)))"
      using readable_storable [OF that] by (simp add: MemoryStore_Get_def storable_zero split: option.split)
  qed
  then have "Process L ?ops clk t (p\<lparr>mp_states := states_in C (contents r)\<rparr>) = (res, p'\<lparr>mp_states := states_in C (contents r')\<rparr>)
    \<and> readable C (contents r')"
    using process_refinement.process_refines [OF redis_refinement [OF assms(1,2), of L ord disp clk p], where p = "(p, r)" and t = t and L = L and clk = clk]
      assms(3,6)
    by (simp add: case_prod_beta)
  then show "mem_Process L ord disp clk t (p\<lparr>mp_states := states_in C (contents r)\<rparr>) = (res, p'\<lparr>mp_states := states_in C (contents r')\<rparr>)"
      "readable C (contents r')"
    by (simp_all add: mem_Process_def mem_ops_def)
qed

lemma redis_run_refines:
  assumes "redis_up C contents" "json_codec C" "readable C (contents r)"
    and "\<forall>ct \<in> set cts. storable_point (snd ct) \<and> four_digit_year (ck_apply (fst ct))"
    and "redis_run C L ord disp cts (p, r) = (res, p', r')"
  shows "mem_run L ord disp cts (p\<lparr>mp_states := states_in C (contents r)\<rparr>) = (res, p'\<lparr>mp_states := states_in C (contents r')\<rparr>)
    \<and> readable C (contents r')"
  using assms(3-)
proof (induction cts arbitrary: p r res)
  case (Cons ct cts)
  obtain res1 p1 r1 where 1: "Process L (with_redis_states C (mem_ops L ord disp (fst ct) p)) (fst ct) (snd ct) (p, r) = (res1, p1, r1)"
    by (metis prod.collapse)
  obtain res2 where 2: "redis_run C L ord disp cts (p1, r1) = (res2, p', r')" "res = res1 # res2"
    using Cons.prems(3) by (auto simp: 1 split: prod.splits)
  have m: "storable_point (snd ct)" "four_digit_year (ck_apply (fst ct))" using Cons.prems(2) by simp_all
  note step = redis_step [OF assms(1,2) Cons.prems(1) m 1]
  show ?case using Cons.IH [OF step(2) _ 2(1)] Cons.prems(2) step(1) 2(2) by simp
qed simp

subsection \<open>The Postgres tables\<close>

text \<open>The values a statement binds, and the two calls of package sql the store makes.\<close>

datatype 'b sql_arg = SText string | STime time | SFloat "float64 option" | SInt int | SBytes 'b

text \<open>A row of the events table as \<open>rows.Scan\<close> reads it; three columns may be null.\<close>

record 'b event_row =
  er_ID :: string
  er_Type :: string
  er_TenantID :: string
  er_VehicleID :: string
  er_Timestamp :: time
  er_ruleID :: "string option"
  er_ruleVer :: "string option"
  er_CorrelationID :: string
  er_causation :: "string option"
  er_payload :: 'b
  er_SchemaVersion :: int

record ('g, 'b) sql_client =
  sc_Exec :: "string \<Rightarrow> 'b sql_arg list \<Rightarrow> 'g \<Rightarrow> go_error option \<times> 'g"
  sc_Query :: "string \<Rightarrow> 'b sql_arg list \<Rightarrow> 'g \<Rightarrow> go_error + ((go_error + 'b event_row) list \<times> go_error option)"
  sc_telemetry :: "telemetry \<Rightarrow> 'b"
  sc_object :: "jobj option \<Rightarrow> 'b"
  sc_Unmarshal :: "'b \<Rightarrow> go_error + jobj"
  sc_f :: "float64 \<Rightarrow> string"

text \<open>\<open>Open\<close>: the handle \<open>db\<close> of the driver, after a ping.\<close>

definition pg_Open :: "(string \<Rightarrow> go_error + 'g) \<Rightarrow> ('g \<Rightarrow> go_error option) \<Rightarrow> string \<Rightarrow> go_error + 'g" where
  "pg_Open sql_open ping dsn =
     (case sql_open dsn of Inl err \<Rightarrow> Inl err | Inr db \<Rightarrow> (case ping db of Some err \<Rightarrow> Inl err | None \<Rightarrow> Inr db))"

definition nl :: "nat \<Rightarrow> string" where
  "nl tabs = CHR 0x0A # replicate tabs (CHR 0x09)"

definition insert_telemetry :: string where
  "insert_telemetry = nl 2
     @ ''INSERT INTO telemetry(id, tenant_id, vehicle_id, device_id, ts, received_at, processed_at, lat, lng, speed_kmh, payload, raw, dedup_key)'' @ nl 2
     @ ''VALUES ($1,$2,$3,$4,$5,$6,$7,$8,$9,$10,$11,$12,$13)'' @ nl 2 @ ''ON CONFLICT (tenant_id, dedup_key) DO NOTHING''"

definition AppendTelemetry :: "go_lib \<Rightarrow> ('g, 'b) sql_client \<Rightarrow> telemetry \<Rightarrow> 'g \<Rightarrow> go_error option \<times> 'g" where
  "AppendTelemetry L C t g =
     (let (err, g) = sc_Exec C insert_telemetry
        [SText (tel_ID t), SText (tel_TenantID t), SText (tel_VehicleID t), SText (tel_DeviceID t), STime (tel_Timestamp t),
         STime (tel_ReceivedAt t), STime (tel_ProcessedAt t), SFloat (Some (loc_Lat (tel_Location t))),
         SFloat (Some (loc_Lng (tel_Location t))), SFloat (tel_SpeedKmh t), SBytes (sc_telemetry C t), SBytes (sc_object C (tel_Raw t)),
         SText (DedupKey L t)] g
      in (map_option (\<lambda>e. ''store: append telemetry: '' @ e) err, g))"

definition insert_event :: string where
  "insert_event = nl 2
     @ ''INSERT INTO events(id, \"type\", tenant_id, vehicle_id, ts, rule_id, rule_version, correlation_id, causation_id, payload, schema_version)'' @ nl 2
     @ ''VALUES ($1,$2,$3,$4,$5,$6,$7,$8,$9,$10,$11) ON CONFLICT (id) DO NOTHING''"

definition AppendEvent :: "('g, 'b) sql_client \<Rightarrow> event \<Rightarrow> 'g \<Rightarrow> go_error option \<times> 'g" where
  "AppendEvent C e g =
     sc_Exec C insert_event
       [SText (ev_ID e), SText (ev_Type e), SText (ev_TenantID e), SText (ev_VehicleID e), STime (ev_Timestamp e), SText (ev_RuleID e),
        SText (ev_RuleVersion e), SText (ev_CorrelationID e), SText (ev_CausationID e), SBytes (sc_object C (Some (ev_Payload e))),
        SInt (ev_SchemaVersion e)] g"

definition of_row :: "('g, 'b) sql_client \<Rightarrow> 'b event_row \<Rightarrow> event" where
  "of_row C r =
     (let str = (\<lambda>x. case x of None \<Rightarrow> [] | Some s \<Rightarrow> s)
      in \<lparr>ev_ID = er_ID r, ev_Type = er_Type r, ev_TenantID = er_TenantID r, ev_VehicleID = er_VehicleID r,
          ev_Timestamp = er_Timestamp r, ev_RuleID = str (er_ruleID r), ev_RuleVersion = str (er_ruleVer r),
          ev_CorrelationID = er_CorrelationID r, ev_CausationID = str (er_causation r),
          ev_Payload = (case sc_Unmarshal C (er_payload r) of Inl _ \<Rightarrow> [] | Inr m \<Rightarrow> m), ev_SchemaVersion = er_SchemaVersion r\<rparr>)"

fun scan_rows :: "('g, 'b) sql_client \<Rightarrow> (go_error + 'b event_row) list \<Rightarrow> go_error option \<Rightarrow> event list \<Rightarrow> go_error + event list" where
  "scan_rows C [] err out = (case err of None \<Rightarrow> Inr out | Some e \<Rightarrow> Inl e)"
| "scan_rows C (Inl e # rows) err out = Inl e"
| "scan_rows C (Inr r # rows) err out = scan_rows C rows err (out @ [of_row C r])"

definition select_events :: string where
  "select_events =
     ''SELECT id, \"type\", tenant_id, vehicle_id, ts, rule_id, rule_version, correlation_id, causation_id, payload, schema_version''
     @ nl 1 @ ''      FROM events WHERE ''"

definition RecentEvents :: "('g, 'b) sql_client \<Rightarrow> string \<Rightarrow> string \<Rightarrow> string \<Rightarrow> int \<Rightarrow> 'g \<Rightarrow> go_error + event list" where
  "RecentEvents C tenantID vehicleID typ limit g =
     (if tenantID = [] then Inl ''store: tenant required''
      else
        let limit = (if limit \<le> 0 \<or> limit > 500 then 100 else limit);
            q = select_events @ ''tenant_id = $1''; args = [SText tenantID];
            (q, args) = (if vehicleID \<noteq> [] then (q @ '' AND vehicle_id = $'' @ show_nat (length args + 1), args @ [SText vehicleID]) else (q, args));
            (q, args) = (if typ \<noteq> [] then (q @ '' AND \"type\" = $'' @ show_nat (length args + 1), args @ [SText typ]) else (q, args));
            q = q @ '' ORDER BY ts DESC LIMIT $'' @ show_nat (length args + 1);
            args = args @ [SInt limit]
        in case sc_Query C q args g of
             Inl err \<Rightarrow> Inl err
           | Inr (rows, err) \<Rightarrow> scan_rows C rows err [])"

text \<open>The points of a ring as well-known text.\<close>

fun ring_text :: "(float64 \<Rightarrow> string) \<Rightarrow> (float64 \<times> float64) list \<Rightarrow> string" where
  "ring_text f [] = []"
| "ring_text f [(x, y)] = f x @ '' '' @ f y"
| "ring_text f ((x, y) # ps) = f x @ '' '' @ f y @ '','' @ ring_text f ps"

definition insert_geofence :: string where
  "insert_geofence = ''INSERT INTO geofences(id, tenant_id, name, geom)'' @ nl 2
     @ '' VALUES ($1,$2,$3,ST_GeomFromText('' @ [CHR 0x27] @ ''POLYGON(('' @ [CHR 0x27] @ ''||$4||'' @ [CHR 0x27] @ ''))'' @ [CHR 0x27] @ '',4326))'' @ nl 2
     @ '' ON CONFLICT (id) DO NOTHING''"

definition AddGeofence :: "('g, 'b) sql_client \<Rightarrow> string \<Rightarrow> string \<Rightarrow> string \<Rightarrow> (float64 \<times> float64) list \<Rightarrow> 'g \<Rightarrow> go_error option \<times> 'g" where
  "AddGeofence C tenantID i name ring g =
     (if tenantID = [] \<or> i = [] \<or> length ring < 3 then (Some ''store: geofence needs tenant, id, 3+ points'', g)
      else let pts = ring_text (sc_f C) ring @ '','' @ ring_text (sc_f C) [hd ring]
           in sc_Exec C insert_geofence [SText i, SText tenantID, SText name, SText pts] g)"

text \<open>The text sent for a geofence is a closed ring: its first point again at the end.\<close>

lemma ring_text_snoc: "ring \<noteq> [] \<Longrightarrow> ring_text f (ring @ [p]) = ring_text f ring @ '','' @ ring_text f [p]"
  by (induction f ring rule: ring_text.induct) (cases p, simp_all)

lemma AddGeofence_closed_ring:
  "tenantID \<noteq> [] \<Longrightarrow> i \<noteq> [] \<Longrightarrow> 3 \<le> length ring \<Longrightarrow>
    AddGeofence C tenantID i name ring g = sc_Exec C insert_geofence [SText i, SText tenantID, SText name, SText (ring_text (sc_f C) (ring @ [hd ring]))] g"
  using ring_text_snoc [of ring "sc_f C" "hd ring"] by (cases ring) (simp_all add: AddGeofence_def)

subsection \<open>What the tables promise\<close>

text \<open>Text that Postgres stores as it is, and events that survive the columns of the table: times have microseconds.\<close>

definition pg_text :: "string \<Rightarrow> bool" where
  "pg_text s \<longleftrightarrow> list_all (\<lambda>c. 0 < (of_char c :: nat) \<and> of_char c < (128 :: nat)) s"

definition pg_event :: "('g, 'b) sql_client \<Rightarrow> event \<Rightarrow> bool" where
  "pg_event C e \<longleftrightarrow> list_all pg_text [ev_ID e, ev_Type e, ev_TenantID e, ev_VehicleID e, ev_RuleID e, ev_RuleVersion e, ev_CorrelationID e, ev_CausationID e]
     \<and> 1000 dvd ev_Timestamp e \<and> four_digit_year (ev_Timestamp e) \<and> ev_SchemaVersion e \<in> {0 ..< 2 ^ 31}
     \<and> sc_Unmarshal C (sc_object C (Some (ev_Payload e))) = Inr (ev_Payload e)"

text \<open>The insert adds a row unless its id is there; JSONB may rewrite a document without changing what it decodes to.\<close>

definition insert_law :: "('g, 'b) sql_client \<Rightarrow> ('g \<Rightarrow> 'b event_row list) \<Rightarrow> bool" where
  "insert_law C table \<longleftrightarrow>
     (\<forall>i ty tn v ts ru rv co ca pl sv g. list_all pg_text [i, ty, tn, v, ru, rv, co, ca] \<and> 1000 dvd ts \<and> four_digit_year ts \<and> sv \<in> {0 ..< 2 ^ 31} \<longrightarrow>
       (\<exists>g' pl'. sc_Exec C insert_event [SText i, SText ty, SText tn, SText v, STime ts, SText ru, SText rv, SText co, SText ca, SBytes pl, SInt sv] g = (None, g')
         \<and> sc_Unmarshal C pl' = sc_Unmarshal C pl
         \<and> table g' = (if i \<in> er_ID ` set (table g) then table g
             else table g @ [\<lparr>er_ID = i, er_Type = ty, er_TenantID = tn, er_VehicleID = v, er_Timestamp = ts, er_ruleID = Some ru, er_ruleVer = Some rv,
               er_CorrelationID = co, er_causation = Some ca, er_payload = pl', er_SchemaVersion = sv\<rparr>])))"

text \<open>A select with equality conditions on columns: the text, and the rows it returns.\<close>

fun where_text :: "nat \<Rightarrow> string list \<Rightarrow> string" where
  "where_text i [] = []"
| "where_text i (c # cs) = (if i = 1 then [] else '' AND '') @ c @ '' = $'' @ show_nat i @ where_text (i + 1) cs"

definition select_text :: "string list \<Rightarrow> string" where
  "select_text cols = select_events @ where_text 1 cols @ '' ORDER BY ts DESC LIMIT $'' @ show_nat (length cols + 1)"

definition column :: "string \<Rightarrow> 'b event_row \<Rightarrow> string" where
  "column c r = (if c = ''tenant_id'' then er_TenantID r else if c = ''vehicle_id'' then er_VehicleID r else er_Type r)"

definition filter_columns :: "string list list" where
  "filter_columns = [[''tenant_id''], [''tenant_id'', ''vehicle_id''], [''tenant_id'', ''\"type\"''], [''tenant_id'', ''vehicle_id'', ''\"type\"'']]"

definition select_law :: "('g, 'b) sql_client \<Rightarrow> ('g \<Rightarrow> 'b event_row list) \<Rightarrow> bool" where
  "select_law C table \<longleftrightarrow>
     (\<forall>cols vals n g. cols \<in> set filter_columns \<and> length vals = length cols \<and> list_all pg_text vals \<and> 0 \<le> n \<longrightarrow>
       (\<exists>rows. sc_Query C (select_text cols) (map SText vals @ [SInt n]) g = Inr (map Inr (take (nat n) rows), None)
         \<and> mset rows = mset (filter (\<lambda>r. map (\<lambda>c. column c r) cols = vals) (table g))
         \<and> sorted_wrt (\<lambda>a b. er_Timestamp b \<le> er_Timestamp a) rows))"

text \<open>Events appended one after the other, and the specification of the table: the first event of every id.\<close>

definition append_events :: "('g, 'b) sql_client \<Rightarrow> event list \<Rightarrow> 'g \<Rightarrow> 'g" where
  "append_events C es g = foldl (\<lambda>g e. snd (AppendEvent C e g)) g es"

definition first_per_id :: "event list \<Rightarrow> event list" where
  "first_per_id es = foldl (\<lambda>acc e. if ev_ID e \<in> ev_ID ` set acc then acc else acc @ [e]) [] es"

lemma insert_step:
  assumes "insert_law C table" "pg_event C e" "map (of_row C) (table g) = acc"
  shows "fst (AppendEvent C e g) = None"
    and "map (of_row C) (table (snd (AppendEvent C e g))) = (if ev_ID e \<in> ev_ID ` set acc then acc else acc @ [e])"
proof -
  have ids: "ev_ID ` set acc = er_ID ` set (table g)"
    unfolding assms(3) [symmetric] by (auto simp: of_row_def Let_def image_iff)
  obtain g' pl' where 1: "AppendEvent C e g = (None, g')" "sc_Unmarshal C pl' = Inr (ev_Payload e)"
    and 2: "table g' = (if ev_ID e \<in> er_ID ` set (table g) then table g
             else table g @ [\<lparr>er_ID = ev_ID e, er_Type = ev_Type e, er_TenantID = ev_TenantID e, er_VehicleID = ev_VehicleID e, er_Timestamp = ev_Timestamp e,
               er_ruleID = Some (ev_RuleID e), er_ruleVer = Some (ev_RuleVersion e), er_CorrelationID = ev_CorrelationID e,
               er_causation = Some (ev_CausationID e), er_payload = pl', er_SchemaVersion = ev_SchemaVersion e\<rparr>])"
    using assms(1,2) unfolding insert_law_def pg_event_def AppendEvent_def by metis
  then show "fst (AppendEvent C e g) = None" by simp
  show "map (of_row C) (table (snd (AppendEvent C e g))) = (if ev_ID e \<in> ev_ID ` set acc then acc else acc @ [e])"
    using 1 2 assms(3) by (simp add: ids of_row_def Let_def)
qed

lemma append_events_table:
  assumes "insert_law C table" "\<forall>e \<in> set es. pg_event C e" "table g = []"
  shows "map (of_row C) (table (append_events C es g)) = first_per_id es"
proof -
  have "map (of_row C) (table (foldl (\<lambda>g e. snd (AppendEvent C e g)) g es)) =
      foldl (\<lambda>acc e. if ev_ID e \<in> ev_ID ` set acc then acc else acc @ [e]) (map (of_row C) (table g)) es"
    using assms(2) by (induction es arbitrary: g) (simp_all add: insert_step [OF assms(1)])
  then show ?thesis using assms(3) by (simp add: append_events_def first_per_id_def)
qed

lemma scan_rows_all: "scan_rows C (map Inr rows) None out = Inr (out @ map (of_row C) rows)"
  by (induction rows arbitrary: out) simp_all

text \<open>The query of \<open>RecentEvents\<close> is one of the four selects, with one value per condition.\<close>

definition query_columns :: "string \<Rightarrow> string \<Rightarrow> string list" where
  "query_columns v ty = [''tenant_id''] @ (if v = [] then [] else [''vehicle_id'']) @ (if ty = [] then [] else [''\"type\"''])"

definition query_values :: "string \<Rightarrow> string \<Rightarrow> string \<Rightarrow> string list" where
  "query_values tn v ty = [tn] @ (if v = [] then [] else [v]) @ (if ty = [] then [] else [ty])"

lemma show_nat_1: "show_nat (Suc 0) = ''1''"
  by code_simp

lemma RecentEvents_query:
  assumes "tn \<noteq> []"
  shows "RecentEvents C tn v ty limit g =
    (case sc_Query C (select_text (query_columns v ty)) (map SText (query_values tn v ty) @ [SInt (if limit \<le> 0 \<or> limit > 500 then 100 else limit)]) g of
       Inl err \<Rightarrow> Inl err | Inr (rows, err) \<Rightarrow> scan_rows C rows err [])"
  using assms by (cases "v = []"; cases "ty = []")
    (simp_all add: RecentEvents_def Let_def select_text_def query_columns_def query_values_def show_nat_1)

lemma query_columns_known: "query_columns v ty \<in> set filter_columns \<and> length (query_values tn v ty) = length (query_columns v ty)"
  by (simp add: query_columns_def query_values_def filter_columns_def)

lemma query_matches:
  "map (\<lambda>c. column c r) (query_columns v ty) = query_values tn v ty \<longleftrightarrow>
     er_TenantID r = tn \<and> (v = [] \<or> er_VehicleID r = v) \<and> (ty = [] \<or> er_Type r = ty)"
  by (simp add: query_columns_def query_values_def column_def)

subsection \<open>Properties\<close>



subsection \<open>Witnesses\<close>

text \<open>Redis as an association list of states that are stored unencoded.\<close>

definition alist_redis :: "((string \<times> vehicle_state) list, vehicle_state) redis_client" where
  "alist_redis = \<lparr>rc_Get = (\<lambda>k r. case map_of r k of None \<Rightarrow> RNil | Some s \<Rightarrow> RVal s), rc_Set = (\<lambda>k s r. (None, (k, s) # r)),
     rc_Scan = (\<lambda>pat n r. (filter (\<lambda>k. has_prefix k (butlast pat)) (map fst r), None)), rc_Marshal = Inr, rc_Unmarshal = Inr\<rparr>"

lemma alist_redis_up: "redis_up alist_redis map_of" "json_codec alist_redis"
  by (auto simp: redis_up_def alist_redis_def json_codec_def dom_map_of_conv_image_fst)


text \<open>The events table as a list of rows with unencoded payloads.\<close>

definition list_sql :: "(jobj option event_row list, jobj option) sql_client" where
  "list_sql = \<lparr>sc_Exec = (\<lambda>q args g. case args of
       [SText i, SText ty, SText tn, SText v, STime ts, SText ru, SText rv, SText co, SText ca, SBytes pl, SInt sv] \<Rightarrow>
         (None, if i \<in> er_ID ` set g then g
            else g @ [\<lparr>er_ID = i, er_Type = ty, er_TenantID = tn, er_VehicleID = v, er_Timestamp = ts, er_ruleID = Some ru, er_ruleVer = Some rv,
               er_CorrelationID = co, er_causation = Some ca, er_payload = pl, er_SchemaVersion = sv\<rparr>])
     | _ \<Rightarrow> (None, g)),
     sc_Query = (\<lambda>q args g. case find (\<lambda>cols. select_text cols = q) filter_columns of
         None \<Rightarrow> Inl ''syntax error''
       | Some cols \<Rightarrow> (case last args of
           SInt n \<Rightarrow> Inr (map Inr (take (nat n) (rev (sort_key er_Timestamp (filter (\<lambda>r. map (\<lambda>c. SText (column c r)) cols = butlast args) g)))), None)
         | _ \<Rightarrow> Inl ''syntax error'')),
     sc_telemetry = (\<lambda>_. None), sc_object = (\<lambda>x. x), sc_Unmarshal = (\<lambda>x. case x of None \<Rightarrow> Inl ''null'' | Some m \<Rightarrow> Inr m), sc_f = (\<lambda>_. ''0'')\<rparr>"

lemma list_sql_insert: "insert_law list_sql (\<lambda>g. g)"
  by (auto simp: insert_law_def list_sql_def)

lemma select_text_inject: "cols \<in> set filter_columns \<Longrightarrow> find (\<lambda>cs. select_text cs = select_text cols) filter_columns = Some cols"
proof -
  have "list_all (\<lambda>cols. find (\<lambda>cs. select_text cs = select_text cols) filter_columns = Some cols) filter_columns" by code_simp
  then show "cols \<in> set filter_columns \<Longrightarrow> find (\<lambda>cs. select_text cs = select_text cols) filter_columns = Some cols" by (simp add: list_all_iff)
qed

lemma list_sql_select: "select_law list_sql (\<lambda>g. g)"
  unfolding select_law_def
proof (intro allI impI)
  fix cols vals n and g :: "jobj option event_row list"
  assume a: "cols \<in> set filter_columns \<and> length vals = length cols \<and> list_all pg_text vals \<and> 0 \<le> (n :: int)"
  let ?rows = "rev (sort_key er_Timestamp (filter (\<lambda>r. map (\<lambda>c. column c r) cols = vals) g))"
  have "map (\<lambda>c. SText (column c r) :: jobj option sql_arg) cols = map SText vals \<longleftrightarrow> map (\<lambda>c. column c r) cols = vals" for r :: "jobj option event_row"
    using inj_map_eq_map [of "SText :: string \<Rightarrow> jobj option sql_arg" "map (\<lambda>c. column c r) cols" vals] by (simp add: inj_def o_def)
  then have "sc_Query list_sql (select_text cols) (map SText vals @ [SInt n]) g = Inr (map Inr (take (nat n) ?rows), None)"
    using a by (simp add: list_sql_def select_text_inject)
  moreover have "sorted_wrt (\<lambda>a b. er_Timestamp b \<le> er_Timestamp a) ?rows"
    using sorted_sort_key [of er_Timestamp "filter (\<lambda>r. map (\<lambda>c. column c r) cols = vals) g"]
    by (simp add: sorted_wrt_rev sorted_map)
  ultimately show "\<exists>rows. sc_Query list_sql (select_text cols) (map SText vals @ [SInt n]) g = Inr (map Inr (take (nat n) rows), None)
      \<and> mset rows = mset (filter (\<lambda>r. map (\<lambda>c. column c r) cols = vals) g) \<and> sorted_wrt (\<lambda>a b. er_Timestamp b \<le> er_Timestamp a) rows"
    by (intro exI [of _ ?rows]) simp
qed

definition stored_event :: "string \<Rightarrow> string \<Rightarrow> time \<Rightarrow> event" where
  "stored_event i tn ts = \<lparr>ev_ID = i, ev_Type = ''trip.started'', ev_TenantID = tn, ev_VehicleID = ''v'', ev_Timestamp = ts, ev_RuleID = [],
     ev_RuleVersion = [], ev_CorrelationID = ''c'', ev_CausationID = [], ev_Payload = [], ev_SchemaVersion = 1\<rparr>"


end
