(* ===== verification/Fleet.thy ===== *)
theory Fleet
  imports Concurrent Stores
begin

section \<open>Processes that share Redis (internal/boot, internal/dedup, internal/state)\<close>

text \<open>
  When Redis answers at start, \<open>Build\<close> gives every process the Redis stores for dedup keys and hot state; log, bus,
  detectors, fences and rules stay its own. Here any number of processes, each with any number of concurrent calls
  of \<open>Process\<close>, work against one Redis, phase by phase. A call is a goroutine with the index of its process.
\<close>

text \<open>The operations of a pipeline with both Redis stores.\<close>

definition with_redis ::
  "('r, 'b) redis_client \<Rightarrow> (string \<Rightarrow> duration \<Rightarrow> 'r \<Rightarrow> (bool \<times> go_error option) \<times> 'r) \<Rightarrow> 'p pipeline_ops \<Rightarrow> ('p \<times> 'r) pipeline_ops" where
  "with_redis C setnx ops =
     (with_redis_states C ops)\<lparr>po_Seen := \<lambda>k (p, r). let (d, r) = RedisStore_Seen setnx (24 * Hour) k r in (d, p, r)\<rparr>"

record ('d, 'r) fleet =
  fl_procs :: "'d mem_pipeline list"
  fl_redis :: 'r

record worker = goroutine +
  go_proc :: nat

definition fleet_step ::
  "('r, 'b) redis_client \<Rightarrow> (string \<Rightarrow> duration \<Rightarrow> 'r \<Rightarrow> (bool \<times> go_error option) \<times> 'r) \<Rightarrow> go_lib \<Rightarrow> (string set \<Rightarrow> string list)
    \<Rightarrow> (string \<Rightarrow> string \<Rightarrow> event \<Rightarrow> 'd \<Rightarrow> go_error option \<times> 'd) \<Rightarrow> 'd mem_pipeline list \<Rightarrow> worker \<Rightarrow> ('d, 'r) fleet \<Rightarrow> phase \<times> ('d, 'r) fleet" where
  "fleet_step C setnx L ord disp p0s g s =
     (let (ph, p, r) = proc_step L (with_redis C setnx (mem_ops L ord disp (go_clk g) (p0s ! go_proc g))) (go_clk g) (go_t g) (go_phase g)
            (fl_procs s ! go_proc g, fl_redis s)
      in (ph, s\<lparr>fl_procs := (fl_procs s)[go_proc g := p], fl_redis := r\<rparr>))"

text \<open>Calls start in any process at any time and take turns phase by phase.\<close>

inductive fleet_reach ::
  "('r, 'b) redis_client \<Rightarrow> (string \<Rightarrow> duration \<Rightarrow> 'r \<Rightarrow> (bool \<times> go_error option) \<times> 'r) \<Rightarrow> go_lib \<Rightarrow> (string set \<Rightarrow> string list)
    \<Rightarrow> (string \<Rightarrow> string \<Rightarrow> event \<Rightarrow> 'd \<Rightarrow> go_error option \<times> 'd) \<Rightarrow> ('d, 'r) fleet \<Rightarrow> worker list \<Rightarrow> ('d, 'r) fleet \<Rightarrow> bool"
  for C setnx L ord disp s0 where
  start: "fleet_reach C setnx L ord disp s0 [] s0"
| spawn: "fleet_reach C setnx L ord disp s0 gs s \<Longrightarrow> go_phase g = PEntry \<Longrightarrow> go_proc g < length (fl_procs s0) \<Longrightarrow>
    fleet_reach C setnx L ord disp s0 (gs @ [g]) s"
| run: "fleet_reach C setnx L ord disp s0 gs s \<Longrightarrow> i < length gs \<Longrightarrow>
    fleet_step C setnx L ord disp (fl_procs s0) (gs ! i) s = (ph, s') \<Longrightarrow>
    fleet_reach C setnx L ord disp s0 (gs[i := (gs ! i)\<lparr>go_phase := ph\<rparr>]) s'"

definition fleet_log :: "('d, 'r) fleet \<Rightarrow> telemetry list" where
  "fleet_log s = concat (map mp_log (fl_procs s))"

subsection \<open>The commands on dedup keys\<close>

text \<open>
  What the gate needs of Redis: SETNX on a dedup key answers whether the key was new and records it, and SET on the key
  of a state touches no dedup key, whether it succeeds or not. \<open>seen\<close> are the recorded dedup keys; none expires.
\<close>

definition redis_gate ::
  "('r, 'b) redis_client \<Rightarrow> (string \<Rightarrow> duration \<Rightarrow> 'r \<Rightarrow> (bool \<times> go_error option) \<times> 'r) \<Rightarrow> ('r \<Rightarrow> string set) \<Rightarrow> bool" where
  "redis_gate C setnx seen \<longleftrightarrow>
     (\<forall>k ttl r. fst (setnx (''tide:dedup:'' @ k) ttl r) = (k \<notin> seen r, None) \<and> seen (snd (setnx (''tide:dedup:'' @ k) ttl r)) = insert k (seen r))
     \<and> (\<forall>v raw r. seen (snd (rc_Set C (state_key v) raw r)) = seen r)"

lemma redis_gate_seen:
  assumes "redis_gate C setnx seen"
  shows "fst (RedisStore_Seen setnx ttl k r) = (k \<in> seen r, None)" "seen (snd (RedisStore_Seen setnx ttl k r)) = insert k (seen r)"
proof -
  have "fst (setnx (''tide:dedup:'' @ k) ttl r) = (k \<notin> seen r, None)" "seen (snd (setnx (''tide:dedup:'' @ k) ttl r)) = insert k (seen r)"
    using assms unfolding redis_gate_def by blast+
  then show "fst (RedisStore_Seen setnx ttl k r) = (k \<in> seen r, None)" "seen (snd (RedisStore_Seen setnx ttl k r)) = insert k (seen r)"
    unfolding RedisStore_Seen_def by (auto simp: case_prod_beta split: option.split prod.split)
qed

lemma redis_gate_set: "redis_gate C setnx seen \<Longrightarrow> seen (snd (RedisStore_Set C s r)) = seen r"
  by (simp add: RedisStore_Set_def redis_gate_def split: sum.split)

text \<open>What a phase of a process does to its log and to the dedup keys.\<close>

lemma redis_entry:
  assumes "redis_gate C setnx seen" "proc_step L (with_redis C setnx (mem_ops L ord disp clk p0)) clk t PEntry (p, r) = (ph, p', r')"
  shows "p' = p \<and> ((\<not> accepted clk t \<or> DedupKey L t \<in> seen r) \<and> seen r' = seen r \<and> (\<exists>x. ph = PReturn x)
      \<or> accepted clk t \<and> DedupKey L t \<notin> seen r \<and> seen r' = insert (DedupKey L t) (seen r) \<and> ph = PAppend)"
proof (cases "accepted clk t")
  case True
  obtain r1 where s: "RedisStore_Seen setnx (24 * Hour) (DedupKey L t) r = ((DedupKey L t \<in> seen r, None), r1)" "seen r1 = insert (DedupKey L t) (seen r)"
    using redis_gate_seen [OF assms(1), of "24 * Hour" "DedupKey L t" r] by (metis prod.collapse)
  show ?thesis using True assms(2) s by (cases "DedupKey L t \<in> seen r") (auto simp: accepted_def with_redis_def insert_absorb)
qed (use assms(2) in \<open>auto simp: accepted_def split: option.splits if_splits\<close>)

lemma redis_append:
  "proc_step L (with_redis C setnx (mem_ops L ord disp clk p0)) clk t PAppend (p, r) = (ph, p', r')
    \<Longrightarrow> ph = PGet \<and> p' = p\<lparr>mp_log := mp_log p @ [t]\<rparr> \<and> r' = r"
  by (auto simp: with_redis_def with_redis_states_def mem_ops_def MemoryLog_Append_def)

lemma redis_later:
  assumes "redis_gate C setnx seen" "proc_step L (with_redis C setnx (mem_ops L ord disp clk p0)) clk t ph (p, r) = (ph', p', r')"
    and "ph \<noteq> PEntry" "ph \<noteq> PAppend"
  shows "mp_log p' = mp_log p \<and> seen r' = seen r \<and> ph' \<noteq> PEntry \<and> ph' \<noteq> PAppend"
proof (cases "\<exists>s. ph = PSet s")
  case True
  then obtain s where s: "ph = PSet s" by blast
  obtain err r1 where w: "RedisStore_Set C s r = (err, r1)" by (cases "RedisStore_Set C s r")
  then have "seen r1 = seen r" using redis_gate_set [OF assms(1), of s r] by simp
  with assms(2) s w show ?thesis by (cases err) (auto simp: with_redis_def with_redis_states_def)
next
  case False
  then show ?thesis using assms(2-4)
    by (cases "(L, with_redis C setnx (mem_ops L ord disp clk p0), clk, t, ph, (p, r))" rule: proc_step.cases)
      (auto simp: with_redis_def with_redis_states_def mem_ops_def case_prod_beta Let_def split: option.splits if_splits)
qed

subsection \<open>The fleet is gated\<close>

lemma concat_log_update:
  assumes "i < length ps" "mp_log p = mp_log (ps ! i)"
  shows "concat (map mp_log (ps[i := p])) = concat (map mp_log ps)"
proof -
  have "map mp_log (ps[i := p]) = map mp_log ps" using assms by (simp add: map_update list_update_same_conv)
  then show ?thesis by simp
qed

lemma concat_log_append:
  assumes "i < length ps" "mp_log p = mp_log (ps ! i) @ [t]"
  shows "mset (concat (map mp_log (ps[i := p]))) = add_mset t (mset (concat (map mp_log ps)))"
proof -
  have "ps = take i ps @ ps ! i # drop (Suc i) ps" using assms(1) by (simp add: id_take_nth_drop)
  moreover have "ps[i := p] = take i ps @ p # drop (Suc i) ps" using assms(1) by (simp add: upd_conv_take_nth_drop)
  ultimately have "concat (map mp_log (ps[i := p])) = concat (map mp_log (take i ps)) @ mp_log (ps ! i) @ [t] @ concat (map mp_log (drop (Suc i) ps))"
    "concat (map mp_log ps) = concat (map mp_log (take i ps)) @ mp_log (ps ! i) @ concat (map mp_log (drop (Suc i) ps))"
    using assms(2) by (simp, metis concat.simps(2) concat_append list.simps(9) map_append)
  then show ?thesis by simp
qed

lemma fleet_gated:
  fixes p0s :: "'d mem_pipeline list" and seen :: "'r \<Rightarrow> string set"
  assumes "redis_gate C setnx seen"
  shows "gated_log (fleet_step C setnx L ord disp p0s) (DedupKey L) (\<lambda>s. seen (fl_redis s)) fleet_log
    (\<lambda>s. length (fl_procs s) = length p0s) (\<lambda>g. go_proc g < length p0s)"
proof
  fix s :: "('d, 'r) fleet" and g ph s'
  assume ok: "length (fl_procs s) = length p0s" "go_proc g < length p0s" and step: "fleet_step C setnx L ord disp p0s g s = (ph, s')"
  let ?i = "go_proc g" and ?ops = "with_redis C setnx (mem_ops L ord disp (go_clk g) (p0s ! go_proc g))"
  obtain p r where P: "proc_step L ?ops (go_clk g) (go_t g) (go_phase g) (fl_procs s ! ?i, fl_redis s) = (ph, p, r)"
    and s': "s' = s\<lparr>fl_procs := (fl_procs s)[?i := p], fl_redis := r\<rparr>"
    using step by (auto simp: fleet_step_def Let_def split: prod.splits)
  show "length (fl_procs s') = length p0s" using ok(1) s' by simp
  show "go_phase g = PEntry \<Longrightarrow> fleet_log s' = fleet_log s
      \<and> ((\<not> go_accepted g \<or> DedupKey L (go_t g) \<in> seen (fl_redis s)) \<and> seen (fl_redis s') = seen (fl_redis s) \<and> (\<exists>r. ph = PReturn r)
         \<or> go_accepted g \<and> DedupKey L (go_t g) \<notin> seen (fl_redis s) \<and> seen (fl_redis s') = insert (DedupKey L (go_t g)) (seen (fl_redis s)) \<and> ph = PAppend)"
    using redis_entry [OF assms, of L ord disp "go_clk g" "p0s ! ?i" "go_t g" "fl_procs s ! ?i" "fl_redis s" ph p r] P s' ok
    by (auto simp: fleet_log_def go_accepted_def concat_log_update)
  show "go_phase g = PAppend \<Longrightarrow> ph = PGet \<and> seen (fl_redis s') = seen (fl_redis s) \<and> mset (fleet_log s') = add_mset (go_t g) (mset (fleet_log s))"
    using redis_append [of L C setnx ord disp "go_clk g" "p0s ! ?i" "go_t g" "fl_procs s ! ?i" "fl_redis s" ph p r] P s' ok
    by (auto simp: fleet_log_def concat_log_append)
  show "go_phase g \<noteq> PEntry \<Longrightarrow> go_phase g \<noteq> PAppend \<Longrightarrow>
      seen (fl_redis s') = seen (fl_redis s) \<and> fleet_log s' = fleet_log s \<and> ph \<noteq> PEntry \<and> ph \<noteq> PAppend"
    using redis_later [OF assms P] s' ok by (auto simp: fleet_log_def concat_log_update)
qed simp

lemma fleet_calls_inv:
  assumes "redis_gate C setnx seen" "fleet_reach C setnx L ord disp s0 gs s" "fleet_log s0 = []" "seen (fl_redis s0) = {}"
  shows "gated_log.calls_inv (DedupKey L) (\<lambda>s. seen (fl_redis s)) fleet_log (\<lambda>s. length (fl_procs s) = length (fl_procs s0)) (\<lambda>g. go_proc g < length (fl_procs s0)) gs s"
  using assms(2)
proof induction
  note gated = fleet_gated [OF assms(1), of L ord disp "fl_procs s0"]
  case start
  show ?case using assms(3,4) by (intro gated_log.calls_inv_start [OF gated]) simp_all
next
  note gated = fleet_gated [OF assms(1), of L ord disp "fl_procs s0"]
  case (spawn gs s g)
  then show ?case by (intro gated_log.calls_inv_spawn [OF gated])
next
  note gated = fleet_gated [OF assms(1), of L ord disp "fl_procs s0"]
  case (run gs s i ph s')
  then show ?case by (intro gated_log.calls_inv_run [OF gated])
qed

subsection \<open>A call that runs alone\<close>

lemma fleet_reach_leads:
  assumes "fleet_reach C setnx L ord disp s0 gs s" "i < length gs" "go_proc (gs ! i) = j" "j < length (fl_procs s)"
    and "go_clk (gs ! i) = clk" "go_t (gs ! i) = t"
    and "leads (call_step L (with_redis C setnx (mem_ops L ord disp clk (fl_procs s0 ! j))) clk t) (go_phase (gs ! i), fl_procs s ! j, fl_redis s) (ph, p, r)"
  shows "fleet_reach C setnx L ord disp s0 (gs[i := (gs ! i)\<lparr>go_phase := ph\<rparr>]) (s\<lparr>fl_procs := (fl_procs s)[j := p], fl_redis := r\<rparr>)"
proof -
  let ?f = "call_step L (with_redis C setnx (mem_ops L ord disp clk (fl_procs s0 ! j))) clk t"
  obtain n where "(?f ^^ n) (go_phase (gs ! i), fl_procs s ! j, fl_redis s) = (ph, p, r)"
    using assms(7) by (auto simp: leads_def)
  then show ?thesis
  proof (induction n arbitrary: ph p r)
    case 0
    then have same: "(gs ! i)\<lparr>go_phase := ph\<rparr> = gs ! i" "s\<lparr>fl_procs := (fl_procs s)[j := p], fl_redis := r\<rparr> = s" by auto
    show ?case unfolding same list_update_id by (rule assms(1))
  next
    case (Suc n)
    obtain ph1 p1 r1 where mid: "(?f ^^ n) (go_phase (gs ! i), fl_procs s ! j, fl_redis s) = (ph1, p1, r1)" by (metis prod.collapse)
    have "proc_step L (with_redis C setnx (mem_ops L ord disp clk (fl_procs s0 ! j))) clk t ph1 (p1, r1) = (ph, p, r)"
      using Suc.prems mid by simp
    then show ?case
      using fleet_reach.run [OF Suc.IH [OF mid], of i ph "s\<lparr>fl_procs := (fl_procs s)[j := p], fl_redis := r\<rparr>"] assms(2-6)
      by (simp add: fleet_step_def)
  qed
qed

text \<open>A call that starts and meets no other runs to the result of \<open>Process\<close> on its process and Redis.\<close>

lemma fleet_call:
  assumes "fleet_reach C setnx L ord disp s0 gs s" "j < length (fl_procs s)" "length (fl_procs s) = length (fl_procs s0)"
    and "Process L (with_redis C setnx (mem_ops L ord disp clk (fl_procs s0 ! j))) clk t (fl_procs s ! j, fl_redis s) = (res, p, r)"
  shows "fleet_reach C setnx L ord disp s0 (gs @ [\<lparr>go_clk = clk, go_t = t, go_phase = PReturn res, go_proc = j\<rparr>])
    (s\<lparr>fl_procs := (fl_procs s)[j := p], fl_redis := r\<rparr>)"
proof -
  let ?gs = "gs @ [\<lparr>go_clk = clk, go_t = t, go_phase = PEntry, go_proc = j\<rparr>]"
  have "fleet_reach C setnx L ord disp s0 ?gs s" using assms(2,3) by (intro fleet_reach.spawn [OF assms(1)]) simp_all
  from fleet_reach_leads [OF this, of "length gs" j clk t "PReturn res" p r] show ?thesis
    using call_leads [of L "with_redis C setnx (mem_ops L ord disp clk (fl_procs s0 ! j))" clk t "(fl_procs s ! j, fl_redis s)"] assms(2,4)
    by simp
qed

subsection \<open>Properties\<close>

text \<open>C3: A point sent to several processes is logged once. In every interleaving of the phases of any number of calls in any
  number of processes that share one Redis, with no dedup key expiring and SETNX answering, no two points in the
  logs of all processes share a dedup key, only points that pass the checks are logged, and when all calls have
  returned every such point has its key in some log. Nothing is assumed of the commands for the hot state.\<close>

theorem fleet_points_logged_once:
  assumes "redis_gate C setnx seen" "fleet_reach C setnx L ord disp s0 gs s" "fleet_log s0 = []" "seen (fl_redis s0) = {}"
  shows "distinct (map (DedupKey L) (fleet_log s)) \<and> set (fleet_log s) \<subseteq> go_t ` {g \<in> set gs. go_accepted g}
    \<and> ((\<forall>g \<in> set gs. returned g) \<longrightarrow> DedupKey L ` set (fleet_log s) = (DedupKey L \<circ> go_t) ` {g \<in> set gs. go_accepted g})"
  by (rule gated_log.logged_once [OF fleet_gated [OF assms(1)] fleet_calls_inv [OF assms]])

text \<open>C35: A lost reply from Redis loses the point. When SETNX records the dedup key but its reply does not arrive, \<open>Process\<close>
  returns the error and logs nothing; the point sent again is answered as a duplicate, without an error, and is in
  no log, no state and no event.\<close>

theorem lost_redis_reply_drops_the_point:
  assumes "accepted clk t" "accepted clk' t"
    and "setnx (''tide:dedup:'' @ DedupKey L t) (24 * Hour) r = ((ok, Some err), r')"
    and "setnx (''tide:dedup:'' @ DedupKey L t) (24 * Hour) r' = ((False, None), r'')"
  shows "Process L (with_redis C setnx (mem_ops L ord disp clk p)) clk t (p, r) = (([], False, Some (PlainError err)), p, r')
    \<and> Process L (with_redis C setnx (mem_ops L ord disp clk' p)) clk' t (p, r') = (([], True, None), p, r'')"
  using assms by (simp add: Process_def accepted_def with_redis_def RedisStore_Seen_def)

subsection \<open>Witnesses\<close>

text \<open>Redis as a list of keys with their values; SETNX adds a key that is not there.\<close>

definition alist_setnx :: "string \<Rightarrow> duration \<Rightarrow> (string \<times> vehicle_state) list \<Rightarrow> (bool \<times> go_error option) \<times> (string \<times> vehicle_state) list" where
  "alist_setnx k ttl r = (if k \<in> fst ` set r then ((False, None), r) else ((True, None), (k, zero_vehicle_state) # r))"

definition alist_seen :: "(string \<times> vehicle_state) list \<Rightarrow> string set" where
  "alist_seen r = {k. ''tide:dedup:'' @ k \<in> fst ` set r}"

lemma alist_gate: "redis_gate alist_redis alist_setnx alist_seen"
  by (auto simp: redis_gate_def alist_redis_def alist_setnx_def alist_seen_def state_key_def)

theorem fleet_points_logged_once_witness:
  "let t = point_at ''v'' 1 None None (Some 7); ops = with_redis alist_redis alist_setnx (mem_ops plain_lib sorted_list_of_set (\<lambda>_ _ _ d. (None, d)) (clk_at 5) NewTestPipeline);
       (res1, p1, r1) = Process plain_lib ops (clk_at 5) t (NewTestPipeline :: unit mem_pipeline, []);
       (res2, p2, r2) = Process plain_lib ops (clk_at 5) t (NewTestPipeline :: unit mem_pipeline, r1)
   in distinct (map (DedupKey plain_lib) (mp_log p1 @ mp_log p2)) \<and> DedupKey plain_lib ` set (mp_log p1 @ mp_log p2) = {DedupKey plain_lib t}"
proof -
  let ?t = "point_at ''v'' 1 None None (Some 7)" and ?new = "NewTestPipeline :: unit mem_pipeline" and ?disp = "\<lambda>_ _ _ d. (None, d)"
  let ?ops = "with_redis alist_redis alist_setnx (mem_ops plain_lib sorted_list_of_set ?disp (clk_at 5) ?new)"
  let ?init = "\<lparr>fl_procs = [?new, ?new], fl_redis = []\<rparr>"
  obtain res1 p1 r1 where 1: "Process plain_lib ?ops (clk_at 5) ?t (?new, []) = (res1, p1, r1)" by (metis prod.collapse)
  obtain res2 p2 r2 where 2: "Process plain_lib ?ops (clk_at 5) ?t (?new, r1) = (res2, p2, r2)" by (metis prod.collapse)
  let ?g1 = "\<lparr>go_clk = clk_at 5, go_t = ?t, go_phase = PReturn res1, go_proc = 0\<rparr>"
  let ?g2 = "\<lparr>go_clk = clk_at 5, go_t = ?t, go_phase = PReturn res2, go_proc = 1\<rparr>"
  let ?s = "\<lparr>fl_procs = [p1, p2], fl_redis = r2\<rparr>"
  have "fleet_reach alist_redis alist_setnx plain_lib sorted_list_of_set ?disp ?init [?g1] \<lparr>fl_procs = [p1, ?new], fl_redis = r1\<rparr>"
    using fleet_call [OF fleet_reach.start, of 0 ?init] 1 by simp
  from fleet_call [OF this, of 1] 2
  have "fleet_reach alist_redis alist_setnx plain_lib sorted_list_of_set ?disp ?init [?g1, ?g2] ?s" by simp
  from fleet_points_logged_once [OF alist_gate this]
  have res: "distinct (map (DedupKey plain_lib) (fleet_log ?s))"
    "(\<forall>g \<in> set [?g1, ?g2]. returned g) \<longrightarrow> DedupKey plain_lib ` set (fleet_log ?s) = (DedupKey plain_lib \<circ> go_t) ` {g \<in> set [?g1, ?g2]. go_accepted g}"
    by (simp_all add: fleet_log_def NewTestPipeline_def alist_seen_def)
  have "accepted (clk_at 5) ?t" by (simp add: accepted_def point_at_valid clk_at_def MaxFutureSkew_def) (simp add: point_at_simps)
  then have "{g \<in> set [?g1, ?g2]. go_accepted g} = {?g1, ?g2}" by (auto simp: go_accepted_def)
  moreover have "\<forall>g \<in> set [?g1, ?g2]. returned g" by (auto simp: returned_def simp del: split_paired_Ex)
  ultimately show ?thesis using res by (simp add: 1 2 Let_def fleet_log_def)
qed

text \<open>A server that records the key and answers the first command with a timeout: the second component counts the commands.\<close>

definition dropping_setnx :: "string \<Rightarrow> duration \<Rightarrow> string list \<times> nat \<Rightarrow> (bool \<times> go_error option) \<times> string list \<times> nat" where
  "dropping_setnx k ttl r = (if snd r = 0 then ((False, Some ''i/o timeout''), k # fst r, 1) else ((k \<notin> set (fst r), None), k # fst r, Suc (snd r)))"

theorem lost_redis_reply_drops_the_point_witness:
  "\<forall>C :: (string list \<times> nat, unit) redis_client.
   let t = point_at ''v'' 1 None None (Some 7); ops = with_redis C dropping_setnx (mem_ops plain_lib sorted_list_of_set (\<lambda>_ _ _ d. (None, d)) (clk_at 5) NewTestPipeline);
       key = ''tide:dedup:'' @ DedupKey plain_lib t
   in Process plain_lib ops (clk_at 5) t (NewTestPipeline :: unit mem_pipeline, [], 0) = (([], False, Some (PlainError ''i/o timeout'')), NewTestPipeline, [key], 1)
      \<and> Process plain_lib ops (clk_at 5) t (NewTestPipeline, [key], 1) = (([], True, None), NewTestPipeline, [key, key], 2)"
proof -
  let ?t = "point_at ''v'' 1 None None (Some 7)" and ?key = "''tide:dedup:'' @ DedupKey plain_lib (point_at ''v'' 1 None None (Some 7))"
  have acc: "accepted (clk_at 5) ?t" by (simp add: accepted_def point_at_valid clk_at_def MaxFutureSkew_def) (simp add: point_at_simps)
  have "Process plain_lib (with_redis C dropping_setnx (mem_ops plain_lib sorted_list_of_set (\<lambda>_ _ _ d. (None, d)) (clk_at 5) NewTestPipeline)) (clk_at 5) ?t
        (NewTestPipeline :: unit mem_pipeline, [], 0) = (([], False, Some (PlainError ''i/o timeout'')), NewTestPipeline, [?key], 1)
      \<and> Process plain_lib (with_redis C dropping_setnx (mem_ops plain_lib sorted_list_of_set (\<lambda>_ _ _ d. (None, d)) (clk_at 5) NewTestPipeline)) (clk_at 5) ?t
        (NewTestPipeline :: unit mem_pipeline, [?key], 1) = (([], True, None), NewTestPipeline, [?key, ?key], 2)" for C :: "(string list \<times> nat, unit) redis_client"
    by (rule lost_redis_reply_drops_the_point [OF acc acc, where ok = False]) (simp_all add: dropping_setnx_def)
  then show ?thesis by (simp only: Let_def) blast
qed

end
