(* ===== verification/Bundle.thy ===== *)
theory Bundle
  imports System Fleet
begin

section \<open>The pipeline of a process (internal/boot)\<close>

text \<open>
  The pipeline that \<open>Build\<close> puts together from what answered at start: dedup and hot state in Redis or in memory, the log
  in memory and, when Postgres is up, in its table too, the bus in memory and, when NATS is up, over the wire first. The
  choices are made once; a service that fails later fails through its own errors. The client libraries are the record
  \<open>clients\<close>.
\<close>

record ('g, 'q, 'r, 'k, 'b, 'n) clients =
  cl_sql :: "('g, 'q) sql_client"
  cl_redis :: "('r, 'k) redis_client"
  cl_setnx :: "string \<Rightarrow> duration \<Rightarrow> 'r \<Rightarrow> (bool \<times> go_error option) \<times> 'r"
  cl_nats :: "('b, 'n) transport"

record ('d, 'g, 'r, 'b, 'n) pipe =
  pp_mem :: "'d mem_pipeline"
  pp_pg :: "'g option"
  pp_onRedis :: bool
  pp_redis :: 'r
  pp_link :: "'b resilient_bus option"
  pp_net :: 'n

definition on_mem :: "('d mem_pipeline \<Rightarrow> 'a \<times> 'd mem_pipeline) \<Rightarrow> ('d, 'g, 'r, 'b, 'n) pipe \<Rightarrow> 'a \<times> ('d, 'g, 'r, 'b, 'n) pipe" where
  "on_mem f p = (let (x, m) = f (pp_mem p) in (x, p\<lparr>pp_mem := m\<rparr>))"

definition on_redis :: "('r \<Rightarrow> 'a \<times> 'r) \<Rightarrow> ('d, 'g, 'r, 'b, 'n) pipe \<Rightarrow> 'a \<times> ('d, 'g, 'r, 'b, 'n) pipe" where
  "on_redis f p = (let (x, r) = f (pp_redis p) in (x, p\<lparr>pp_redis := r\<rparr>))"

subsection \<open>Its operations\<close>

definition pipe_get :: "('g, 'q, 'r, 'k, 'b, 'n) clients \<Rightarrow> string \<Rightarrow> ('d, 'g, 'r, 'b, 'n) pipe \<Rightarrow> (vehicle_state \<times> bool) \<times> go_error option" where
  "pipe_get K v p = (if pp_onRedis p then RedisStore_Get (cl_redis K) v (pp_redis p) else mem_get v (pp_mem p))"

definition pipe_set ::
  "('g, 'q, 'r, 'k, 'b, 'n) clients \<Rightarrow> vehicle_state \<Rightarrow> ('d, 'g, 'r, 'b, 'n) pipe \<Rightarrow> go_error option \<times> ('d, 'g, 'r, 'b, 'n) pipe" where
  "pipe_set K s p = (if pp_onRedis p then on_redis (RedisStore_Set (cl_redis K) s) p else on_mem (mem_set s) p)"

definition pipe_list ::
  "('g, 'q, 'r, 'k, 'b, 'n) clients \<Rightarrow> (string set \<Rightarrow> string list) \<Rightarrow> ('d, 'g, 'r, 'b, 'n) pipe \<Rightarrow> string list \<times> go_error option" where
  "pipe_list K ord p =
     (if pp_onRedis p then RedisStore_ListIDs (cl_redis K) (pp_redis p) else (MemoryStore_ListIDs ord (mp_states (pp_mem p)), None))"

definition pipe_publish ::
  "('g, 'q, 'r, 'k, 'b, 'n) clients \<Rightarrow> time \<Rightarrow> event \<Rightarrow> ('d, 'g, 'r, 'b, 'n) pipe \<Rightarrow> go_error option \<times> ('d, 'g, 'r, 'b, 'n) pipe" where
  "pipe_publish K now e p =
     (case pp_link p of
        None \<Rightarrow> on_mem (mem_publish e) p
      | Some rb \<Rightarrow>
          (let (err, m, rb, n) = fan_publish (cl_nats K) now e (pp_mem p, rb, pp_net p)
           in (err, p\<lparr>pp_mem := m, pp_link := Some rb, pp_net := n\<rparr>)))"

definition pipe_append ::
  "go_lib \<Rightarrow> ('g, 'q, 'r, 'k, 'b, 'n) clients \<Rightarrow> telemetry \<Rightarrow> ('d, 'g, 'r, 'b, 'n) pipe \<Rightarrow> go_error option \<times> ('d, 'g, 'r, 'b, 'n) pipe" where
  "pipe_append L K t p =
     (case pp_pg p of
        None \<Rightarrow> on_mem (\<lambda>m. let (err, l) = MemoryLog_Append t (mp_log m) in (err, m\<lparr>mp_log := l\<rparr>)) p
      | Some g \<Rightarrow>
          (let (err, l) = pgLog_Append (AppendTelemetry L (cl_sql K)) t \<lparr>pl_pg = g, pl_mem = mp_log (pp_mem p)\<rparr>
           in (err, p\<lparr>pp_mem := (pp_mem p)\<lparr>mp_log := pl_mem l\<rparr>, pp_pg := Some (pl_pg l)\<rparr>)))"

definition pipe_ops ::
  "go_lib \<Rightarrow> (string set \<Rightarrow> string list) \<Rightarrow> (string \<Rightarrow> string \<Rightarrow> event \<Rightarrow> 'd \<Rightarrow> go_error option \<times> 'd) \<Rightarrow> ('g, 'q, 'r, 'k, 'b, 'n) clients
    \<Rightarrow> clocks \<Rightarrow> time \<Rightarrow> 'd mem_pipeline \<Rightarrow> (('d, 'g, 'r, 'b, 'n) pipe) pipeline_ops" where
  "pipe_ops L ord disp K clk now p0 =
     (let ops = mem_ops L ord disp clk p0
      in \<lparr>po_Seen = (\<lambda>k p. if pp_onRedis p then on_redis (RedisStore_Seen (cl_setnx K) (24 * Hour) k) p else on_mem (po_Seen ops k) p),
          po_Append = pipe_append L K,
          po_Get = pipe_get K,
          po_Set = pipe_set K,
          po_Detect = (\<lambda>t s p. let (m, evs) = po_Detect ops t s (pp_mem p) in (p\<lparr>pp_mem := m\<rparr>, evs)),
          po_Geo = map_option (\<lambda>f t p. let (m, evs) = f t (pp_mem p) in (p\<lparr>pp_mem := m\<rparr>, evs)) (po_Geo ops),
          po_Rules = map_option (\<lambda>f t s evs p. let (m, out) = f t s evs (pp_mem p) in (p\<lparr>pp_mem := m\<rparr>, out)) (po_Rules ops),
          po_Publish = pipe_publish K now\<rparr>)"

definition pipe_Process ::
  "go_lib \<Rightarrow> (string set \<Rightarrow> string list) \<Rightarrow> (string \<Rightarrow> string \<Rightarrow> event \<Rightarrow> 'd \<Rightarrow> go_error option \<times> 'd) \<Rightarrow> ('g, 'q, 'r, 'k, 'b, 'n) clients
    \<Rightarrow> clocks \<Rightarrow> time \<Rightarrow> telemetry \<Rightarrow> ('d, 'g, 'r, 'b, 'n) pipe \<Rightarrow> process_result \<times> ('d, 'g, 'r, 'b, 'n) pipe" where
  "pipe_Process L ord disp K clk now t p = Process L (pipe_ops L ord disp K clk now (pp_mem p)) clk t p"

text \<open>The pipeline of a new bundle; \<open>d\<close>, \<open>r\<close> and \<open>n\<close> are the states of the dispatcher, of Redis and of the network.\<close>

definition start_pipe :: "('g, 'b) boot_bundle \<Rightarrow> 'd \<Rightarrow> 'r \<Rightarrow> 'n \<Rightarrow> ('d, 'g, 'r, 'b, 'n) pipe" where
  "start_pipe b d r n =
     \<lparr>pp_mem = \<lparr>mp_dedup = NewDedupStore 0, mp_states = NewMemoryStore, mp_log = (case bd_Log b of MemSink l \<Rightarrow> l | PgSink l \<Rightarrow> pl_mem l),
        mp_bus = bd_MemBus b, mp_tracker = bd_Detectors b, mp_geo = Some (bd_Geo b), mp_rules = Some (bd_Rules b, d)\<rparr>,
      pp_pg = bd_PG b, pp_onRedis = bd_Redis b, pp_redis = r, pp_link = bd_NATSBus b, pp_net = n\<rparr>"

subsection \<open>What processing keeps\<close>

text \<open>A property that every operation of a pipeline keeps is kept by \<open>Process\<close>.\<close>

locale process_invariant =
  fixes ops :: "'p pipeline_ops" and inv :: "'p \<Rightarrow> bool"
  assumes seen_inv: "inv p \<Longrightarrow> inv (snd (po_Seen ops k p))"
    and append_inv: "inv p \<Longrightarrow> inv (snd (po_Append ops t p))"
    and set_inv: "inv p \<Longrightarrow> inv (snd (po_Set ops s p))"
    and detect_inv: "inv p \<Longrightarrow> inv (fst (po_Detect ops t s p))"
    and geo_inv: "inv p \<Longrightarrow> po_Geo ops = Some f \<Longrightarrow> inv (fst (f t p))"
    and rules_inv: "inv p \<Longrightarrow> po_Rules ops = Some h \<Longrightarrow> inv (fst (h t s evs p))"
    and publish_inv: "inv p \<Longrightarrow> inv (snd (po_Publish ops e p))"
begin

lemma publish_all_keeps: "inv p \<Longrightarrow> inv (snd (publish_all (po_Publish ops) es p))"
proof (induction es arbitrary: p)
  case (Cons e es)
  obtain err q where q: "po_Publish ops e p = (err, q)" by fastforce
  then have "inv q" using publish_inv [OF Cons.prems, of e] by simp
  with Cons.IH q show ?case by (cases err) simp_all
qed simp

lemma detect_and_publish_keeps:
  assumes "inv p"
  shows "inv (snd (detect_and_publish ops t s p))"
proof -
  define p1 evs1 where "p1 = fst (po_Detect ops t s p)" and "evs1 = snd (po_Detect ops t s p)"
  define x2 where "x2 = (case po_Geo ops of None \<Rightarrow> (p1, evs1) | Some geo \<Rightarrow> (let (p, g) = geo t p1 in (p, evs1 @ g)))"
  define x3 where "x3 = (case po_Rules ops of None \<Rightarrow> x2 | Some rls \<Rightarrow> (let (p, r) = rls t s (snd x2) (fst x2) in (p, snd x2 @ r)))"
  have "inv p1" using detect_inv [OF assms] by (simp add: p1_def)
  then have "inv (fst x2)" using geo_inv [of p1] by (simp add: x2_def case_prod_beta split: option.split)
  then have "inv (fst x3)" using rules_inv [of "fst x2"] by (simp add: x3_def case_prod_beta split: option.split)
  then have keep: "inv (snd (publish_all (po_Publish ops) (snd x3) (fst x3)))" by (rule publish_all_keeps)
  have "detect_and_publish ops t s p = (case publish_all (po_Publish ops) (snd x3) (fst x3) of
      (Some err, p) \<Rightarrow> ((snd x3, False, Some (PublishError (snd x3) err)), p) | (None, p) \<Rightarrow> ((snd x3, False, None), p))"
    by (simp add: detect_and_publish_def p1_def evs1_def x2_def x3_def case_prod_beta Let_def cong: option.case_cong)
  with keep show ?thesis by (auto split: prod.split option.split)
qed

lemma process_keeps:
  assumes "inv p"
  shows "inv (snd (Process L ops clk t p))"
proof -
  obtain dup e1 p1 where s: "po_Seen ops (DedupKey L t) p = ((dup, e1), p1)" by (metis prod.collapse)
  obtain e2 p2 where a: "po_Append ops t p1 = (e2, p2)" by fastforce
  obtain prev fnd e3 where g: "po_Get ops (tel_VehicleID t) p2 = ((prev, fnd), e3)" by (metis prod.collapse)
  obtain nx tr where n: "Apply (ck_apply clk) prev t = (nx, tr)" by fastforce
  obtain e4 p4 where st: "po_Set ops nx p2 = (e4, p4)" by fastforce
  have 1: "inv p1" using seen_inv [OF assms, of "DedupKey L t"] by (simp add: s)
  have 2: "inv p2" using append_inv [OF 1, of t] by (simp add: a)
  have 4: "inv p4" using set_inv [OF 2, of nx] by (simp add: st)
  show ?thesis
    by (cases "telemetry_Validate t"; cases "ck_skew clk + MaxFutureSkew < tel_Timestamp t"; cases e1; cases dup; cases e2; cases e3; cases e4)
      (simp_all add: Process_def s a g n st detect_and_publish_keeps assms 1 2 4)
qed

end

lemma fan_publish_state: "snd (fan_publish T now e (m, l)) = (snd (mem_publish e m), snd (link_publish T now e l))"
  by (simp add: fan_publish_def FanOut_Publish_def case_prod_beta Let_def)

text \<open>Processing changes neither the fences nor which services are in use.\<close>

definition kept :: "geofence list \<Rightarrow> bool \<Rightarrow> bool \<Rightarrow> bool \<Rightarrow> ('d, 'g, 'r, 'b, 'n) pipe \<Rightarrow> bool" where
  "kept fs redis pg link p \<longleftrightarrow> map_option gt_fences (mp_geo (pp_mem p)) = Some fs \<and> pp_onRedis p = redis
     \<and> (pp_pg p = None) = pg \<and> (pp_link p = None) = link"

lemma kept_mem: "kept fs a b c p \<Longrightarrow> map_option gt_fences (mp_geo m) = Some fs \<Longrightarrow> kept fs a b c (p\<lparr>pp_mem := m\<rparr>)"
  by (simp add: kept_def)

lemma pipe_publish_keeps: "kept fs a b c p \<Longrightarrow> kept fs a b c (snd (pipe_publish K now e p))"
  using fan_publish_state [of "cl_nats K" now e "pp_mem p" "(the (pp_link p), pp_net p)"]
  by (auto simp: kept_def pipe_publish_def on_mem_def mem_publish_def case_prod_beta Let_def split: option.split)

lemma pipe_set_keeps: "kept fs a b c p \<Longrightarrow> kept fs a b c (snd (pipe_set K s p))"
  by (simp add: kept_def pipe_set_def on_mem_def on_redis_def mem_set_def case_prod_beta Let_def)

lemma pipe_append_keeps: "kept fs a b c p \<Longrightarrow> kept fs a b c (snd (pipe_append L K t p))"
  by (auto simp: kept_def pipe_append_def on_mem_def case_prod_beta Let_def split: option.split)

interpretation pipe: process_invariant "pipe_ops L ord disp K clk now p0" "kept fs a b c" for L ord disp K clk now p0 fs a b c
proof
  show "kept fs a b c p \<Longrightarrow> kept fs a b c (snd (po_Seen (pipe_ops L ord disp K clk now p0) k p))" for p k
    by (simp add: pipe_ops_def Let_def kept_def on_mem_def on_redis_def mem_ops_def case_prod_beta)
  show "kept fs a b c p \<Longrightarrow> kept fs a b c (snd (po_Append (pipe_ops L ord disp K clk now p0) t p))" for p t
    by (simp add: pipe_ops_def Let_def pipe_append_keeps)
  show "kept fs a b c p \<Longrightarrow> kept fs a b c (snd (po_Set (pipe_ops L ord disp K clk now p0) s p))" for p s
    by (simp add: pipe_ops_def Let_def pipe_set_keeps)
  show "kept fs a b c p \<Longrightarrow> kept fs a b c (fst (po_Detect (pipe_ops L ord disp K clk now p0) t s p))" for p t s
    by (simp add: pipe_ops_def Let_def kept_def mem_ops_def case_prod_beta)
  show "kept fs a b c p \<Longrightarrow> po_Geo (pipe_ops L ord disp K clk now p0) = Some f \<Longrightarrow> kept fs a b c (fst (f t p))" for p f t
    by (auto simp: pipe_ops_def Let_def kept_def mem_ops_def case_prod_beta split: if_splits)
  show "kept fs a b c p \<Longrightarrow> po_Rules (pipe_ops L ord disp K clk now p0) = Some h \<Longrightarrow> kept fs a b c (fst (h t s evs p))" for p h t s evs
    by (auto simp: pipe_ops_def Let_def kept_def mem_ops_def case_prod_beta split: if_splits)
  show "kept fs a b c p \<Longrightarrow> kept fs a b c (snd (po_Publish (pipe_ops L ord disp K clk now p0) e p))" for p e
    by (simp add: pipe_ops_def Let_def pipe_publish_keeps)
qed

lemma pipe_Process_keeps: "kept fs a b c p \<Longrightarrow> kept fs a b c (snd (pipe_Process L ord disp K clk now t p))"
  unfolding pipe_Process_def by (rule pipe.process_keeps)

text \<open>Without Redis and NATS, with Postgres or not and whatever its errors, the pipeline is the in-memory one.\<close>

interpretation inmem: process_refinement "pipe_ops L ord disp K clk now p0" "mem_ops L ord disp clk p0" pp_mem
  "\<lambda>p. \<not> pp_onRedis p \<and> pp_link p = None" "\<lambda>_. True" for L ord disp K clk now p0
  by unfold_locales
    (auto simp: pipe_ops_def pipe_append_def pipe_get_def pipe_set_def pipe_publish_def on_mem_def mem_ops_def MemoryLog_Append_def pgLog_Append_def
      mem_get_def mem_set_def mem_publish_def case_prod_beta Let_def split: if_splits option.split)

lemma pipe_Process_local:
  assumes "\<not> pp_onRedis p" "pp_link p = None"
  shows "mem_Process L ord disp clk t (pp_mem p) = apsnd pp_mem (pipe_Process L ord disp K clk now t p)"
  unfolding pipe_Process_def mem_Process_def by (rule inmem.process_refines [THEN conjunct1]) (use assms in simp_all)

end
