(* ===== verification/Replay.thy ===== *)
theory Replay
  imports Pipeline
begin

section \<open>Replay (internal/replay)\<close>

text \<open>
  \<open>Run\<close> sorts the points by event time and id and feeds them to \<open>Process\<close> of a fresh pipeline. \<open>sort.Slice\<close> is
  not stable and its algorithm is not fixed: it is an argument \<open>srt\<close>, and \<open>sorts srt\<close> states what it promises.
  \<open>proc clk t p\<close> is \<open>Process\<close> of the pipeline with the clock readings of one call; \<open>clks i\<close> are the readings of the
  i-th call.
\<close>

record replay_result =
  rr_Events :: "event list"
  rr_Points :: nat

fun replay_loop :: "(clocks \<Rightarrow> telemetry \<Rightarrow> 'p \<Rightarrow> process_result \<times> 'p) \<Rightarrow> (nat \<Rightarrow> clocks) \<Rightarrow> nat \<Rightarrow> telemetry list
    \<Rightarrow> 'p \<Rightarrow> event list \<Rightarrow> go_error + event list" where
  "replay_loop proc clks i [] p out = Inr out"
| "replay_loop proc clks i (pt # pts) p out =
     (case proc (clks i) pt p of
        ((evs, dup, Some err), p') \<Rightarrow> Inl (''replay: process '' @ tel_ID pt @ '': '' @ process_error_string err)
      | ((evs, dup, None), p') \<Rightarrow> replay_loop proc clks (Suc i) pts p' (out @ evs))"

definition Run :: "(telemetry list \<Rightarrow> telemetry list) \<Rightarrow> (clocks \<Rightarrow> telemetry \<Rightarrow> 'p \<Rightarrow> process_result \<times> 'p) \<Rightarrow> (nat \<Rightarrow> clocks)
    \<Rightarrow> telemetry list \<Rightarrow> 'p \<Rightarrow> go_error + replay_result" where
  "Run srt proc clks points p0 =
     (let ordered = srt points
      in case replay_loop proc clks 0 ordered p0 [] of
           Inl err \<Rightarrow> Inl err
         | Inr out \<Rightarrow> Inr \<lparr>rr_Events = out, rr_Points = length ordered\<rparr>)"

definition eventTypes :: "event list \<Rightarrow> string list" where
  "eventTypes evs = map ev_Type evs"

text \<open>\<open>Compare\<close> runs the same window under two builds \<open>a\<close> and \<open>b\<close>, each a pipeline with its \<open>Process\<close>.\<close>

definition Compare ::
  "(telemetry list \<Rightarrow> telemetry list) \<Rightarrow> telemetry list \<Rightarrow> (clocks \<Rightarrow> telemetry \<Rightarrow> 'p \<Rightarrow> process_result \<times> 'p) \<Rightarrow> (nat \<Rightarrow> clocks) \<Rightarrow> 'p
    \<Rightarrow> (clocks \<Rightarrow> telemetry \<Rightarrow> 'q \<Rightarrow> process_result \<times> 'q) \<Rightarrow> (nat \<Rightarrow> clocks) \<Rightarrow> 'q \<Rightarrow> go_error + string list \<times> string list" where
  "Compare srt points procA clksA a procB clksB b =
     (case Run srt procA clksA points a of
        Inl err \<Rightarrow> Inl err
      | Inr ra \<Rightarrow>
          (case Run srt procB clksB points b of
             Inl err \<Rightarrow> Inl err
           | Inr rb \<Rightarrow> Inr (eventTypes (rr_Events ra), eventTypes (rr_Events rb))))"

subsection \<open>The order of a replay\<close>

definition replay_le :: "telemetry \<Rightarrow> telemetry \<Rightarrow> bool" where
  "replay_le a b \<longleftrightarrow> tel_Timestamp a < tel_Timestamp b \<or> tel_Timestamp a = tel_Timestamp b \<and> tel_ID a \<le> tel_ID b"

text \<open>What sorting by event time, then id, promises.\<close>

definition sorts :: "(telemetry list \<Rightarrow> telemetry list) \<Rightarrow> bool" where
  "sorts srt \<longleftrightarrow> (\<forall>xs. mset (srt xs) = mset xs \<and> sorted_wrt replay_le (srt xs))"

lemma sorted_unique:
  assumes "sorted_wrt replay_le xs" "sorted_wrt replay_le ys" "mset xs = mset ys"
    and "inj_on (\<lambda>t. (tel_Timestamp t, tel_ID t)) (set xs)"
  shows "xs = ys"
  using assms
proof (induction xs arbitrary: ys)
  case Nil
  then show ?case by simp
next
  case (Cons x xs)
  obtain y ys' where ys: "ys = y # ys'" using Cons.prems(3) by (cases ys) auto
  have sets: "set (x # xs) = set ys" using Cons.prems(3) by (metis set_mset_mset)
  have "replay_le x y" if "x \<noteq> y" using Cons.prems(1) sets ys that by auto
  moreover have "replay_le y x" if "x \<noteq> y" using Cons.prems(2) sets ys that by auto
  ultimately have "(tel_Timestamp x, tel_ID x) = (tel_Timestamp y, tel_ID y)" by (cases "x = y") (auto simp: replay_le_def)
  then have "x = y" using Cons.prems(4) sets ys by (auto dest!: inj_onD)
  moreover have "xs = ys'"
    using Cons.prems ys \<open>x = y\<close> by (intro Cons.IH) (auto simp: inj_on_insert intro: inj_on_subset)
  ultimately show ?case using ys by simp
qed

lemma sorts_deterministic:
  assumes "sorts srt" "sorts srt'" "mset xs = mset ys" "inj_on (\<lambda>t. (tel_Timestamp t, tel_ID t)) (set xs)"
  shows "srt xs = srt' ys"
proof (rule sorted_unique)
  show "mset (srt xs) = mset (srt' ys)" using assms(1-3) by (simp add: sorts_def)
  have "set (srt xs) = set xs" using assms(1) by (metis set_mset_mset sorts_def)
  then show "inj_on (\<lambda>t. (tel_Timestamp t, tel_ID t)) (set (srt xs))" using assms(4) by simp
qed (use assms(1,2) in \<open>auto simp: sorts_def\<close>)

subsection \<open>Independence of the clock\<close>

lemma Detect_UpdatedAt: "Detect L t (s\<lparr>vs_UpdatedAt := u\<rparr>) tr = Detect L t s tr"
  by (simp add: Detect_def idleDetect_def tripDetect_def idle_step_def trip_step_def)

text \<open>
  Two pipelines without rules that differ only in the times the clock wrote: the times of the dedup store and
  the field \<open>UpdatedAt\<close> of the states.
\<close>

definition same_but_clock :: "'d mem_pipeline \<Rightarrow> 'd mem_pipeline \<Rightarrow> bool" where
  "same_but_clock p q \<longleftrightarrow> mp_log p = mp_log q \<and> mp_bus p = mp_bus q \<and> mp_tracker p = mp_tracker q \<and> mp_geo p = mp_geo q
     \<and> mp_rules p = None \<and> mp_rules q = None \<and> dom (dm_seen (mp_dedup p)) = dom (dm_seen (mp_dedup q))
     \<and> (\<forall>v. map_option (\<lambda>s. s\<lparr>vs_UpdatedAt := 0\<rparr>) (mp_states p v) = map_option (\<lambda>s. s\<lparr>vs_UpdatedAt := 0\<rparr>) (mp_states q v))"

lemma state_of_same:
  "same_but_clock p q \<Longrightarrow> (state_of p v)\<lparr>vs_UpdatedAt := 0\<rparr> = (state_of q v)\<lparr>vs_UpdatedAt := 0\<rparr>"
  by (auto simp: same_but_clock_def state_of_def split: option.split dest: spec [of _ v])

lemma Apply_same:
  assumes "s\<lparr>vs_UpdatedAt := 0\<rparr> = s'\<lparr>vs_UpdatedAt := 0\<rparr>"
  shows "fst (Apply n s t) = (fst (Apply n' s' t))\<lparr>vs_UpdatedAt := n\<rparr>"
  by (metis Apply_now Apply_prev_UpdatedAt assms)

lemma publish_events_same:
  assumes "same_but_clock p q" "s = s'\<lparr>vs_UpdatedAt := n\<rparr>"
  shows "point_events L ord disp clk t s (ingested L c t p) = point_events L ord disp clk' t s' (ingested L c' t q)"
  using assms by (simp add: point_events_def geo_part_def rules_part_def same_but_clock_def Detect_UpdatedAt Let_def)

lemma fresh_step_same:
  assumes "same_but_clock p q" "accepted clk t" "accepted clk' t" "\<not> duplicate L clk t p" "\<not> duplicate L clk' t q"
  shows "fst (mem_Process L ord disp clk t p) = fst (mem_Process L ord disp clk' t q)
    \<and> same_but_clock (snd (mem_Process L ord disp clk t p)) (snd (mem_Process L ord disp clk' t q))"
proof -
  let ?s = "fst (Apply (ck_apply clk) (state_of p (tel_VehicleID t)) t)"
  let ?s' = "fst (Apply (ck_apply clk') (state_of q (tel_VehicleID t)) t)"
  have s: "?s = ?s'\<lparr>vs_UpdatedAt := ck_apply clk\<rparr>" by (rule Apply_same [OF state_of_same [OF assms(1)]])
  note evs = publish_events_same [OF assms(1) s, of L ord disp clk t clk clk' clk']
  show ?thesis
    using assms(1) s
    unfolding mem_Process_fresh_result [OF assms(2,4) refl refl] mem_Process_fresh_result [OF assms(3,5) refl refl] evs
    by (auto simp: same_but_clock_def detected_def ingested_def geo_part_def rules_part_def Detect_UpdatedAt)
qed

text \<open>Each point of a replay with the clock readings of its call.\<close>

fun readings :: "(nat \<Rightarrow> clocks) \<Rightarrow> nat \<Rightarrow> telemetry list \<Rightarrow> (clocks \<times> telemetry) list" where
  "readings clks i [] = []"
| "readings clks i (t # ts) = (clks i, t) # readings clks (Suc i) ts"

lemma replay_loop_same:
  assumes "same_but_clock p q" "in_window p (readings clks i pts)" "in_window q (readings clks' i pts)"
    and "\<forall>ct \<in> set (readings clks i pts) \<union> set (readings clks' i pts). accepted (fst ct) (snd ct)"
  shows "replay_loop (mem_Process L ord disp) clks i pts p out = replay_loop (mem_Process L ord disp) clks' i pts q out"
  using assms
proof (induction pts arbitrary: i p q out)
  case (Cons t pts)
  let ?P = "mem_Process L ord disp (clks i) t p" and ?Q = "mem_Process L ord disp (clks' i) t q"
  have acc: "accepted (clks i) t" "accepted (clks' i) t" using Cons.prems(4) by auto
  have dup: "duplicate L (clks i) t p = duplicate L (clks' i) t q"
    using duplicate_iff [of p "(clks i, t)" _ L] duplicate_iff [of q "(clks' i, t)" _ L] Cons.prems(1-3)
    by (simp add: same_but_clock_def)
  have step: "fst ?P = fst ?Q \<and> same_but_clock (snd ?P) (snd ?Q)
      \<and> in_window (snd ?P) (readings clks (Suc i) pts) \<and> in_window (snd ?Q) (readings clks' (Suc i) pts)"
  proof (cases "duplicate L (clks i) t p")
    case True
    then show ?thesis
      using mem_Process_duplicate [OF acc(1), of L p ord disp] mem_Process_duplicate [OF acc(2), of L q ord disp] dup Cons.prems(1-3)
        in_window_skip [of p] in_window_skip [of q] by simp
  next
    case False
    have "mp_dedup (snd ?P) = mp_dedup (ingested L (fst (clks i, t)) (snd (clks i, t)) p)"
      "mp_dedup (snd ?Q) = mp_dedup (ingested L (fst (clks' i, t)) (snd (clks' i, t)) q)"
      using mem_Process_fresh_result [OF acc(1) False refl refl, of ord disp]
        mem_Process_fresh_result [OF acc(2) False [unfolded dup] refl refl, of ord disp] by simp_all
    then show ?thesis
      using fresh_step_same [OF Cons.prems(1) acc False False [unfolded dup], of ord disp] in_window_fresh Cons.prems(2,3)
      by (metis readings.simps(2))
  qed
  obtain evs d err p' where P: "?P = ((evs, d, err), p')" by (metis surj_pair)
  then obtain q' where Q: "?Q = ((evs, d, err), q')" using step by (metis fst_conv surj_pair)
  have "replay_loop (mem_Process L ord disp) clks (Suc i) pts p' (out @ evs)
      = replay_loop (mem_Process L ord disp) clks' (Suc i) pts q' (out @ evs)"
    using step P Q Cons.prems(4) by (intro Cons.IH) auto
  then show ?case using P Q by (simp split: option.split)
qed simp

lemma Run_deterministic:
  assumes "sorts srt" "sorts srt'" "mset pts = mset pts'" "inj_on (\<lambda>t. (tel_Timestamp t, tel_ID t)) (set pts)"
    and "\<forall>a \<in> set (readings clks 0 (srt pts)). \<forall>b \<in> set (readings clks 0 (srt pts)). ck_seen (fst b) - ck_seen (fst a) < 24 * Hour"
    and "\<forall>a \<in> set (readings clks' 0 (srt pts)). \<forall>b \<in> set (readings clks' 0 (srt pts)). ck_seen (fst b) - ck_seen (fst a) < 24 * Hour"
    and "\<forall>ct \<in> set (readings clks 0 (srt pts)) \<union> set (readings clks' 0 (srt pts)). accepted (fst ct) (snd ct)"
  shows "Run srt (mem_Process L ord disp) clks pts (NewTestPipeline\<lparr>mp_geo := g\<rparr>)
    = Run srt' (mem_Process L ord disp) clks' pts' (NewTestPipeline\<lparr>mp_geo := g\<rparr>)"
proof -
  let ?p = "NewTestPipeline\<lparr>mp_geo := g\<rparr> :: 'a mem_pipeline"
  have same: "same_but_clock ?p ?p" by (simp add: same_but_clock_def NewTestPipeline_def)
  have win: "in_window ?p (readings clks 0 (srt pts))" "in_window ?p (readings clks' 0 (srt pts))"
    using NewTestPipeline_window [OF assms(5)] NewTestPipeline_window [OF assms(6)] by (simp_all add: in_window_def)
  show ?thesis
    using replay_loop_same [OF same win assms(7), of L ord disp "[]"] sorts_deterministic [OF assms(1-4)]
    by (simp add: Run_def)
qed

subsection \<open>Properties\<close>


fun replay_insert :: "telemetry \<Rightarrow> telemetry list \<Rightarrow> telemetry list" where
  "replay_insert x [] = [x]"
| "replay_insert x (y # ys) = (if replay_le x y then x # y # ys else y # replay_insert x ys)"

definition replay_sort :: "telemetry list \<Rightarrow> telemetry list" where
  "replay_sort xs = foldr replay_insert xs []"

lemma mset_replay_insert: "mset (replay_insert x xs) = add_mset x (mset xs)"
  by (induction xs) auto

lemma sorted_replay_insert: "sorted_wrt replay_le xs \<Longrightarrow> sorted_wrt replay_le (replay_insert x xs)"
proof (induction xs)
  case (Cons y ys)
  have set: "set (replay_insert x ys) = insert x (set ys)"
    using mset_replay_insert [of x ys] by (metis set_mset_mset set_mset_add_mset_insert)
  have "replay_le y x" if "\<not> replay_le x y" using that by (auto simp: replay_le_def)
  moreover have "replay_le x z" if "replay_le x y" "replay_le y z" for z using that by (auto simp: replay_le_def)
  ultimately show ?case using Cons set by auto
qed simp

lemma sorts_replay_sort: "sorts replay_sort"
proof -
  have "mset (foldr replay_insert xs []) = mset xs \<and> sorted_wrt replay_le (foldr replay_insert xs [])" for xs
    by (induction xs) (simp_all add: mset_replay_insert sorted_replay_insert)
  then show ?thesis by (simp add: sorts_def replay_sort_def)
qed


end
