(* ===== verification/Cli.thy ===== *)
theory Cli
  imports Replay Stores
begin

section \<open>The command line (cmd/tide) and its health checks (internal/health)\<close>

text \<open>
  The three subcommands of \<open>tide\<close>: \<open>doctor\<close> on top of the checks of package health and of the migrator, \<open>simulate\<close> with
  its batched upload, \<open>replay\<close> with its self-check. Parsed flags, files, clients and clocks are arguments. A run that
  ends in \<open>os.Exit\<close> is its exit code, with what it printed where that matters.
\<close>

subsection \<open>Health checks\<close>

record check_status =
  ct_Name :: string
  ct_OK :: bool
  ct_Detail :: string

text \<open>The outcomes of opening and pinging; a field maps an address to an error, if there is one.\<close>

record probes =
  pb_sqlOpen :: "string \<Rightarrow> go_error option"
  pb_sqlPing :: "string \<Rightarrow> go_error option"
  pb_redisPing :: "string \<Rightarrow> go_error option"
  pb_natsConnect :: "string \<Rightarrow> go_error option"
  pb_dial :: "string \<Rightarrow> go_error option"

definition CheckPostgres :: "probes \<Rightarrow> string \<Rightarrow> check_status" where
  "CheckPostgres P dsn =
     (case pb_sqlOpen P dsn of
        Some err \<Rightarrow> \<lparr>ct_Name = ''postgres'', ct_OK = False, ct_Detail = err\<rparr>
      | None \<Rightarrow>
          (case pb_sqlPing P dsn of
             Some err \<Rightarrow> \<lparr>ct_Name = ''postgres'', ct_OK = False, ct_Detail = err\<rparr>
           | None \<Rightarrow> \<lparr>ct_Name = ''postgres'', ct_OK = True, ct_Detail = ''reachable''\<rparr>))"

definition CheckRedis :: "probes \<Rightarrow> string \<Rightarrow> check_status" where
  "CheckRedis P addr =
     (case pb_redisPing P addr of
        Some err \<Rightarrow> \<lparr>ct_Name = ''redis'', ct_OK = False, ct_Detail = err\<rparr>
      | None \<Rightarrow> \<lparr>ct_Name = ''redis'', ct_OK = True, ct_Detail = ''reachable''\<rparr>)"

fun strip_scheme :: "string list \<Rightarrow> string \<Rightarrow> string" where
  "strip_scheme [] rest = rest"
| "strip_scheme (p # ps) rest =
     (if length rest > length p \<and> take (length p) rest = p then drop (length p) rest else strip_scheme ps rest)"

fun upto_slash :: "string \<Rightarrow> string \<Rightarrow> nat \<Rightarrow> string" where
  "upto_slash rest [] j = rest"
| "upto_slash rest (c # cs) j = (if c = CHR ''/'' then take j rest else upto_slash rest cs (Suc j))"

definition natsURLToHostPort :: "string \<Rightarrow> string" where
  "natsURLToHostPort url =
     (let rest = strip_scheme [''nats://'', ''tls://''] url
      in if length rest > 0 then upto_slash rest rest 0 else rest)"

definition CheckNATS :: "probes \<Rightarrow> string \<Rightarrow> check_status" where
  "CheckNATS P url =
     (case pb_natsConnect P url of
        Some err \<Rightarrow>
          (case pb_dial P (natsURLToHostPort url) of
             Some _ \<Rightarrow> \<lparr>ct_Name = ''nats'', ct_OK = False, ct_Detail = ''unreachable: '' @ err\<rparr>
           | None \<Rightarrow> \<lparr>ct_Name = ''nats'', ct_OK = False, ct_Detail = err\<rparr>)
      | None \<Rightarrow> \<lparr>ct_Name = ''nats'', ct_OK = True, ct_Detail = ''reachable''\<rparr>)"

subsection \<open>doctor\<close>

record 'd doctor_env =
  de_getenv :: "string \<Rightarrow> string"
  de_readFile :: "string \<Rightarrow> go_error + string"
  de_yaml :: "string \<Rightarrow> config \<Rightarrow> go_error + config"
  de_config :: "string option"
  de_otel :: "go_error option"
  de_probes :: probes
  de_db :: "'d sql_db"
  de_fs :: migration_fs

definition status_line :: "check_status \<Rightarrow> string" where
  "status_line s = ct_Name s @ replicate (10 - length (ct_Name s)) (CHR '' '') @ '' '' @ (if ct_OK s then ''ok'' else ''FAIL'')
     @ '' ('' @ ct_Detail s @ '')''"

definition err_text :: "go_error + 'a \<Rightarrow> string" where
  "err_text r = (case r of Inl err \<Rightarrow> err | Inr _ \<Rightarrow> ''<nil>'')"

text \<open>\<open>de_config\<close> is the flag \<open>--config\<close>, whose default is an environment variable.\<close>

definition loadCfg :: "'d doctor_env \<Rightarrow> go_error + config" where
  "loadCfg E = config_Load (de_getenv E) (de_readFile E) (de_yaml E) (case de_config E of None \<Rightarrow> de_getenv E ''TIDE_CONFIG'' | Some path \<Rightarrow> path)"

text \<open>The exit code, the printed lines and the database; \<open>loadCfg\<close> comes first.\<close>

definition doctor :: "'d doctor_env \<Rightarrow> 'd \<Rightarrow> (nat \<times> string list) \<times> 'd" where
  "doctor E d =
     (case loadCfg E of
        Inl err \<Rightarrow> ((1, [''tide: '' @ err]), d)
      | Inr cfg \<Rightarrow>
      (case de_otel E of
         Some err \<Rightarrow> ((1, [''otel: '' @ err]), d)
       | None \<Rightarrow>
       (let pg = CheckPostgres (de_probes E) (cf_PostgresDSN cfg);
            rd = CheckRedis (de_probes E) (cf_RedisAddr cfg);
            nc = CheckNATS (de_probes E) (cf_NATSURL cfg);
            (ver, d) = migrator_Version (de_db E) d;
            (pending, d) = Pending (de_db E) (de_fs E) d;
            failed = (\<exists>s \<in> set [pg, rd, nc]. \<not> ct_OK s);
            out = map status_line [pg, rd, nc];
            (out, failed) =
              (case (ver, pending) of
                 (Inr v, Inr ps) \<Rightarrow>
                   (out @ (''schema     version='' @ show_int v @ '' pending='' @ show_nat (length ps)) # map (\<lambda>p. ''  pending: '' @ p) ps, failed)
               | _ \<Rightarrow> (out @ [''schema     FAIL (version query: '' @ err_text ver @ '' pending query: '' @ err_text pending @ '')''], True))
        in ((if failed then 1 else 0, out), d))))"

subsection \<open>simulate\<close>

text \<open>
  \<open>post\<close> uploads one batch: an error of the client or the status code. \<open>tick\<close> waits for the throttle once.
  \<open>time.NewTicker\<close> panics on an interval that is not positive, which is the result \<open>None\<close>.
\<close>

function post_loop ::
  "(telemetry list \<Rightarrow> 'w \<Rightarrow> (go_error + int) \<times> 'w) \<Rightarrow> ('w \<Rightarrow> 'w) option \<Rightarrow> string \<Rightarrow> telemetry list \<Rightarrow> nat \<Rightarrow> 'w
    \<Rightarrow> (nat \<times> go_error option) \<times> 'w" where
  "post_loop post throttle api pts sent w =
     (if pts = [] then ((sent, None), w)
      else
        let batch = take 100 pts
        in case post batch w of
             (Inl err, w) \<Rightarrow> ((sent, Some (''post batch: '' @ err @ '' (is tide-api running at '' @ api @ ''?)'')), w)
           | (Inr status, w) \<Rightarrow>
               if status \<noteq> 202 then ((sent, Some (''post batch: api returned '' @ show_int status)), w)
               else post_loop post throttle api (drop 100 pts) (sent + length batch)
                      (case throttle of None \<Rightarrow> w | Some tick \<Rightarrow> (tick ^^ length batch) w))"
  by pat_completeness auto

termination
  by (relation "measure (\<lambda>(post, throttle, api, pts, sent, w). length pts)") auto

declare post_loop.simps [simp del]

definition postBatches ::
  "(telemetry list \<Rightarrow> 'w \<Rightarrow> (go_error + int) \<times> 'w) \<Rightarrow> ('w \<Rightarrow> 'w) \<Rightarrow> string \<Rightarrow> telemetry list \<Rightarrow> int \<Rightarrow> 'w
    \<Rightarrow> ((nat \<times> go_error option) \<times> 'w) option" where
  "postBatches post tick api pts rate w =
     (if rate > 0
      then (if quot Second rate \<le> 0 then None else Some (post_loop post (Some tick) api pts 0 w))
      else Some (post_loop post None api pts 0 w))"

text \<open>The whole subcommand, from parsed flags to the exit code; the scenario directory has two defaults.\<close>

record sim_flags =
  sm_vehicles :: int
  sm_scenario :: string
  sm_rate :: int
  sm_seed :: int
  sm_api :: string
  sm_faults :: fault_config
  sm_scenarios :: "string option"

record 'r simulate_env =
  si_getenv :: "string \<Rightarrow> string"
  si_readFile :: "string \<Rightarrow> go_error + string"
  si_scenario :: "string \<Rightarrow> go_error + scenario"
  si_join :: "string \<Rightarrow> string \<Rightarrow> string"
  si_duration :: "string \<Rightarrow> duration option"
  si_rng :: "'r rng"
  si_now :: time
  si_otel :: "go_error option"

definition simulate_points :: "go_lib \<Rightarrow> 'r simulate_env \<Rightarrow> sim_flags \<Rightarrow> scenario \<Rightarrow> telemetry list" where
  "simulate_points L E f scen =
     faults_Apply (si_rng E) (si_duration E) (Generate L (si_rng E) scen (sm_vehicles f) (sm_seed f) ''default'' (si_now E)) (sm_faults f) (sm_seed f)"

definition runSimulate ::
  "go_lib \<Rightarrow> 'r simulate_env \<Rightarrow> sim_flags \<Rightarrow> (telemetry list \<Rightarrow> 'w \<Rightarrow> (go_error + int) \<times> 'w) \<Rightarrow> ('w \<Rightarrow> 'w) \<Rightarrow> 'w
    \<Rightarrow> ((nat \<times> string) \<times> 'w) option" where
  "runSimulate L E f post tick w =
     (let dir = (case sm_scenarios f of None \<Rightarrow> si_getenv E ''TIDE_SCENARIOS'' | Some dir \<Rightarrow> dir);
          dir = (if dir = [] then ''simulator/scenarios'' else dir)
      in case si_readFile E (si_join E dir (sm_scenario f @ ''.yaml'')) of
           Inl err \<Rightarrow> Some ((1, ''simulate: unknown scenario '' @ quoted (sm_scenario f) @ '' in '' @ dir), w)
         | Inr raw \<Rightarrow>
         (case LoadScenario (si_scenario E) raw of
            Inl err \<Rightarrow> Some ((1, ''simulate: '' @ err), w)
          | Inr scen \<Rightarrow>
          (case si_otel E of
             Some err \<Rightarrow> Some ((1, ''otel: '' @ err), w)
           | None \<Rightarrow>
           (let pts = simulate_points L E f scen
            in case postBatches post tick (sm_api f) pts (sm_rate f) w of
                 None \<Rightarrow> None
               | Some ((sent, Some err), w) \<Rightarrow> Some ((1, ''simulate: '' @ err), w)
               | Some ((sent, None), w) \<Rightarrow>
                   Some ((0, ''simulate: scenario='' @ sm_scenario f @ '' vehicles='' @ show_int (sm_vehicles f) @ '' points='' @ show_nat (length pts)
                      @ '' sent='' @ show_nat sent @ '' '' @ [CHR 0xE2, CHR 0x86, CHR 0x92] @ '' '' @ sm_api f), w)))))"

text \<open>The names of the embedded scenarios.\<close>

definition scenario_Names :: "go_error + string list \<Rightarrow> string list" where
  "scenario_Names entries = (case entries of Inl _ \<Rightarrow> [] | Inr es \<Rightarrow> sort (map (\<lambda>e. trim_suffix e ''.yaml'') es))"

subsection \<open>replay\<close>

record 'r replay_env =
  re_readFile :: "string \<Rightarrow> go_error + string"
  re_points :: "string \<Rightarrow> go_error + telemetry list"
  re_scenario :: "string \<Rightarrow> go_error + scenario"
  re_rule :: "string \<Rightarrow> go_error + spec"
  re_join :: "string \<Rightarrow> string \<Rightarrow> string"
  re_duration :: "string \<Rightarrow> duration option"
  re_rng :: "'r rng"
  re_now :: time

record replay_flags =
  rf_scenario :: string
  rf_vehicles :: int
  rf_seed :: int
  rf_rule :: string
  rf_compare :: string
  rf_input :: string
  rf_scenarios :: string

definition no_faults :: fault_config where
  "no_faults = \<lparr>fc_DuplicateRate = Fin 0, fc_LateRate = Fin 0, fc_LateBy = [], fc_MissingRate = Fin 0, fc_OutOfOrderRate = Fin 0,
     fc_GPSDriftM = Fin 0, fc_OfflineVehicles = Fin 0\<rparr>"

definition replay_points :: "go_lib \<Rightarrow> 'r replay_env \<Rightarrow> replay_flags \<Rightarrow> go_error + telemetry list" where
  "replay_points L E f =
     (if rf_input f \<noteq> [] then
        (case re_readFile E (rf_input f) of
           Inl err \<Rightarrow> Inl (''replay: '' @ err)
         | Inr raw \<Rightarrow> (case re_points E raw of Inl err \<Rightarrow> Inl (''replay: bad input: '' @ err) | Inr pts \<Rightarrow> Inr pts))
      else
        (case re_readFile E (re_join E (rf_scenarios f) (rf_scenario f @ ''.yaml'')) of
           Inl err \<Rightarrow> Inl (''replay: unknown scenario '' @ quoted (rf_scenario f))
         | Inr raw \<Rightarrow>
         (case LoadScenario (re_scenario E) raw of
            Inl err \<Rightarrow> Inl (''replay: '' @ err)
          | Inr scen \<Rightarrow>
              Inr (faults_Apply (re_rng E) (re_duration E)
                (Generate L (re_rng E) scen (rf_vehicles f) (rf_seed f) ''replay'' (re_now E)) no_faults (rf_seed f)))))"

text \<open>The pipeline \<open>build\<close> makes for a rule file: the test pipeline, with an engine that has no dispatcher.\<close>

definition replay_build :: "'r replay_env \<Rightarrow> time \<Rightarrow> string \<Rightarrow> 'd \<Rightarrow> go_error + 'd mem_pipeline" where
  "replay_build E now rulePath d =
     (if rulePath = [] then Inr NewTestPipeline
      else case re_readFile E rulePath of
        Inl err \<Rightarrow> Inl (''replay: rule: '' @ err)
      | Inr raw \<Rightarrow>
      (case ParseSpec (re_rule E) raw of
         Inl err \<Rightarrow> Inl (''replay: rule: '' @ err)
       | Inr sp \<Rightarrow>
       (case Engine_Publish sp now (NewEngine False) of
          (Some err, eng) \<Rightarrow> Inl (''replay: rule: '' @ err)
        | (None, eng) \<Rightarrow> Inr (NewTestPipeline\<lparr>mp_rules := Some (eng, d)\<rparr>))))"

datatype replay_out = Fatal go_error | Compared "string list" "string list" | Replayed replay_result bool

definition exit_code :: "replay_out \<Rightarrow> nat" where
  "exit_code r = (case r of Fatal _ \<Rightarrow> 1 | Compared _ _ \<Rightarrow> 0 | Replayed _ deterministic \<Rightarrow> if deterministic then 0 else 1)"

definition same_ids :: "event list \<Rightarrow> event list \<Rightarrow> bool" where
  "same_ids a b \<longleftrightarrow> length a = length b \<and> list_all2 (\<lambda>x y. ev_ID x = ev_ID y) a b"

text \<open>
  \<open>runReplay\<close>: the two replays have their own clock readings \<open>clks\<close> and \<open>clks'\<close> and build their pipelines at \<open>now1\<close>
  and \<open>now2\<close>. With a second rule they are the two runs of \<open>Compare\<close>, written out because a build may end the process.
\<close>

definition runReplay ::
  "go_lib \<Rightarrow> (string set \<Rightarrow> string list) \<Rightarrow> (string \<Rightarrow> string \<Rightarrow> event \<Rightarrow> 'd \<Rightarrow> go_error option \<times> 'd) \<Rightarrow> (telemetry list \<Rightarrow> telemetry list)
    \<Rightarrow> 'r replay_env \<Rightarrow> replay_flags \<Rightarrow> (nat \<Rightarrow> clocks) \<Rightarrow> (nat \<Rightarrow> clocks) \<Rightarrow> time \<Rightarrow> time \<Rightarrow> 'd \<Rightarrow> replay_out" where
  "runReplay L ord disp srt E f clks clks' now1 now2 d =
     (case replay_points L E f of
        Inl err \<Rightarrow> Fatal err
      | Inr pts \<Rightarrow>
      (let second = (if rf_compare f \<noteq> [] then rf_compare f else rf_rule f)
       in case replay_build E now1 (rf_rule f) d of
            Inl err \<Rightarrow> Fatal err
          | Inr p \<Rightarrow>
          (case Run srt (mem_Process L ord disp) clks pts p of
             Inl err \<Rightarrow> Fatal (''replay: '' @ err)
           | Inr res \<Rightarrow>
           (case replay_build E now2 second d of
              Inl err \<Rightarrow> Fatal err
            | Inr q \<Rightarrow>
            (case Run srt (mem_Process L ord disp) clks' pts q of
               Inl err \<Rightarrow> Fatal (''replay: '' @ err)
             | Inr res2 \<Rightarrow>
                 if rf_compare f \<noteq> [] then Compared (eventTypes (rr_Events res)) (eventTypes (rr_Events res2))
                 else Replayed res (same_ids (rr_Events res) (rr_Events res2)))))))"

subsection \<open>Dispatch\<close>

datatype tide_command = Doctor "string list" | Simulate "string list" | Replay "string list" | Usage

text \<open>\<open>main\<close>: the subcommand and the arguments it gets; \<open>Usage\<close> prints the help and exits with 2.\<close>

definition tide_main :: "string list \<Rightarrow> tide_command" where
  "tide_main args =
     (if length args < 2 then Usage
      else if args ! 1 = ''doctor'' then Doctor (drop 2 args)
      else if args ! 1 = ''simulate'' then Simulate (drop 2 args)
      else if args ! 1 = ''replay'' then Replay (drop 2 args)
      else Usage)"

subsection \<open>Uploads\<close>

function batches :: "telemetry list \<Rightarrow> telemetry list list" where
  "batches pts = (if pts = [] then [] else take 100 pts # batches (drop 100 pts))"
  by pat_completeness auto

termination
  by (relation "measure length") auto

declare batches.simps [simp del]

lemma concat_batches: "concat (batches pts) = pts"
  by (induction pts rule: batches.induct) (subst batches.simps, simp)

lemma batches_size: "b \<in> set (batches pts) \<Longrightarrow> b \<noteq> [] \<and> length b \<le> 100"
proof (induction pts rule: batches.induct)
  case (1 pts)
  then show ?case by (cases "pts = []") (use batches.simps [of pts] in auto)
qed

lemma interval_positive: "0 < rate \<Longrightarrow> quot Second rate \<le> 0 \<longleftrightarrow> 10 ^ 9 < rate"
  using pos_imp_zdiv_pos_iff [of rate Second] by (auto simp: quot_def)

text \<open>A server that answers by the number and content of the upload, and keeps what it was sent.\<close>

definition recording :: "(nat \<Rightarrow> telemetry list \<Rightarrow> go_error + int) \<Rightarrow> telemetry list \<Rightarrow> telemetry list list \<Rightarrow> (go_error + int) \<times> telemetry list list" where
  "recording answer b w = (answer (length w) b, w @ [b])"

lemma idle_ticks: "(case throttle of None \<Rightarrow> w | Some tick \<Rightarrow> (tick ^^ n) w) = w" if "throttle \<in> {None, Some (\<lambda>w. w)}"
proof -
  have "((\<lambda>w. w) ^^ n) w = w" by (induction n) simp_all
  then show ?thesis using that by auto
qed

lemma post_loop_recording:
  assumes "throttle \<in> {None, Some (\<lambda>w. w)}" "post_loop (recording answer) throttle api pts sent w = ((sent', err), w')"
  shows "\<exists>bs rest. w' = w @ bs \<and> batches pts = bs @ rest
    \<and> (err = None \<longrightarrow> rest = [] \<and> sent' = sent + length (concat bs) \<and> (\<forall>i < length bs. answer (length w + i) (bs ! i) = Inr 202))
    \<and> (err \<noteq> None \<longrightarrow> bs \<noteq> [] \<and> sent' = sent + length (concat (butlast bs))
        \<and> (\<forall>i < length bs. answer (length w + i) (bs ! i) = Inr 202 \<longleftrightarrow> Suc i \<noteq> length bs))"
  using assms(2)
proof (induction pts arbitrary: sent w rule: batches.induct)
  case (1 pts)
  show ?case
  proof (cases "pts = []")
    case True
    then show ?thesis using "1.prems" by (intro exI [of _ "[]"]) (auto simp: post_loop.simps [of _ _ _ "[]"] batches.simps [of "[]"])
  next
    case False
    let ?b = "take 100 pts"
    have bs: "batches pts = ?b # batches (drop 100 pts)" using False by (subst batches.simps) simp
    show ?thesis
    proof (cases "answer (length w) ?b = Inr 202")
      case True
      then have "post_loop (recording answer) throttle api (drop 100 pts) (sent + length ?b) (w @ [?b]) = ((sent', err), w')"
        using "1.prems" False by (subst (asm) post_loop.simps) (simp add: recording_def Let_def idle_ticks [OF assms(1)])
      from "1.IH" [OF False this] obtain bs' rest where ih: "w' = w @ [?b] @ bs'" "batches (drop 100 pts) = bs' @ rest"
        "err = None \<longrightarrow> rest = [] \<and> sent' = sent + length ?b + length (concat bs') \<and> (\<forall>i < length bs'. answer (Suc (length w) + i) (bs' ! i) = Inr 202)"
        "err \<noteq> None \<longrightarrow> bs' \<noteq> [] \<and> sent' = sent + length ?b + length (concat (butlast bs'))
          \<and> (\<forall>i < length bs'. answer (Suc (length w) + i) (bs' ! i) = Inr 202 \<longleftrightarrow> Suc i \<noteq> length bs')" by auto
      show ?thesis
        by (rule exI [of _ "?b # bs'"], rule exI [of _ rest]) (use ih bs True in \<open>auto simp: nth_Cons split: nat.split\<close>)
    next
      case f: False
      then have "w' = w @ [?b] \<and> err \<noteq> None \<and> sent' = sent"
        using "1.prems" False by (subst (asm) post_loop.simps) (auto simp: recording_def Let_def split: sum.splits if_splits)
      then show ?thesis using f bs by (intro exI [of _ "[?b]"] exI [of _ "batches (drop 100 pts)"]) auto
    qed
  qed
qed

lemma doctor_ok_iff:
  "fst (fst (doctor E d)) = 0 \<longleftrightarrow>
     (\<exists>cfg v d1 ps d2. loadCfg E = Inr cfg \<and> de_otel E = None \<and> ct_OK (CheckPostgres (de_probes E) (cf_PostgresDSN cfg))
       \<and> ct_OK (CheckRedis (de_probes E) (cf_RedisAddr cfg)) \<and> ct_OK (CheckNATS (de_probes E) (cf_NATSURL cfg))
       \<and> migrator_Version (de_db E) d = (Inr v, d1) \<and> Pending (de_db E) (de_fs E) d1 = (Inr ps, d2))"
  by (auto simp: doctor_def Let_def split: sum.splits option.splits prod.splits if_splits)

lemma check_details:
  "ct_OK (CheckPostgres P a) \<Longrightarrow> status_line (CheckPostgres P a) = ''postgres   ok (reachable)''"
  "ct_OK (CheckRedis P a) \<Longrightarrow> status_line (CheckRedis P a) = ''redis      ok (reachable)''"
  "ct_OK (CheckNATS P a) \<Longrightarrow> status_line (CheckNATS P a) = ''nats       ok (reachable)''"
  by (auto simp: CheckPostgres_def CheckRedis_def CheckNATS_def status_line_def numeral_eq_Suc split: option.splits)

lemma migrated_nothing_pending:
  assumes "good_db D vers" "fs_ReadDir F = Inr names" "\<forall>f \<in> set (migrations names). numbered f"
    and "ApplyPending D F d = ((applied, None), d1)" "migrator_Version D d1 = (Inr v, d2)" "Pending D F d2 = (Inr ps, d3)"
  shows "ps = []"
proof -
  note pend = Pending_result [OF assms(1-3)]
  obtain ps0 d0 where p0: "Pending D F d = (Inr ps0, d0)" "apply_loop D F ps0 [] d0 = ((applied, None), d1)"
    using assms(4) by (auto simp: ApplyPending_def split: option.splits prod.splits sum.splits)
  have ps0: "ps0 = filter (\<lambda>f. file_version f \<notin> vers d) (migrations names)" "vers d0 = vers d" using pend [OF p0(1)] by auto
  with assms(3) have "\<forall>f \<in> set ps0. numbered f" by simp
  from apply_loop_result [OF assms(1) this p0(2)] have "vers d1 = vers d \<union> file_version ` set ps0" using ps0(2) by auto
  moreover have "vers d2 = vers d1"
    using assms(1,5) by (auto simp: migrator_Version_def good_db_def split: option.splits prod.splits sum.splits) (metis snd_conv)+
  ultimately show ?thesis using pend [OF assms(6)] ps0(1) by (auto simp: filter_empty_conv)
qed

lemma upto_slash_takeWhile:
  "\<forall>c \<in> set pre. c \<noteq> CHR ''/'' \<Longrightarrow> upto_slash (pre @ cs) cs (length pre) = takeWhile (\<lambda>c. c \<noteq> CHR ''/'') (pre @ cs)"
proof (induction cs arbitrary: pre)
  case (Cons c cs)
  then show ?case using Cons.IH [of "pre @ [c]"] by (cases "c = CHR ''/''") (simp_all add: takeWhile_append2)
qed (simp add: takeWhile_eq_all_conv [THEN iffD2])

lemma natsURLToHostPort_host:
  assumes "\<forall>c \<in> set host. c \<noteq> CHR ''/''" "host \<noteq> []"
  shows "natsURLToHostPort (''nats://'' @ host) = host" "natsURLToHostPort (''tls://'' @ host @ ''/'' @ path) = host"
  using assms upto_slash_takeWhile [of "[]" host] upto_slash_takeWhile [of "[]" "host @ ''/'' @ path"]
  by (simp_all add: natsURLToHostPort_def takeWhile_append2)

text \<open>A simulation that exits with 0 has uploaded every point it generated.\<close>

lemma simulate_uploads_all:
  assumes "runSimulate L E f (recording answer) (\<lambda>w. w) [] = Some ((0, out), bs)"
  shows "\<exists>scen. concat bs = simulate_points L E f scen \<and> (\<forall>i < length bs. answer i (bs ! i) = Inr 202)"
proof -
  obtain scen sent where p: "postBatches (recording answer) (\<lambda>w. w) (sm_api f) (simulate_points L E f scen) (sm_rate f) [] = Some ((sent, None), bs)"
    using assms by (auto simp: runSimulate_def Let_def split: sum.splits option.splits prod.splits)
  then obtain thr where thr: "thr \<in> {None, Some (\<lambda>w. w)}" "post_loop (recording answer) thr (sm_api f) (simulate_points L E f scen) 0 [] = ((sent, None), bs)"
    by (auto simp: postBatches_def split: if_splits)
  from post_loop_recording [OF thr] have "batches (simulate_points L E f scen) = bs \<and> (\<forall>i < length bs. answer i (bs ! i) = Inr 202)" by auto
  then show ?thesis using concat_batches [of "simulate_points L E f scen"] by auto
qed

subsection \<open>Rules in a replay\<close>

text \<open>An engine that holds one rule without conditions, on one event of the rule's type.\<close>

definition matched_of :: "event \<Rightarrow> jobj" where
  "matched_of ev = [(''event'', JStr (ev_Type ev)), (''eventId'', JStr (ev_ID ev))]"

lemma evaluate_one:
  assumes "enumerates ord" "en_rules e = [k \<mapsto> \<lparr>rl_Spec = sp, rl_Published = pub\<rparr>]" "conditions sp = []" "\<not> en_dispatches e"
    and "ev_Type ev = wh_EventType (sc_When sp)" "ev_VehicleID ev = tel_VehicleID t" "vk = valve_key sp (tel_VehicleID t)"
    and "int (length (en_fireLog e vk)) < sc_MaxActionsPerHour sp"
  shows "snd (Engine_Evaluate L ord disp now t s [ev] (e, d)) = (if cooling sp now (en_lastFire e vk) then [] else emitted t sp ev (matched_of ev))"
    and "\<not> cooling sp now (en_lastFire e vk) \<Longrightarrow>
      en_rules (fst (fst (Engine_Evaluate L ord disp now t s [ev] (e, d)))) = en_rules e
      \<and> en_dispatches (fst (fst (Engine_Evaluate L ord disp now t s [ev] (e, d)))) = en_dispatches e
      \<and> en_lastFire (fst (fst (Engine_Evaluate L ord disp now t s [ev] (e, d)))) vk = Some now
      \<and> length (en_fireLog (fst (fst (Engine_Evaluate L ord disp now t s [ev] (e, d)))) vk) \<le> Suc (length (en_fireLog e vk))"
proof -
  have "set (ord {k}) = {k} \<and> distinct (ord {k})" using assms(1) by (simp add: enumerates_def)
  then have ord: "ord {k} = [k]" by (cases "ord {k}"; cases "tl (ord {k})") auto
  have m: "match_conditions L t s sp ev = (matched_of ev, [], True)" by (simp add: match_conditions_def assms(3) matched_of_def)
  have "int (length (recent_fires now (en_fireLog e vk))) \<le> int (length (en_fireLog e vk))" by (simp add: recent_fires_def)
  with assms(8) have r: "int (length (recent_fires now (en_fireLog e vk))) < sc_MaxActionsPerHour sp" by linarith
  show "snd (Engine_Evaluate L ord disp now t s [ev] (e, d)) = (if cooling sp now (en_lastFire e vk) then [] else emitted t sp ev (matched_of ev))"
    using r by (simp add: Engine_Evaluate_def assms(2,4-7) ord rule_loop_def rule_step_def m webhook_action_def Let_def)
  show "\<not> cooling sp now (en_lastFire e vk) \<Longrightarrow>
      en_rules (fst (fst (Engine_Evaluate L ord disp now t s [ev] (e, d)))) = en_rules e
      \<and> en_dispatches (fst (fst (Engine_Evaluate L ord disp now t s [ev] (e, d)))) = en_dispatches e
      \<and> en_lastFire (fst (fst (Engine_Evaluate L ord disp now t s [ev] (e, d)))) vk = Some now
      \<and> length (en_fireLog (fst (fst (Engine_Evaluate L ord disp now t s [ev] (e, d)))) vk) \<le> Suc (length (en_fireLog e vk))"
    using r by (simp add: Engine_Evaluate_def assms(2,4-7) ord rule_loop_def rule_step_def m webhook_action_def Let_def recent_fires_def)
qed

subsection \<open>Properties\<close>

text \<open>C24: Uploads are complete and in order. \<open>postBatches\<close> panics exactly for rates above one per nanosecond. Otherwise the
  uploads are an initial part of the points cut into batches of at most 100; there is no error exactly when everything
  was uploaded and accepted, and the count returned is the number of points in accepted batches.\<close>

theorem uploads_complete_and_ordered:
  "case postBatches (recording answer) (\<lambda>w. w) api pts rate [] of
     None \<Rightarrow> rate > 10 ^ 9
   | Some ((sent, err), bs) \<Rightarrow> rate \<le> 10 ^ 9 \<and> bs = take (length bs) (batches pts) \<and> (\<forall>b \<in> set bs. b \<noteq> [] \<and> length b \<le> 100)
       \<and> (err = None \<longleftrightarrow> concat bs = pts \<and> (\<forall>i < length bs. answer i (bs ! i) = Inr 202))
       \<and> sent = length (concat (if err = None then bs else butlast bs))"
proof (cases "rate > 0 \<and> quot Second rate \<le> 0")
  case True
  then show ?thesis using interval_positive [of rate] by (auto simp: postBatches_def)
next
  case False
  define thr where "thr = (if rate > 0 then Some (\<lambda>w :: telemetry list list. w) else None)"
  have thr: "thr \<in> {None, Some (\<lambda>w. w)}" "postBatches (recording answer) (\<lambda>w. w) api pts rate [] = Some (post_loop (recording answer) thr api pts 0 [])"
    using False by (auto simp: postBatches_def thr_def)
  obtain sent err bs where l: "post_loop (recording answer) thr api pts 0 [] = ((sent, err), bs)" by (metis prod.collapse)
  from post_loop_recording [OF thr(1) l] obtain rest where r: "batches pts = bs @ rest"
    "err = None \<longrightarrow> rest = [] \<and> sent = length (concat bs) \<and> (\<forall>i < length bs. answer i (bs ! i) = Inr 202)"
    "err \<noteq> None \<longrightarrow> bs \<noteq> [] \<and> sent = length (concat (butlast bs)) \<and> (\<forall>i < length bs. answer i (bs ! i) = Inr 202 \<longleftrightarrow> Suc i \<noteq> length bs)" by auto
  have 2: "bs = take (length bs) (batches pts)" using r(1) by simp
  have 5: "sent = length (concat (if err = None then bs else butlast bs))" using r(2,3) by (cases err) simp_all
  have 3: "\<forall>b \<in> set bs. b \<noteq> [] \<and> length b \<le> 100" using batches_size [of _ pts] r(1) by auto
  have 4: "err = None \<longleftrightarrow> concat bs = pts \<and> (\<forall>i < length bs. answer i (bs ! i) = Inr 202)"
  proof (cases err)
    case None
    then show ?thesis using r(1,2) concat_batches [of pts] by simp
  next
    case (Some e)
    with r(3) have "bs \<noteq> []" and a: "\<And>i. i < length bs \<Longrightarrow> answer i (bs ! i) = Inr 202 \<longleftrightarrow> Suc i \<noteq> length bs" by auto
    then have "length bs - 1 < length bs" "Suc (length bs - 1) = length bs" by (cases bs; simp)+
    with a have "\<exists>i < length bs. answer i (bs ! i) \<noteq> Inr 202" by blast
    with Some show ?thesis by auto
  qed
  have 1: "rate \<le> 10 ^ 9" using False interval_positive [of rate] by (cases "0 < rate") simp_all
  show ?thesis unfolding thr(2) l option.case prod.case by (intro conjI 1 2 3 4 5)
qed

text \<open>After a successful start the doctor is satisfied. When \<open>ApplyPending\<close> returned without error on a database that behaves as
  documented, and the services and both queries answer, \<open>doctor\<close> exits with 0 and reports three reachable services,
  the schema version and no pending migration.\<close>

lemma doctor_after_migration:
  assumes "good_db (de_db E) vers" "fs_ReadDir (de_fs E) = Inr names" "\<forall>f \<in> set (migrations names). numbered f"
    and "ApplyPending (de_db E) (de_fs E) d = ((applied, None), d1)"
    and "loadCfg E = Inr cfg" "de_otel E = None" "ct_OK (CheckPostgres (de_probes E) (cf_PostgresDSN cfg))"
    and "ct_OK (CheckRedis (de_probes E) (cf_RedisAddr cfg))" "ct_OK (CheckNATS (de_probes E) (cf_NATSURL cfg))"
    and "migrator_Version (de_db E) d1 = (Inr v, d2)" "Pending (de_db E) (de_fs E) d2 = (Inr ps, d3)"
  shows "doctor E d1 = ((0, [''postgres   ok (reachable)'', ''redis      ok (reachable)'', ''nats       ok (reachable)'',
    ''schema     version='' @ show_int v @ '' pending=0'']), d3)"
proof -
  have "ps = []" by (rule migrated_nothing_pending [OF assms(1-4,10,11)])
  moreover have "show_nat 0 = ''0''" by code_simp
  ultimately show ?thesis using assms(5-11) by (simp add: doctor_def Let_def check_details)
qed

text \<open>The self-check of a replay passes. Without a rule file, for points no two of which share event time and id and that pass
  the checks within one dedup window, \<open>tide replay\<close> ends with the error of the replay or reports its events as
  deterministic, for all clocks of the two runs.\<close>

lemma replay_self_check_passes:
  assumes "rf_rule f = []" "rf_compare f = []" "replay_points L E f = Inr pts" "sorts srt"
    and "inj_on (\<lambda>t. (tel_Timestamp t, tel_ID t)) (set pts)"
    and "\<forall>a \<in> set (readings clks 0 (srt pts)). \<forall>b \<in> set (readings clks 0 (srt pts)). ck_seen (fst b) - ck_seen (fst a) < 24 * Hour"
    and "\<forall>a \<in> set (readings clks' 0 (srt pts)). \<forall>b \<in> set (readings clks' 0 (srt pts)). ck_seen (fst b) - ck_seen (fst a) < 24 * Hour"
    and "\<forall>ct \<in> set (readings clks 0 (srt pts)) \<union> set (readings clks' 0 (srt pts)). accepted (fst ct) (snd ct)"
  shows "runReplay L ord disp srt E f clks clks' now1 now2 d =
    (case Run srt (mem_Process L ord disp) clks pts NewTestPipeline of Inl err \<Rightarrow> Fatal (''replay: '' @ err) | Inr res \<Rightarrow> Replayed res True)"
proof -
  have geo: "NewTestPipeline\<lparr>mp_geo := None\<rparr> = NewTestPipeline" by (simp add: NewTestPipeline_def)
  have "Run srt (mem_Process L ord disp) clks' pts NewTestPipeline = Run srt (mem_Process L ord disp) clks pts NewTestPipeline"
    using Run_deterministic [OF assms(4,4) refl assms(5-8), of L ord disp None, unfolded geo] by simp
  moreover have "same_ids es es" for es by (simp add: same_ids_def list_all2_refl)
  ultimately show ?thesis using assms(1-3) by (simp add: runReplay_def replay_build_def Let_def split: sum.split)
qed

text \<open>Replayed rules follow the wall clock. For a rule with a cooldown and no conditions, published in the engine of a replay, two
  matching events of one vehicle both fire exactly when the two evaluations are a cooldown apart on the wall clock,
  whatever the event times of the points are: a replay that is faster than the recording drops actions, and its events
  depend on its speed.\<close>

lemma replayed_rules_follow_the_wall_clock:
  assumes "enumerates ord" "conditions sp = []" "0 < sc_CooldownSecs sp" "secs_ok (sc_CooldownSecs sp)" "2 \<le> sc_MaxActionsPerHour sp"
    and "replay_build E pub rulePath d = Inr p" "rulePath \<noteq> []" "mp_rules p = Some (e, d)" "re_readFile E rulePath = Inr raw" "ParseSpec (re_rule E) raw = Inr sp"
    and "ev_Type ev1 = wh_EventType (sc_When sp)" "ev_VehicleID ev1 = v" "tel_VehicleID t1 = v"
    and "ev_Type ev2 = wh_EventType (sc_When sp)" "ev_VehicleID ev2 = v" "tel_VehicleID t2 = v"
  shows "let (ed, out1) = Engine_Evaluate L ord disp now1 t1 s1 [ev1] (e, d); (_, out2) = Engine_Evaluate L ord disp now2 t2 s2 [ev2] ed
    in out1 = emitted t1 sp ev1 (matched_of ev1)
       \<and> out2 = (if now2 < now1 + sc_CooldownSecs sp * Second then [] else emitted t2 sp ev2 (matched_of ev2))"
proof -
  let ?k = "rule_key sp" and ?vk = "valve_key sp v"
  have e: "en_rules e = [?k \<mapsto> \<lparr>rl_Spec = sp, rl_Published = pub\<rparr>]" "\<not> en_dispatches e" "en_lastFire e ?vk = None" "en_fireLog e ?vk = []"
    using assms(6-10) by (auto simp: replay_build_def Engine_Publish_def NewEngine_def Let_def)
  obtain e1 d1 out1 where 1: "Engine_Evaluate L ord disp now1 t1 s1 [ev1] (e, d) = ((e1, d1), out1)" by (metis prod.collapse)
  have nc: "\<not> cooling sp now1 (en_lastFire e ?vk)" by (simp add: cooling_def e)
  note one = evaluate_one [OF assms(1) e(1) assms(2) e(2), where ev = ev1 and t = t1 and vk = ?vk and L = L and disp = disp and now = now1 and s = s1 and d = d]
  have o1: "out1 = emitted t1 sp ev1 (matched_of ev1)" and e1: "en_rules e1 = en_rules e" "\<not> en_dispatches e1" "en_lastFire e1 ?vk = Some now1"
      "length (en_fireLog e1 ?vk) \<le> 1"
    using one nc assms(5,11-13) e by (auto simp: 1)
  have "int (length (en_fireLog e1 ?vk)) < sc_MaxActionsPerHour sp" using e1(4) assms(5) by linarith
  note two = evaluate_one(1) [OF assms(1) e1(1) [unfolded e(1)] assms(2) e1(2), where ev = ev2 and t = t2 and vk = ?vk and L = L and disp = disp and now = now2 and s = s2 and d = d1, unfolded e1(3)]
  have "cooling sp now2 (Some now1) \<longleftrightarrow> now2 < now1 + sc_CooldownSecs sp * Second"
    using assms(3) cooldown_test [OF assms(4)] by (simp add: cooling_def)
  with two o1 e1(4) assms(5,14-16) show ?thesis by (auto simp: 1 Let_def split: prod.splits)
qed

subsection \<open>Witnesses\<close>

theorem uploads_complete_and_ordered_witness:
  "let p = point_at ''v'' 1 None None None; bs = batches (replicate 101 p)
   in postBatches (recording (\<lambda>i _. if i = 0 then Inr 202 else Inr 503)) (\<lambda>w. w) ''a'' (replicate 101 p) 5 []
     = Some ((100, Some (''post batch: api returned '' @ show_int 503)), bs) \<and> bs = [replicate 100 p, [p]] \<and> (\<forall>b \<in> set bs. length b \<le> 100)"
proof -
  let ?p = "point_at ''v'' 1 None None None" and ?answer = "\<lambda>i _. if i = 0 then Inr 202 else Inr 503 :: go_error + int"
  have b: "batches (replicate 101 ?p) = [replicate 100 ?p, [?p]]" by (subst batches.simps) (simp add: batches.simps [of "[_]"] batches.simps [of "[]"])
  have i: "quot Second 5 = 200000000" by (simp add: quot_def)
  have ticks: "((\<lambda>w :: telemetry list list. w) ^^ n) w = w" for n w by (induction n) simp_all
  have run: "postBatches (recording ?answer) (\<lambda>w. w) ''a'' (replicate 101 ?p) 5 []
     = Some ((100, Some (''post batch: api returned '' @ show_int 503)), [replicate 100 ?p, [?p]])"
    by (simp add: postBatches_def i) (simp add: post_loop.simps [of _ _ _ "replicate 101 ?p"] post_loop.simps [of _ _ _ "[?p]"] recording_def ticks Let_def)
  show ?thesis using uploads_complete_and_ordered [where answer = ?answer and api = "''a''" and pts = "replicate 101 ?p" and rate = 5] unfolding run b Let_def option.case prod.case by simp
qed

definition all_up :: "int list doctor_env" where
  "all_up = \<lparr>de_getenv = (\<lambda>_. []), de_readFile = (\<lambda>_. Inl ''no file''), de_yaml = (\<lambda>_ c. Inr c), de_config = None, de_otel = None,
     de_probes = \<lparr>pb_sqlOpen = (\<lambda>_. None), pb_sqlPing = (\<lambda>_. None), pb_redisPing = (\<lambda>_. None), pb_natsConnect = (\<lambda>_. None), pb_dial = (\<lambda>_. None)\<rparr>,
     de_db = list_db, de_fs = two_files\<rparr>"

lemma doctor_after_migration_example:
  "doctor all_up (snd (ApplyPending list_db two_files [])) = ((0, [''postgres   ok (reachable)'', ''redis      ok (reachable)'', ''nats       ok (reachable)'',
    ''schema     version='' @ show_int 2 @ '' pending=0'']), [2, 1])"
proof -
  have e: "de_db all_up = list_db" "de_fs all_up = two_files" "de_otel all_up = None" by (simp_all add: all_up_def)
  have a: "ApplyPending list_db two_files [] = (([''0001_a.sql'', ''0002_b.sql''], None), [2, 1])" by code_simp
  have v: "migrator_Version list_db [2, 1] = (Inr 2, [2, 1])" by code_simp
  have p: "Pending list_db two_files [2, 1] = (Inr [], [2, 1])" by code_simp
  have c: "loadCfg all_up = Inr config_Defaults" by code_simp
  have g: "good_db list_db set" by (simp add: good_db_def list_db_def)
  have n: "fs_ReadDir two_files = Inr [''0002_b.sql'', ''0001_a.sql'']" by (simp add: two_files_def)
  have ok: "ct_OK (CheckPostgres (de_probes all_up) x)" "ct_OK (CheckRedis (de_probes all_up) x)" "ct_OK (CheckNATS (de_probes all_up) x)" for x
    by (simp_all add: all_up_def CheckPostgres_def CheckRedis_def CheckNATS_def)
  from doctor_after_migration [of all_up set, unfolded e, OF g n _ a c refl ok v p] show ?thesis
    using a by (simp add: two_files_numbered)
qed

definition two_points :: "telemetry list" where
  "two_points = [point_at ''v'' 2 None None None, point_at ''v'' 1 None None None]"

definition recorded_env :: "unit replay_env" where
  "recorded_env = \<lparr>re_readFile = (\<lambda>_. Inr []), re_points = (\<lambda>_. Inr two_points), re_scenario = (\<lambda>_. Inl ''no file''), re_rule = (\<lambda>_. Inl ''no file''),
     re_join = (\<lambda>a b. a @ b), re_duration = (\<lambda>_. None),
     re_rng = \<lparr>rng_New = (\<lambda>_. ()), rng_Float64 = (\<lambda>r. (Fin 0, r)), rng_NormFloat64 = (\<lambda>r. (Fin 0, r))\<rparr>, re_now = 3\<rparr>"

definition input_flags :: replay_flags where
  "input_flags = \<lparr>rf_scenario = ''speeding'', rf_vehicles = 5, rf_seed = 42, rf_rule = [], rf_compare = [], rf_input = ''in.json'',
     rf_scenarios = ''simulator/scenarios''\<rparr>"

lemma replay_self_check_passes_example:
  "runReplay plain_lib sorted_list_of_set (\<lambda>_ _ _ d. (None, d)) replay_sort recorded_env input_flags (\<lambda>_. clk_at 5) (\<lambda>i. clk_at (9 + int i)) 3 4 () =
    (case Run replay_sort (mem_Process plain_lib sorted_list_of_set (\<lambda>_ _ _ d. (None, d))) (\<lambda>_. clk_at 5) two_points (NewTestPipeline :: unit mem_pipeline) of
       Inl err \<Rightarrow> Fatal (''replay: '' @ err) | Inr res \<Rightarrow> Replayed res True)"
proof (rule replay_self_check_passes [OF _ _ _ sorts_replay_sort])
  have s: "replay_sort two_points = [point_at ''v'' 1 None None None, point_at ''v'' 2 None None None]"
    by (simp add: two_points_def replay_sort_def replay_le_def point_at_simps)
  show "rf_rule input_flags = []" "rf_compare input_flags = []" by (simp_all add: input_flags_def)
  show "replay_points plain_lib recorded_env input_flags = Inr two_points" by (simp add: replay_points_def input_flags_def recorded_env_def)
  show "inj_on (\<lambda>t. (tel_Timestamp t, tel_ID t)) (set two_points)" by (simp add: two_points_def point_at_simps)
  show "\<forall>a \<in> set (readings (\<lambda>_. clk_at 5) 0 (replay_sort two_points)). \<forall>b \<in> set (readings (\<lambda>_. clk_at 5) 0 (replay_sort two_points)).
      ck_seen (fst b) - ck_seen (fst a) < 24 * Hour"
    "\<forall>a \<in> set (readings (\<lambda>i. clk_at (9 + int i)) 0 (replay_sort two_points)). \<forall>b \<in> set (readings (\<lambda>i. clk_at (9 + int i)) 0 (replay_sort two_points)).
      ck_seen (fst b) - ck_seen (fst a) < 24 * Hour"
    by (simp_all add: s clk_at_def)
  show "\<forall>ct \<in> set (readings (\<lambda>_. clk_at 5) 0 (replay_sort two_points)) \<union> set (readings (\<lambda>i. clk_at (9 + int i)) 0 (replay_sort two_points)).
      accepted (fst ct) (snd ct)"
    by (simp add: s accepted_def point_at_valid clk_at_def MaxFutureSkew_def) (simp add: point_at_simps)
qed

definition cooled_rule :: spec where
  "cooled_rule = \<lparr>sc_ID = ''r'', sc_Version = ''v1'', sc_When = \<lparr>wh_EventType = ''trip.started'', wh_Conditions = None\<rparr>,
     sc_Then = \<lparr>th_Emit = ''incident.created'', th_Webhook = [], th_Secret = []\<rparr>, sc_CooldownSecs = 60, sc_MaxActionsPerHour = 100\<rparr>"

lemma replayed_rules_follow_the_wall_clock_example:
  "let E = recorded_env\<lparr>re_rule := (\<lambda>_. Inr cooled_rule)\<rparr>; ev = stored_event ''a'' ''t'' 1000; t = point_at ''v'' 1 None None None
   in \<exists>p e. replay_build E 3 ''r.yaml'' () = Inr p \<and> mp_rules p = Some (e, ())
      \<and> (let (ed, out1) = Engine_Evaluate plain_lib sorted_list_of_set (\<lambda>_ _ _ d. (None, d)) 5 t zero_vehicle_state [ev] (e, ());
             (_, out2) = Engine_Evaluate plain_lib sorted_list_of_set (\<lambda>_ _ _ d. (None, d)) 6 t zero_vehicle_state [ev] ed
         in out1 = emitted t cooled_rule ev (matched_of ev) \<and> out2 = [])"
proof -
  define E where "E = recorded_env\<lparr>re_rule := (\<lambda>_. Inr cooled_rule)\<rparr>"
  let ?ev = "stored_event ''a'' ''t'' 1000" and ?t = "point_at ''v'' 1 None None None"
  let ?e = "snd (Engine_Publish cooled_rule 3 (NewEngine False))" and ?p = "NewTestPipeline :: unit mem_pipeline"
  have parse: "ParseSpec (re_rule E) [] = Inr cooled_rule" by (simp add: E_def ParseSpec_def cooled_rule_def conditions_def)
  have rf: "re_readFile E ''r.yaml'' = Inr []" by (simp add: E_def recorded_env_def)
  have build: "replay_build E 3 ''r.yaml'' () = Inr (?p\<lparr>mp_rules := Some (?e, ())\<rparr>)"
    by (simp add: replay_build_def rf parse Engine_Publish_def NewEngine_def Let_def)
  have "let (ed, out1) = Engine_Evaluate plain_lib sorted_list_of_set (\<lambda>_ _ _ d. (None, d)) 5 ?t zero_vehicle_state [?ev] (?e, ());
             (_, out2) = Engine_Evaluate plain_lib sorted_list_of_set (\<lambda>_ _ _ d. (None, d)) 6 ?t zero_vehicle_state [?ev] ed
         in out1 = emitted ?t cooled_rule ?ev (matched_of ?ev)
          \<and> out2 = (if 6 < 5 + sc_CooldownSecs cooled_rule * Second then [] else emitted ?t cooled_rule ?ev (matched_of ?ev))"
    by (rule replayed_rules_follow_the_wall_clock [OF enumerates_sorted _ _ _ _ build _ _ rf parse])
      (simp_all add: cooled_rule_def conditions_def secs_ok_def stored_event_def point_at_simps)
  then have "\<exists>p e. replay_build E 3 ''r.yaml'' () = Inr p \<and> mp_rules p = Some (e, ())
      \<and> (let (ed, out1) = Engine_Evaluate plain_lib sorted_list_of_set (\<lambda>_ _ _ d. (None, d)) 5 ?t zero_vehicle_state [?ev] (e, ());
             (_, out2) = Engine_Evaluate plain_lib sorted_list_of_set (\<lambda>_ _ _ d. (None, d)) 6 ?t zero_vehicle_state [?ev] ed
         in out1 = emitted ?t cooled_rule ?ev (matched_of ?ev) \<and> out2 = [])"
    using build by (intro exI [of _ "?p\<lparr>mp_rules := Some (?e, ())\<rparr>"] exI [of _ ?e] conjI) (simp_all add: cooled_rule_def)
  then show ?thesis unfolding E_def Let_def .
qed

end
