(* ===== verification/Flags.thy ===== *)
theory Flags
  imports Cli
begin

section \<open>Command-line flags (cmd/tide)\<close>

text \<open>
  The flag sets of the commands with their defaults, and \<open>Parse\<close> of package \<open>flag\<close> as the code uses it: no flag is boolean,
  every flag takes a value. The number parsers are arguments. A set made with \<open>ExitOnError\<close> ends the process with 2 on a bad
  flag and with 0 on a request for help; the one of \<open>loadCfg\<close> is made with \<open>ContinueOnError\<close>, and the error is dropped.
\<close>

subsection \<open>Package flag\<close>

datatype flag_value = IntFlag int | StringFlag string | FloatFlag float64

record flag_parsers =
  fp_Int :: "string \<Rightarrow> go_error + int"
  fp_Float :: "string \<Rightarrow> go_error + float64"

type_synonym flag_set = "string \<rightharpoonup> flag_value"

definition flag_Set :: "flag_parsers \<Rightarrow> flag_value \<Rightarrow> string \<Rightarrow> go_error + flag_value" where
  "flag_Set F fv s =
     (case fv of
        IntFlag _ \<Rightarrow> map_sum id IntFlag (fp_Int F s)
      | StringFlag _ \<Rightarrow> Inr (StringFlag s)
      | FloatFlag _ \<Rightarrow> map_sum id FloatFlag (fp_Float F s))"

text \<open>A name ends at the first equals sign after its first character.\<close>

fun upto_equals :: "string \<Rightarrow> string \<times> string option" where
  "upto_equals [] = ([], None)"
| "upto_equals (c # cs) = (if c = CHR ''='' then ([], Some cs) else let (n, v) = upto_equals cs in (c # n, v))"

definition split_flag :: "string \<Rightarrow> string \<times> string option" where
  "split_flag name = (let (n, v) = upto_equals (tl name) in (hd name # n, v))"

datatype parse_step = FlagStop "string list" | FlagHelp | FlagFail string | FlagNext flag_set "string list"

definition parseOne :: "flag_parsers \<Rightarrow> flag_set \<Rightarrow> string list \<Rightarrow> parse_step" where
  "parseOne F formal args =
     (case args of
        [] \<Rightarrow> FlagStop []
      | s # rest \<Rightarrow>
          if length s < 2 \<or> hd s \<noteq> CHR ''-'' then FlagStop (s # rest)
          else if s = ''--'' then FlagStop rest
          else let name = (if s ! 1 = CHR ''-'' then drop 2 s else drop 1 s)
          in if hd name = CHR ''-'' \<or> hd name = CHR ''='' then FlagFail (''bad flag syntax: '' @ s)
          else let (name, val) = split_flag name
          in case formal name of
               None \<Rightarrow> if name = ''help'' \<or> name = ''h'' then FlagHelp else FlagFail (''flag provided but not defined: -'' @ name)
             | Some fv \<Rightarrow>
                 (case (case val of Some v \<Rightarrow> Some (v, rest) | None \<Rightarrow> (case rest of [] \<Rightarrow> None | v # rest \<Rightarrow> Some (v, rest))) of
                    None \<Rightarrow> FlagFail (''flag needs an argument: -'' @ name)
                  | Some (v, rest) \<Rightarrow>
                      (case flag_Set F fv v of
                         Inl err \<Rightarrow> FlagFail (''invalid value '' @ quoted v @ '' for flag -'' @ name @ '': '' @ err)
                       | Inr fv \<Rightarrow> FlagNext (formal(name \<mapsto> fv)) rest)))"

datatype parse_end = Parsed "string list" | NeedHelp | BadFlag string

lemma parseOne_shorter: "parseOne F formal args = FlagNext formal' rest \<Longrightarrow> length rest < length args"
  by (cases args) (auto simp: parseOne_def Let_def split: if_splits prod.splits option.splits sum.splits list.splits)

text \<open>The flags as they are when parsing ends, and how it ends.\<close>

function flags_Parse :: "flag_parsers \<Rightarrow> flag_set \<Rightarrow> string list \<Rightarrow> flag_set \<times> parse_end" where
  "flags_Parse F formal args =
     (case parseOne F formal args of
        FlagStop rest \<Rightarrow> (formal, Parsed rest)
      | FlagHelp \<Rightarrow> (formal, NeedHelp)
      | FlagFail err \<Rightarrow> (formal, BadFlag err)
      | FlagNext formal' rest \<Rightarrow> flags_Parse F formal' rest)"
  by pat_completeness auto

termination
  by (relation "measure (\<lambda>(F, formal, args). length args)") (auto dest: parseOne_shorter)

declare flags_Parse.simps [simp del]

text \<open>A set with \<open>ExitOnError\<close>: the exit code and message, or the parsed flags.\<close>

definition parse_or_exit :: "flag_parsers \<Rightarrow> flag_set \<Rightarrow> string list \<Rightarrow> (nat \<times> string) + flag_set" where
  "parse_or_exit F formal args =
     (case flags_Parse F formal args of
        (formal', Parsed _) \<Rightarrow> Inr formal'
      | (_, NeedHelp) \<Rightarrow> Inl (0, [])
      | (_, BadFlag err) \<Rightarrow> Inl (2, err))"

definition int_flag :: "flag_set \<Rightarrow> string \<Rightarrow> int" where
  "int_flag fs name = (case fs name of Some (IntFlag i) \<Rightarrow> i | _ \<Rightarrow> 0)"

definition string_flag :: "flag_set \<Rightarrow> string \<Rightarrow> string" where
  "string_flag fs name = (case fs name of Some (StringFlag s) \<Rightarrow> s | _ \<Rightarrow> [])"

definition float_flag :: "flag_set \<Rightarrow> string \<Rightarrow> float64" where
  "float_flag fs name = (case fs name of Some (FloatFlag x) \<Rightarrow> x | _ \<Rightarrow> Fin 0)"

subsection \<open>The flag sets of the commands\<close>

definition config_flag_set :: "(string \<Rightarrow> string) \<Rightarrow> flag_set" where
  "config_flag_set getenv = [''config'' \<mapsto> StringFlag (getenv ''TIDE_CONFIG'')]"

definition simulate_flag_set :: "(string \<Rightarrow> string) \<Rightarrow> flag_set" where
  "simulate_flag_set getenv = map_of
     [(''vehicles'', IntFlag 10), (''scenario'', StringFlag ''mixed''), (''rate'', IntFlag 0), (''seed'', IntFlag 0),
      (''api'', StringFlag ''http://localhost:8080''), (''duplicate-events'', FloatFlag (Fin 0)), (''late-events'', FloatFlag (Fin 0)),
      (''missing-events'', FloatFlag (Fin 0)), (''out-of-order'', FloatFlag (Fin 0)), (''gps-drift'', FloatFlag (Fin 0)),
      (''offline-vehicles'', FloatFlag (Fin 0)), (''scenarios'', StringFlag (getenv ''TIDE_SCENARIOS''))]"

definition sim_flags_of :: "flag_set \<Rightarrow> sim_flags" where
  "sim_flags_of fs =
     \<lparr>sm_vehicles = int_flag fs ''vehicles'', sm_scenario = string_flag fs ''scenario'', sm_rate = int_flag fs ''rate'',
      sm_seed = int_flag fs ''seed'', sm_api = string_flag fs ''api'',
      sm_faults = \<lparr>fc_DuplicateRate = float_flag fs ''duplicate-events'', fc_LateRate = float_flag fs ''late-events'', fc_LateBy = [],
        fc_MissingRate = float_flag fs ''missing-events'', fc_OutOfOrderRate = float_flag fs ''out-of-order'',
        fc_GPSDriftM = float_flag fs ''gps-drift'', fc_OfflineVehicles = float_flag fs ''offline-vehicles''\<rparr>,
      sm_scenarios = Some (string_flag fs ''scenarios'')\<rparr>"

definition replay_flag_set :: flag_set where
  "replay_flag_set = map_of
     [(''scenario'', StringFlag ''speeding''), (''vehicles'', IntFlag 5), (''seed'', IntFlag 42), (''rule'', StringFlag []),
      (''compare'', StringFlag []), (''input'', StringFlag []), (''scenarios'', StringFlag ''simulator/scenarios'')]"

definition replay_flags_of :: "flag_set \<Rightarrow> replay_flags" where
  "replay_flags_of fs =
     \<lparr>rf_scenario = string_flag fs ''scenario'', rf_vehicles = int_flag fs ''vehicles'', rf_seed = int_flag fs ''seed'',
      rf_rule = string_flag fs ''rule'', rf_compare = string_flag fs ''compare'', rf_input = string_flag fs ''input'',
      rf_scenarios = string_flag fs ''scenarios''\<rparr>"

subsection \<open>The commands from their arguments\<close>

text \<open>\<open>doctor\<close>: the error of \<open>Parse\<close> is dropped, the flag has the value it had when parsing ended.\<close>

definition doctor_args :: "flag_parsers \<Rightarrow> 'd doctor_env \<Rightarrow> string list \<Rightarrow> 'd \<Rightarrow> (nat \<times> string list) \<times> 'd" where
  "doctor_args F E args d =
     doctor (E\<lparr>de_config := Some (string_flag (fst (flags_Parse F (config_flag_set (de_getenv E)) args)) ''config'')\<rparr>) d"

definition simulate_args ::
  "go_lib \<Rightarrow> flag_parsers \<Rightarrow> 'r simulate_env \<Rightarrow> string list \<Rightarrow> (telemetry list \<Rightarrow> 'w \<Rightarrow> (go_error + int) \<times> 'w) \<Rightarrow> ('w \<Rightarrow> 'w) \<Rightarrow> 'w
    \<Rightarrow> ((nat \<times> string) \<times> 'w) option" where
  "simulate_args L F E args post tick w =
     (case parse_or_exit F (simulate_flag_set (si_getenv E)) args of
        Inl out \<Rightarrow> Some (out, w)
      | Inr fs \<Rightarrow> runSimulate L E (sim_flags_of fs) post tick w)"

text \<open>The lines that \<open>runReplay\<close> prints for its outcome; times are in UTC.\<close>

definition event_line :: "event \<Rightarrow> string" where
  "event_line e = ''  '' @ format_rfc3339 (ev_Timestamp e) @ '' '' @ ev_Type e @ '' corr='' @ ev_CorrelationID e @ '' rule='' @ ev_RuleID e
     @ ''/'' @ ev_RuleVersion e"

definition replay_lines :: "replay_flags \<Rightarrow> replay_out \<Rightarrow> string list" where
  "replay_lines f out =
     (case out of
        Fatal err \<Rightarrow> [err]
      | Compared a b \<Rightarrow>
          [''rule A ('' @ rf_rule f @ ''): '' @ show_nat (length a) @ '' events''] @ map (\<lambda>t. ''  A '' @ t) a
          @ [''rule B ('' @ rf_compare f @ ''): '' @ show_nat (length b) @ '' events''] @ map (\<lambda>t. ''  B '' @ t) b
      | Replayed res det \<Rightarrow>
          [''replay: '' @ show_nat (rr_Points res) @ '' points '' @ [CHR 0xE2, CHR 0x86, CHR 0x92] @ '' '' @ show_nat (length (rr_Events res))
             @ '' events (deterministic='' @ (if det then ''true'' else ''false'') @ '')''] @ map event_line (rr_Events res))"

definition replay_args ::
  "go_lib \<Rightarrow> (string set \<Rightarrow> string list) \<Rightarrow> (string \<Rightarrow> string \<Rightarrow> event \<Rightarrow> 'd \<Rightarrow> go_error option \<times> 'd) \<Rightarrow> (telemetry list \<Rightarrow> telemetry list)
    \<Rightarrow> flag_parsers \<Rightarrow> 'r replay_env \<Rightarrow> string list \<Rightarrow> (nat \<Rightarrow> clocks) \<Rightarrow> (nat \<Rightarrow> clocks) \<Rightarrow> time \<Rightarrow> time \<Rightarrow> 'd \<Rightarrow> nat \<times> string list" where
  "replay_args L ord disp srt F E args clks clks' now1 now2 d =
     (case parse_or_exit F replay_flag_set args of
        Inl (code, msg) \<Rightarrow> (code, [msg])
      | Inr fs \<Rightarrow>
          (let f = replay_flags_of fs; out = runReplay L ord disp srt E f clks clks' now1 now2 d
           in (exit_code out, replay_lines f out)))"

definition usage :: "string list" where
  "usage =
     [''usage: tide <doctor|simulate|replay> [flags]'',
      ''  doctor    --config tide.yaml   check postgres/redis/nats + schema version'',
      ''  simulate  --vehicles N --scenario mixed   (full FleetSim lands in Phase 8; Phase 0 emits a connection probe)'']"

text \<open>The binary \<open>tide-sim\<close> only prints a line.\<close>

definition tide_sim :: "nat \<times> string list" where
  "tide_sim = (0, [''tide-sim: stub '' @ [CHR 0xE2, CHR 0x80, CHR 0x94] @ '' use `tide simulate` (full simulator is Phase 8 T080-T082)''])"

text \<open>The whole program: the exit code and the printed lines of the subcommand, or the usage and 2.\<close>

definition tide_run ::
  "(string list \<Rightarrow> nat \<times> string list) \<Rightarrow> (string list \<Rightarrow> nat \<times> string list) \<Rightarrow> (string list \<Rightarrow> nat \<times> string list) \<Rightarrow> string list \<Rightarrow> nat \<times> string list" where
  "tide_run doc sim rep args =
     (case tide_main args of Doctor as \<Rightarrow> doc as | Simulate as \<Rightarrow> sim as | Replay as \<Rightarrow> rep as | Usage \<Rightarrow> (2, usage))"

subsection \<open>Spellings\<close>

text \<open>The four ways to give a flag its value: one dash or two, the value after an equals sign or as the next argument.\<close>

definition spell :: "bool \<times> bool \<Rightarrow> string \<Rightarrow> string \<Rightarrow> string list" where
  "spell sp n v = (let d = (if fst sp then ''--'' else ''-'') in if snd sp then [d @ n @ ''='' @ v] else [d @ n, v])"

definition flag_name :: "string \<Rightarrow> bool" where
  "flag_name n \<longleftrightarrow> n \<noteq> [] \<and> hd n \<noteq> CHR ''-'' \<and> CHR ''='' \<notin> set n"

definition no_flag :: "string list \<Rightarrow> bool" where
  "no_flag rest \<longleftrightarrow> (case rest of [] \<Rightarrow> True | s # _ \<Rightarrow> length s < 2 \<or> hd s \<noteq> CHR ''-'')"

lemma upto_equals_append: "CHR ''='' \<notin> set n \<Longrightarrow> upto_equals (n @ CHR ''='' # v) = (n, Some v)"
  by (induction n) auto

lemma upto_equals_none: "CHR ''='' \<notin> set n \<Longrightarrow> upto_equals n = (n, None)"
  by (induction n) auto

lemma split_flag_name:
  assumes "flag_name n"
  shows "split_flag (n @ ''='' @ v) = (n, Some v)" "split_flag n = (n, None)"
  using assms by (cases n; simp add: flag_name_def split_flag_def upto_equals_append upto_equals_none)+

lemma parseOne_spell:
  assumes "flag_name n" "formal n = Some fv" "flag_Set F fv v = Inr fv'"
  shows "parseOne F formal (spell sp n v @ rest) = FlagNext (formal(n \<mapsto> fv')) rest"
proof -
  obtain c cs where n: "n = c # cs" "c \<noteq> CHR ''-''" "c \<noteq> CHR ''=''" using assms(1) by (cases n) (auto simp: flag_name_def)
  show ?thesis
    using split_flag_name [OF assms(1)] assms(2,3) n
    by (cases "fst sp"; cases "snd sp") (simp_all add: parseOne_def spell_def)
qed

lemma parseOne_unknown:
  assumes "flag_name n" "formal n = None"
  shows "parseOne F formal (spell sp n v @ rest) \<in> {FlagHelp, FlagFail (''flag provided but not defined: -'' @ n)}"
proof -
  obtain c cs where n: "n = c # cs" "c \<noteq> CHR ''-''" "c \<noteq> CHR ''=''" using assms(1) by (cases n) (auto simp: flag_name_def)
  show ?thesis
    using split_flag_name [OF assms(1)] assms(2) n
    by (cases "fst sp"; cases "snd sp") (simp_all add: parseOne_def spell_def)
qed

lemma parseOne_stops: "no_flag rest \<Longrightarrow> parseOne F formal rest = FlagStop rest"
  by (cases rest) (simp_all add: parseOne_def no_flag_def)

text \<open>The value a flag ends up with: the last one given, else the default.\<close>

definition last_value :: "flag_parsers \<Rightarrow> flag_value \<Rightarrow> string list \<Rightarrow> flag_value" where
  "last_value F d vs = (if vs = [] then d else projr (flag_Set F d (last vs)))"

definition values_of :: "string \<Rightarrow> ((bool \<times> bool) \<times> string \<times> string) list \<Rightarrow> string list" where
  "values_of n asg = map (\<lambda>(sp, m, v). v) (filter (\<lambda>(sp, m, v). m = n) asg)"

definition settable :: "flag_parsers \<Rightarrow> flag_set \<Rightarrow> (bool \<times> bool) \<times> string \<times> string \<Rightarrow> bool" where
  "settable F formal a \<longleftrightarrow> (case a of (sp, n, v) \<Rightarrow> (case formal n of None \<Rightarrow> False | Some fv \<Rightarrow> \<not> isl (flag_Set F fv v)))"

definition arguments :: "((bool \<times> bool) \<times> string \<times> string) list \<Rightarrow> string list" where
  "arguments asg = concat (map (\<lambda>(sp, n, v). spell sp n v) asg)"

lemma flag_Set_kind: "flag_Set F d v = Inr d' \<Longrightarrow> flag_Set F d' = flag_Set F d"
  by (cases d; cases "fp_Int F v"; cases "fp_Float F v") (auto simp: flag_Set_def fun_eq_iff)

lemma settable_update:
  "formal n = Some fv \<Longrightarrow> flag_Set F fv' = flag_Set F fv \<Longrightarrow> settable F (formal(n \<mapsto> fv')) a = settable F formal a"
  by (cases a) (auto simp: settable_def)

lemma flags_Parse_arguments:
  assumes "\<forall>n \<in> dom formal. flag_name n" "\<forall>a \<in> set asg. settable F formal a" "no_flag rest"
  shows "flags_Parse F formal (arguments asg @ rest) = ((\<lambda>n. map_option (\<lambda>d. last_value F d (values_of n asg)) (formal n)), Parsed rest)"
  using assms(1,2)
proof (induction asg arbitrary: formal)
  case Nil
  then show ?case
    by (simp add: flags_Parse.simps [of F formal rest] arguments_def parseOne_stops [OF assms(3)] last_value_def values_of_def option.map_ident)
next
  case (Cons a asg)
  obtain sp n v where a: "a = (sp, n, v)" by (metis prod.collapse)
  obtain fv where fv: "formal n = Some fv" using Cons.prems(2) by (auto simp: a settable_def split: option.splits)
  then obtain fv' where set: "flag_Set F fv v = Inr fv'" using Cons.prems(2) by (cases "flag_Set F fv v") (auto simp: a settable_def)
  let ?formal = "formal(n \<mapsto> fv')"
  have "flag_name n" using Cons.prems(1) fv by blast
  then have "flags_Parse F formal (arguments (a # asg) @ rest) = flags_Parse F ?formal (arguments asg @ rest)"
    using parseOne_spell [of n formal fv F v fv' sp "arguments asg @ rest"] fv set
    by (subst flags_Parse.simps) (simp add: a arguments_def)
  also have "\<dots> = ((\<lambda>m. map_option (\<lambda>d. last_value F d (values_of m asg)) (?formal m)), Parsed rest)"
  proof (rule Cons.IH)
    show "\<forall>m \<in> dom ?formal. flag_name m" using Cons.prems(1) \<open>flag_name n\<close> by auto
    show "\<forall>a \<in> set asg. settable F ?formal a"
      using Cons.prems(2) settable_update [of formal n fv F fv'] fv flag_Set_kind [OF set] by simp
  qed
  also have "(\<lambda>m. map_option (\<lambda>d. last_value F d (values_of m asg)) (?formal m)) = (\<lambda>m. map_option (\<lambda>d. last_value F d (values_of m (a # asg))) (formal m))"
    using fv set flag_Set_kind [OF set] by (auto simp: a values_of_def last_value_def)
  finally show ?case .
qed

subsection \<open>Properties\<close>

text \<open>Every flag of the commands can be given in the four spellings, any number of times and in any order; the last value
  counts, a flag not given keeps its default, and what follows the flags is left alone. In particular a second
  \<open>--rule\<close> of \<open>replay\<close> replaces the first, although its help text says that it is repeatable.\<close>

lemma flags_take_the_last_value:
  assumes "formal \<in> {config_flag_set getenv, simulate_flag_set getenv, replay_flag_set}"
    and "\<forall>a \<in> set asg. settable F formal a" "no_flag rest"
  shows "flags_Parse F formal (arguments asg @ rest) = ((\<lambda>n. map_option (\<lambda>d. last_value F d (values_of n asg)) (formal n)), Parsed rest)"
proof (rule flags_Parse_arguments [OF _ assms(2,3)])
  show "\<forall>n \<in> dom formal. flag_name n"
    using assms(1) by (auto simp: config_flag_set_def simulate_flag_set_def replay_flag_set_def flag_name_def split: if_splits)
qed

text \<open>\<open>doctor\<close> does not notice a bad flag. A flag other than \<open>--config\<close> ends the parsing, its error is dropped, and the
  command checks the default configuration, whatever \<open>--config\<close> says after it.\<close>

lemma doctor_ignores_bad_flags:
  assumes "de_config E = None" "flag_name n" "n \<noteq> ''config''"
  shows "doctor_args F E (spell sp n v @ args) d = doctor E d"
proof -
  let ?formal = "config_flag_set (de_getenv E)"
  have "\<not> (\<exists>fs rest. parseOne F ?formal (spell sp n v @ args) = FlagNext fs rest)"
    using parseOne_unknown [OF assms(2), of ?formal F sp v args] assms(3) by (auto simp: config_flag_set_def)
  then have "fst (flags_Parse F ?formal (spell sp n v @ args)) = ?formal"
    by (subst flags_Parse.simps) (auto split: parse_step.split)
  then have E: "doctor_args F E (spell sp n v @ args) d = doctor (E\<lparr>de_config := Some (de_getenv E ''TIDE_CONFIG'')\<rparr>) d"
    by (simp add: doctor_args_def string_flag_def config_flag_set_def)
  have "loadCfg (E\<lparr>de_config := Some (de_getenv E ''TIDE_CONFIG'')\<rparr>) = loadCfg E" by (simp add: loadCfg_def assms(1))
  then show ?thesis unfolding E doctor_def by (cases "loadCfg E"; cases "de_otel E") simp_all
qed

subsection \<open>Witnesses\<close>

definition no_numbers :: flag_parsers where
  "no_numbers = \<lparr>fp_Int = (\<lambda>_. Inl ''parse error''), fp_Float = (\<lambda>_. Inl ''parse error'')\<rparr>"

lemma flags_take_the_last_value_example:
  "rf_rule (replay_flags_of (fst (flags_Parse no_numbers replay_flag_set [''--rule'', ''a.yaml'', ''-input=x'', ''--rule=b.yaml'', ''left'']))) = ''b.yaml''"
proof -
  let ?asg = "[((True, False), ''rule'', ''a.yaml''), ((False, True), ''input'', ''x''), ((True, True), ''rule'', ''b.yaml'')]"
  have "arguments ?asg @ [''left''] = [''--rule'', ''a.yaml'', ''-input=x'', ''--rule=b.yaml'', ''left'']"
    by (simp add: arguments_def spell_def)
  moreover have "\<forall>a \<in> set ?asg. settable no_numbers replay_flag_set a"
    by (simp add: settable_def replay_flag_set_def flag_Set_def)
  moreover have "no_flag [''left'']" by (simp add: no_flag_def)
  ultimately show ?thesis
    using flags_take_the_last_value [of replay_flag_set "\<lambda>_. []" ?asg no_numbers "[''left'']"]
    by (simp add: replay_flags_of_def string_flag_def replay_flag_set_def values_of_def last_value_def flag_Set_def)
qed

lemma doctor_ignores_bad_flags_example:
  "doctor_args no_numbers all_up [''--confg=prod.yaml'', ''--config'', ''prod.yaml''] [] = doctor all_up []"
proof -
  have "spell (True, True) ''confg'' ''prod.yaml'' @ [''--config'', ''prod.yaml''] = [''--confg=prod.yaml'', ''--config'', ''prod.yaml'']"
    by (simp add: spell_def)
  moreover have "flag_name ''confg''" by (simp add: flag_name_def)
  moreover have "de_config all_up = None" by (simp add: all_up_def)
  ultimately show ?thesis
    using doctor_ignores_bad_flags [of all_up "''confg''" no_numbers "(True, True)" "''prod.yaml''" "[''--config'', ''prod.yaml'']" "[]"] by simp
qed

end
