(* ===== verification/Wiring.thy ===== *)
theory Wiring
  imports Bundle Flags
begin

section \<open>The processes from start to exit (cmd/tide-api, cmd/tide-engine, internal/observability)\<close>

text \<open>
  Both binaries as state machines. A process loads its configuration, sets up tracing, builds its bundle, listens, and then
  takes whatever comes in any order: requests, messages, ticks, points, iterations of simulation runs, a signal. Objects the
  code shares by pointer (the geofence tracker and Postgres in the API) are handed over around the handler that uses
  them. A handler runs as one step. The readings of clocks and the decoders are part of an input; tracing, services, files and
  the listener are arguments.
\<close>

subsection \<open>Tracing\<close>

text \<open>The tracing library on its world \<open>'w\<close>: a new exporter, a merged resource, a provider that becomes the global one, spans.\<close>

record ('x, 's, 't, 'w) otel_api =
  ot_New :: "'w \<Rightarrow> (go_error + 'x) \<times> 'w"
  ot_Merge :: "(string \<times> string) list \<Rightarrow> go_error + 's"
  ot_Provider :: "'x \<Rightarrow> 's \<Rightarrow> 'w \<Rightarrow> 't \<times> 'w"
  ot_SetGlobal :: "'t \<Rightarrow> 'w \<Rightarrow> 'w"
  ot_Shutdown :: "'t \<Rightarrow> 'w \<Rightarrow> 'w"
  ot_Start :: "string \<Rightarrow> string \<Rightarrow> 'w \<Rightarrow> nat \<times> 'w"
  ot_End :: "nat \<Rightarrow> 'w \<Rightarrow> 'w"

definition otel_Init :: "('x, 's, 't, 'w) otel_api \<Rightarrow> string \<Rightarrow> 'w \<Rightarrow> (go_error + 't) \<times> 'w" where
  "otel_Init T service w =
     (case ot_New T w of
        (Inl err, w) \<Rightarrow> (Inl (''otel: stdout exporter: '' @ err), w)
      | (Inr ex, w) \<Rightarrow>
      (case ot_Merge T [(''service.name'', service)] of
         Inl err \<Rightarrow> (Inl (''otel: resource: '' @ err), w)
       | Inr res \<Rightarrow> (let (tp, w) = ot_Provider T ex res w in (Inr tp, ot_SetGlobal T tp w))))"

definition DummySpan :: "('x, 's, 't, 'w) otel_api \<Rightarrow> 'w \<Rightarrow> 'w" where
  "DummySpan T w = (let (sp, w) = ot_Start T ''tide/phase0'' ''tide.phase0.dummy'' w in ot_End T sp w)"

subsection \<open>The life of a process\<close>

text \<open>
  \<open>Cancelled\<close>: a signal came. \<open>Closed\<close>: the goroutine has called \<open>Shutdown\<close>, which makes \<open>ListenAndServe\<close> return at once with
  \<open>ErrServerClosed\<close>. \<open>main\<close> passes every error that \<open>runAPI\<close> or \<open>runEngine\<close> returns to \<open>log.Fatalf\<close>.
\<close>

datatype proc_phase = Listening | Cancelled | Closed | Exited nat string

datatype life = Signal | Shutdown | AcceptError go_error | Return

definition fatal :: "string \<Rightarrow> go_error \<Rightarrow> proc_phase" where
  "fatal prog err = Exited 1 (prog @ '': '' @ err)"

fun life_step :: "string \<Rightarrow> life \<Rightarrow> proc_phase \<Rightarrow> proc_phase" where
  "life_step prog Signal Listening = Cancelled"
| "life_step prog Shutdown Cancelled = Closed"
| "life_step prog (AcceptError err) Listening = fatal prog err"
| "life_step prog (AcceptError err) Cancelled = fatal prog err"
| "life_step prog Return Closed = fatal prog ''http: Server closed''"
| "life_step prog _ ph = ph"

fun exited :: "proc_phase \<Rightarrow> bool" where
  "exited (Exited _ _) = True"
| "exited _ = False"

fun accepting :: "proc_phase \<Rightarrow> bool" where
  "accepting Listening = True"
| "accepting Cancelled = True"
| "accepting _ = False"

subsection \<open>The API process\<close>

record ('d, 'g, 'r, 'b, 'n, 'c) api_proc =
  ap_srv :: "(('d, 'g, 'r, 'b, 'n) pipe \<times> event list, 'g, 'c) api_server"
  ap_jobs :: "string \<rightharpoonup> sim_job"
  ap_pending :: "api_request list"
  ap_served :: "(api_request \<times> outcome) list"
  ap_phase :: proc_phase

text \<open>What a request reads from outside while it is handled.\<close>

record 'c readings =
  rd_now :: time
  rd_now2 :: time
  rd_clock :: ingest_clock
  rd_pubs :: "nat \<Rightarrow> time"
  rd_newid :: "nat \<Rightarrow> string"
  rd_split :: "string \<Rightarrow> string option"
  rd_codec :: ingest_codec
  rd_fence :: "string \<Rightarrow> geofence option"
  rd_sims :: sim_files
  rd_upgrade :: "reply + 'c"
  rd_redirect :: "string \<Rightarrow> reply"

definition store_event :: "('g, 'q, 'r, 'k, 'b, 'n) clients \<Rightarrow> event \<Rightarrow> 'g \<Rightarrow> 'g" where
  "store_event K e g = snd (AppendEvent (cl_sql K) e g)"

text \<open>\<open>Inject\<close> inside a handler: the event goes to Postgres, and to the hub when the handler is done.\<close>

definition handler_inject ::
  "('g, 'q, 'r, 'k, 'b, 'n) clients \<Rightarrow> event \<Rightarrow> ('d, 'g, 'r, 'b, 'n) pipe \<times> event list \<Rightarrow> ('d, 'g, 'r, 'b, 'n) pipe \<times> event list" where
  "handler_inject K e = (\<lambda>(p, out). (p\<lparr>pp_pg := map_option (store_event K e) (pp_pg p)\<rparr>, out @ [e]))"

definition api_env_of ::
  "go_lib \<Rightarrow> (string set \<Rightarrow> string list) \<Rightarrow> (string \<Rightarrow> string \<Rightarrow> event \<Rightarrow> 'd \<Rightarrow> go_error option \<times> 'd) \<Rightarrow> ('g, 'q, 'r, 'k, 'b, 'n) clients \<Rightarrow> 'c readings
    \<Rightarrow> ('d, 'g, 'r, 'b, 'n) pipe \<Rightarrow> (('d, 'g, 'r, 'b, 'n) pipe \<times> event list, 'g, 'c) api_env" where
  "api_env_of L ord disp K X p0 =
     \<lparr>ae_now = rd_now X, ae_now2 = rd_now2 X, ae_splitHostPort = rd_split X,
      ae_ingest =
        \<lparr>ie_Decode = ic_Decode (rd_codec X), ie_Envelope = ic_Envelope (rd_codec X), ie_Unmarshal = ic_Unmarshal (rd_codec X),
         ie_NewID = rd_newid X, ie_received = ik_received (rd_clock X), ie_stamp = ik_stamp (rd_clock X), ie_now = ik_now (rd_clock X),
         ie_Process = (\<lambda>n t (p, out). let (res, p) = pipe_Process L ord disp K (ik_clocks (rd_clock X) n) (rd_pubs X n) t p in (res, p, out)),
         ie_Inject = handler_inject K,
         ie_AppendTelemetry = (if pp_pg p0 = None then None
           else Some (\<lambda>t (p, out). (p\<lparr>pp_pg := map_option (\<lambda>g. snd (AppendTelemetry L (cl_sql K) t g)) (pp_pg p)\<rparr>, out)))\<rparr>,
      ae_recent = map_option (\<lambda>g tn v ty. RecentEvents (cl_sql K) tn v ty 100 g) (pp_pg p0),
      ae_bus = (\<lambda>(p, out). Some (mp_bus (pp_mem p))), ae_get = (\<lambda>(p, out) v. pipe_get K v p),
      ae_addPG = (\<lambda>f ring g. AddGeofence (cl_sql K) (gf_TenantID f) (gf_ID f) (gf_Name f) ring g), ae_decodeFence = rd_fence X,
      ae_engine = (\<lambda>(p, out). fst (the (mp_rules (pp_mem p)))), ae_ord = ord, ae_sims = rd_sims X, ae_upgrade = rd_upgrade X,
      ae_redirect = rd_redirect X\<rparr>"

text \<open>The handler sees the tracker and the Postgres handle of the pipeline; a request for geofences hands them back.\<close>

definition lend :: "(('d, 'g, 'r, 'b, 'n) pipe \<times> event list, 'g, 'c) api_server \<Rightarrow> (('d, 'g, 'r, 'b, 'n) pipe \<times> event list, 'g, 'c) api_server" where
  "lend s = s\<lparr>as_fences := ((fst (as_fences s))\<lparr>gs_pg := pp_pg (fst (as_p s))\<rparr>, the (mp_geo (pp_mem (fst (as_p s)))))\<rparr>"

definition give_back ::
  "api_request \<Rightarrow> (('d, 'g, 'r, 'b, 'n) pipe \<times> event list, 'g, 'c) api_server \<Rightarrow> ('d, 'g, 'r, 'b, 'n) pipe" where
  "give_back r s =
     (let p = fst (as_p s)
      in if route_of (ar_Path r) = RGeofences
         then p\<lparr>pp_pg := gs_pg (fst (as_fences s)), pp_mem := (pp_mem p)\<lparr>mp_geo := Some (snd (as_fences s))\<rparr>\<rparr> else p)"

definition broadcast_all :: "('c \<Rightarrow> event \<Rightarrow> bool) \<Rightarrow> event list \<Rightarrow> 'c hub \<Rightarrow> 'c hub" where
  "broadcast_all write evs h = fold (Hub_Broadcast write) evs h"

definition serve_request ::
  "go_lib \<Rightarrow> (string set \<Rightarrow> string list) \<Rightarrow> (string \<Rightarrow> string \<Rightarrow> event \<Rightarrow> 'd \<Rightarrow> go_error option \<times> 'd) \<Rightarrow> ('g, 'q, 'r, 'k, 'b, 'n) clients
    \<Rightarrow> ('c \<Rightarrow> event \<Rightarrow> bool) \<Rightarrow> 'c readings \<Rightarrow> api_request \<Rightarrow> ('d, 'g, 'r, 'b, 'n, 'c) api_proc \<Rightarrow> outcome \<times> ('d, 'g, 'r, 'b, 'n, 'c) api_proc" where
  "serve_request L ord disp K write X r a =
     (let s = lend (ap_srv a);
          (res, s) = Handler (api_env_of L ord disp K X (fst (as_p s))) r s
      in (res, a\<lparr>ap_srv := s\<lparr>as_p := (give_back r s, []), as_hub := broadcast_all write (snd (as_p s)) (as_hub s), as_started := []\<rparr>,
                 ap_jobs := fold (\<lambda>(i, j) m. m(i \<mapsto> j)) (as_started s) (ap_jobs a)\<rparr>))"

text \<open>A message of the subscription, a tick of the bus health, an iteration of a simulation run.\<close>

definition server_inject ::
  "('g, 'q, 'r, 'k, 'b, 'n) clients \<Rightarrow> ('c \<Rightarrow> event \<Rightarrow> bool) \<Rightarrow> event \<Rightarrow> (('d, 'g, 'r, 'b, 'n) pipe \<times> event list, 'g, 'c) api_server
    \<Rightarrow> (('d, 'g, 'r, 'b, 'n) pipe \<times> event list, 'g, 'c) api_server" where
  "server_inject K write e s =
     (let (p, out) = as_p s; (h, pg) = Inject write (store_event K) e (as_hub s, pp_pg p)
      in s\<lparr>as_p := (p\<lparr>pp_pg := pg\<rparr>, out), as_hub := h\<rparr>)"

definition api_message ::
  "('g, 'q, 'r, 'k, 'b, 'n) clients \<Rightarrow> ('c \<Rightarrow> event \<Rightarrow> bool) \<Rightarrow> time \<Rightarrow> string \<Rightarrow> ('d, 'g, 'r, 'b, 'n, 'c) api_proc \<Rightarrow> ('d, 'g, 'r, 'b, 'n, 'c) api_proc" where
  "api_message K write now raw a =
     (if pp_link (fst (as_p (ap_srv a))) = None then a
      else let (reg, s) = forward (tp_unmarshal (cl_nats K)) (server_inject K write) now raw (as_registry (ap_srv a), ap_srv a)
           in a\<lparr>ap_srv := s\<lparr>as_registry := reg\<rparr>\<rparr>)"

definition api_bus_tick :: "time \<Rightarrow> ('d, 'g, 'r, 'b, 'n, 'c) api_proc \<Rightarrow> ('d, 'g, 'r, 'b, 'n, 'c) api_proc" where
  "api_bus_tick now a =
     (case pp_link (fst (as_p (ap_srv a))) of
        None \<Rightarrow> a
      | Some rb \<Rightarrow> a\<lparr>ap_srv := (ap_srv a)\<lparr>as_registry := bus_health now rb (as_registry (ap_srv a))\<rparr>\<rparr>)"

record 'z sim_readings =
  sx_rng :: "'z rng"
  sx_duration :: "string \<Rightarrow> duration option"
  sx_now :: time
  sx_clocks :: clocks
  sx_pub :: time

definition api_sim ::
  "go_lib \<Rightarrow> (string set \<Rightarrow> string list) \<Rightarrow> (string \<Rightarrow> string \<Rightarrow> event \<Rightarrow> 'd \<Rightarrow> go_error option \<times> 'd) \<Rightarrow> ('g, 'q, 'r, 'k, 'b, 'n) clients
    \<Rightarrow> ('c \<Rightarrow> event \<Rightarrow> bool) \<Rightarrow> 'z sim_readings \<Rightarrow> string \<Rightarrow> ('d, 'g, 'r, 'b, 'n, 'c) api_proc \<Rightarrow> ('d, 'g, 'r, 'b, 'n, 'c) api_proc" where
  "api_sim L ord disp K write Y i a =
     (let s = ap_srv a;
          E = \<lparr>se_Lib = L, se_Rng = sx_rng Y, se_ParseDuration = sx_duration Y,
               se_Process = (\<lambda>t (p, out). let (res, p) = pipe_Process L ord disp K (sx_clocks Y) (sx_pub Y) t p in (res, p, out)),
               se_Inject = handler_inject K, se_now = sx_now Y\<rparr>;
          w = job_step E i \<lparr>sw_reg = as_sims s, sw_jobs = ap_jobs a, sw_p = as_p s\<rparr>
      in a\<lparr>ap_srv := s\<lparr>as_sims := sw_reg w, as_p := (fst (sw_p w), []), as_hub := broadcast_all write (snd (sw_p w)) (as_hub s)\<rparr>,
           ap_jobs := sw_jobs w\<rparr>)"

datatype ('c, 'z) api_input =
    Accept api_request
  | Handle nat "'c readings"
  | StreamEnd 'c
  | Message time string
  | BusTick time
  | SimStep string "'z sim_readings"
  | ApiLife life

definition api_step ::
  "go_lib \<Rightarrow> (string set \<Rightarrow> string list) \<Rightarrow> (string \<Rightarrow> string \<Rightarrow> event \<Rightarrow> 'd \<Rightarrow> go_error option \<times> 'd) \<Rightarrow> ('g, 'q, 'r, 'k, 'b, 'n) clients
    \<Rightarrow> ('c \<Rightarrow> event \<Rightarrow> bool) \<Rightarrow> ('c, 'z) api_input \<Rightarrow> ('d, 'g, 'r, 'b, 'n, 'c) api_proc \<Rightarrow> ('d, 'g, 'r, 'b, 'n, 'c) api_proc" where
  "api_step L ord disp K write x a =
     (if exited (ap_phase a) then a
      else case x of
        Accept r \<Rightarrow> if accepting (ap_phase a) then a\<lparr>ap_pending := ap_pending a @ [r]\<rparr> else a
      | Handle i X \<Rightarrow>
          if i < length (ap_pending a)
          then (let r = ap_pending a ! i; (res, a) = serve_request L ord disp K write X r a
                in a\<lparr>ap_pending := take i (ap_pending a) @ drop (Suc i) (ap_pending a), ap_served := ap_served a @ [(r, res)]\<rparr>)
          else a
      | StreamEnd c \<Rightarrow> a\<lparr>ap_srv := stream_closed c (ap_srv a)\<rparr>
      | Message now raw \<Rightarrow> api_message K write now raw a
      | BusTick now \<Rightarrow> api_bus_tick now a
      | SimStep i Y \<Rightarrow> api_sim L ord disp K write Y i a
      | ApiLife l \<Rightarrow> a\<lparr>ap_phase := life_step ''tide-api'' l (ap_phase a)\<rparr>)"

text \<open>
  What a process starts from: its arguments and environment, the files, the answers of the services, the states of the
  outside world, and whether listening on the address succeeds.
\<close>

record ('g, 'b, 'd, 'r, 'n) launch =
  la_args :: "string list"
  la_flags :: flag_parsers
  la_files :: boot_files
  la_configFile :: "string \<Rightarrow> go_error + string"
  la_yaml :: "string \<Rightarrow> config \<Rightarrow> go_error + config"
  la_services :: "config \<Rightarrow> ('g, 'b) services"
  la_dispatcher :: 'd
  la_redis :: 'r
  la_net :: 'n
  la_listen :: "string \<Rightarrow> go_error option"

definition NewAdapterRegistry :: adapter_registry where
  "NewAdapterRegistry = Map.empty"

definition NewGeofenceStore :: "'g option \<Rightarrow> 'g geofence_store" where
  "NewGeofenceStore pg = \<lparr>gs_fences = [], gs_pg = pg\<rparr>"

text \<open>\<open>runAPI\<close> up to the point where the server listens.\<close>

definition runAPI ::
  "('x, 's, 't, 'w) otel_api \<Rightarrow> ('g, 'b, 'd, 'r, 'n) launch \<Rightarrow> config \<Rightarrow> 'w \<Rightarrow> (go_error + ('d, 'g, 'r, 'b, 'n, 'c) api_proc) \<times> 'w" where
  "runAPI T A cfg w =
     (case otel_Init T ''tide-api'' w of
        (Inl err, w) \<Rightarrow> (Inl err, w)
      | (Inr tp, w) \<Rightarrow>
          (let b = Build (la_files A) (la_services A cfg);
               p = start_pipe b (la_dispatcher A) (la_redis A) (la_net A);
               srv = server_New (rateLimiterFromEnv (bf_getenv (la_files A))) (p, []) (NewGeofenceStore (bd_PG b), bd_Geo b) (Some NewAdapterRegistry)
           in case la_listen A ('':'' @ show_int (cf_APIPort cfg)) of
                Some err \<Rightarrow> (Inl err, ot_Shutdown T tp w)
              | None \<Rightarrow> (Inr \<lparr>ap_srv = srv, ap_jobs = Map.empty, ap_pending = [], ap_served = [], ap_phase = Listening\<rparr>, w)))"

text \<open>\<open>main\<close> from its arguments: the flags, the configuration, then \<open>run\<close>; an error ends the process.\<close>

definition main_start ::
  "string \<Rightarrow> ('g, 'b, 'd, 'r, 'n) launch \<Rightarrow> (config \<Rightarrow> 'w \<Rightarrow> (go_error + 'p) \<times> 'w) \<Rightarrow> 'w \<Rightarrow> (proc_phase + 'p) \<times> 'w" where
  "main_start prog A run w =
     (case parse_or_exit (la_flags A) (config_flag_set (bf_getenv (la_files A))) (la_args A) of
        Inl (code, msg) \<Rightarrow> (Inl (Exited code msg), w)
      | Inr fs \<Rightarrow>
      (case config_Load (bf_getenv (la_files A)) (la_configFile A) (la_yaml A) (string_flag fs ''config'') of
         Inl err \<Rightarrow> (Inl (fatal prog err), w)
       | Inr cfg \<Rightarrow> (case run cfg w of (Inl err, w) \<Rightarrow> (Inl (fatal prog err), w) | (Inr p, w) \<Rightarrow> (Inr p, w))))"

definition api_main ::
  "('x, 's, 't, 'w) otel_api \<Rightarrow> ('g, 'b, 'd, 'r, 'n) launch \<Rightarrow> 'w \<Rightarrow> (proc_phase + ('d, 'g, 'r, 'b, 'n, 'c) api_proc) \<times> 'w" where
  "api_main T A = main_start ''tide-api'' A (runAPI T A)"

text \<open>Everything the API process does: the inputs after the start, in the order they happen.\<close>

definition api_run ::
  "go_lib \<Rightarrow> (string set \<Rightarrow> string list) \<Rightarrow> (string \<Rightarrow> string \<Rightarrow> event \<Rightarrow> 'd \<Rightarrow> go_error option \<times> 'd) \<Rightarrow> ('g, 'q, 'r, 'k, 'b, 'n) clients
    \<Rightarrow> ('c \<Rightarrow> event \<Rightarrow> bool) \<Rightarrow> ('c, 'z) api_input list \<Rightarrow> ('d, 'g, 'r, 'b, 'n, 'c) api_proc \<Rightarrow> ('d, 'g, 'r, 'b, 'n, 'c) api_proc" where
  "api_run L ord disp K write xs a = fold (api_step L ord disp K write) xs a"

subsection \<open>The engine process\<close>

record ('d, 'g, 'r, 'b, 'n) engine_proc =
  ep_pipe :: "('d, 'g, 'r, 'b, 'n) pipe"
  ep_regs :: "reg_adapter list"
  ep_probes :: "(string \<times> reply) list"
  ep_phase :: proc_phase

text \<open>The mux of the engine has two routes; \<open>redirect\<close> is the reply to a path that is not clean.\<close>

definition engine_mux :: "(string \<Rightarrow> reply) \<Rightarrow> string \<Rightarrow> reply" where
  "engine_mux redirect path =
     (if cleanPath path \<noteq> path then redirect (cleanPath path)
      else if path = ''/healthz'' then text_reply ''ok'' else if path = ''/readyz'' then text_reply ''ready'' else http_Error ''404 page not found'' 404)"

text \<open>A point that source \<open>i\<close> emits, a tick (the sweep, then the heartbeats), a source whose state changes on its own, a request.\<close>

datatype engine_input = Emit nat clocks time telemetry | Tick time time | SourceChanged nat adapter_source | Probe "string \<Rightarrow> reply" string | EngineLife life

definition engine_emits ::
  "go_lib \<Rightarrow> (string set \<Rightarrow> string list) \<Rightarrow> (string \<Rightarrow> string \<Rightarrow> event \<Rightarrow> 'd \<Rightarrow> go_error option \<times> 'd) \<Rightarrow> ('g, 'q, 'r, 'k, 'b, 'n) clients
    \<Rightarrow> nat \<Rightarrow> clocks \<Rightarrow> time \<Rightarrow> telemetry \<Rightarrow> ('d, 'g, 'r, 'b, 'n) engine_proc \<Rightarrow> ('d, 'g, 'r, 'b, 'n) engine_proc" where
  "engine_emits L ord disp K i clk now t a =
     (let (err, n, p) = emitting (pipe_Process L ord disp K clk now) t (rg_count (ep_regs a ! i), ep_pipe a)
      in a\<lparr>ep_pipe := p, ep_regs := (ep_regs a)[i := (ep_regs a ! i)\<lparr>rg_count := n\<rparr>]\<rparr>)"

definition engine_ticks ::
  "(string set \<Rightarrow> string list) \<Rightarrow> ('g, 'q, 'r, 'k, 'b, 'n) clients \<Rightarrow> time \<Rightarrow> time \<Rightarrow> ('d, 'g, 'r, 'b, 'n) engine_proc \<Rightarrow> ('d, 'g, 'r, 'b, 'n) engine_proc" where
  "engine_ticks ord K now now2 a =
     (let p = sweep (Some (pipe_list K ord)) (pipe_get K) (pipe_set K) (pipe_publish K now2) now (ep_pipe a)
      in a\<lparr>ep_pipe := engine_heartbeat now now2 (pipe_publish K now2) (ep_regs a) p\<rparr>)"

definition engine_step ::
  "go_lib \<Rightarrow> (string set \<Rightarrow> string list) \<Rightarrow> (string \<Rightarrow> string \<Rightarrow> event \<Rightarrow> 'd \<Rightarrow> go_error option \<times> 'd) \<Rightarrow> ('g, 'q, 'r, 'k, 'b, 'n) clients
    \<Rightarrow> engine_input \<Rightarrow> ('d, 'g, 'r, 'b, 'n) engine_proc \<Rightarrow> ('d, 'g, 'r, 'b, 'n) engine_proc" where
  "engine_step L ord disp K x a =
     (if exited (ep_phase a) then a
      else case x of
        Emit i clk now t \<Rightarrow> if i < length (ep_regs a) then engine_emits L ord disp K i clk now t a else a
      | Tick now now2 \<Rightarrow> engine_ticks ord K now now2 a
      | SourceChanged i src \<Rightarrow> a\<lparr>ep_regs := (ep_regs a)[i := (ep_regs a ! i)\<lparr>rg_src := src\<rparr>]\<rparr>
      | Probe redirect path \<Rightarrow> a\<lparr>ep_probes := ep_probes a @ [(path, engine_mux redirect path)]\<rparr>
      | EngineLife l \<Rightarrow> a\<lparr>ep_phase := life_step ''tide-engine'' l (ep_phase a)\<rparr>)"

definition runEngine ::
  "('x, 's, 't, 'w) otel_api \<Rightarrow> ('g, 'b, 'd, 'r, 'n) launch \<Rightarrow> reg_adapter list \<Rightarrow> config \<Rightarrow> 'w \<Rightarrow> (go_error + ('d, 'g, 'r, 'b, 'n) engine_proc) \<times> 'w" where
  "runEngine T A regs cfg w =
     (case otel_Init T ''tide-engine'' w of
        (Inl err, w) \<Rightarrow> (Inl err, w)
      | (Inr tp, w) \<Rightarrow>
          (let b = Build (la_files A) (la_services A cfg);
               p = start_pipe b (la_dispatcher A) (la_redis A) (la_net A)
           in case la_listen A ('':'' @ show_int (cf_EnginePort cfg)) of
                Some err \<Rightarrow> (Inl err, ot_Shutdown T tp w)
              | None \<Rightarrow> (Inr \<lparr>ep_pipe = p, ep_regs = regs, ep_probes = [], ep_phase = Listening\<rparr>, w)))"

text \<open>The sources are those of \<open>Configure\<close>.\<close>

definition engine_main ::
  "('x, 's, 't, 'w) otel_api \<Rightarrow> ('g, 'b, 'd, 'r, 'n) launch \<Rightarrow> (string \<Rightarrow> go_error + mapping_config) \<Rightarrow> (string \<Rightarrow> string) \<Rightarrow> time \<Rightarrow> 'w
    \<Rightarrow> (proc_phase + ('d, 'g, 'r, 'b, 'n) engine_proc) \<times> 'w" where
  "engine_main T A mapping base64 now =
     main_start ''tide-engine'' A (runEngine T A (Configure (bf_getenv (la_files A)) (bf_readFile (la_files A)) mapping base64 now))"

definition engine_run ::
  "go_lib \<Rightarrow> (string set \<Rightarrow> string list) \<Rightarrow> (string \<Rightarrow> string \<Rightarrow> event \<Rightarrow> 'd \<Rightarrow> go_error option \<times> 'd) \<Rightarrow> ('g, 'q, 'r, 'k, 'b, 'n) clients
    \<Rightarrow> engine_input list \<Rightarrow> ('d, 'g, 'r, 'b, 'n) engine_proc \<Rightarrow> ('d, 'g, 'r, 'b, 'n) engine_proc" where
  "engine_run L ord disp K xs a = fold (engine_step L ord disp K) xs a"

subsection \<open>What handlers and runs keep\<close>

lemma fold_keeps: "(\<And>e p. I p \<Longrightarrow> I (f e p)) \<Longrightarrow> I p \<Longrightarrow> I (fold f es p)"
  by (induction es arbitrary: p) simp_all

lemma ingest_loop_keeps:
  assumes "\<And>n t p. I p \<Longrightarrow> I (snd (ie_Process E n t p))" "\<And>e p. I p \<Longrightarrow> I (ie_Inject E e p)"
    and "\<And>app t p. ie_AppendTelemetry E = Some app \<Longrightarrow> I p \<Longrightarrow> I (app t p)"
  shows "I p \<Longrightarrow> I (snd (ingest_loop E n raws k m p))"
proof (induction raws arbitrary: n k m p)
  case (Cons raw raws)
  show ?case
  proof (cases "ie_Unmarshal E raw")
    case (Inr t)
    let ?t = "stamp_point E n t"
    obtain evs dup err q where pr: "ie_Process E n ?t p = ((evs, dup, err), q)" by (metis prod.collapse)
    have q: "I q" using assms(1) [OF Cons.prems, of n ?t] by (simp add: pr)
    have inj: "I (fold (ie_Inject E) es q)" for es using assms(2) q by (rule fold_keeps [of I])
    have fin: "I (if dup then fold (ie_Inject E) evs q else case ie_AppendTelemetry E of None \<Rightarrow> fold (ie_Inject E) evs q | Some app \<Rightarrow> app ?t (fold (ie_Inject E) evs q))"
      using inj assms(3) by (auto split: option.split)
    show ?thesis
      using Cons.prems q inj Cons.IH [OF fin] by (cases "ie_AppendTelemetry E"; cases dup) (auto simp: Inr pr Let_def split: option.split process_error.split)
  qed (use Cons.prems in simp)
qed simp

lemma handleIngest_keeps:
  assumes "\<And>n t p. I p \<Longrightarrow> I (snd (ie_Process E n t p))" "\<And>e p. I p \<Longrightarrow> I (ie_Inject E e p)"
    and "\<And>app t p. ie_AppendTelemetry E = Some app \<Longrightarrow> I p \<Longrightarrow> I (app t p)"
    and "I p"
  shows "I (snd (handleIngest E meth b p))"
proof -
  have "I (snd (ingest_loop E 0 raws 0 0 p))" for raws using assms by (rule ingest_loop_keeps [of I])
  with assms(4) show ?thesis by (auto simp: handleIngest_def Let_def split: option.split)
qed

lemma job_step_keeps:
  assumes "\<And>t p. I p \<Longrightarrow> I (snd (se_Process E t p))" "\<And>e p. I p \<Longrightarrow> I (se_Inject E e p)" "I (sw_p w)"
  shows "I (sw_p (job_step E i w))"
proof (cases "sw_jobs w i")
  case (Some j)
  show ?thesis
  proof (cases j)
    case (Looping pts)
    show ?thesis
    proof (cases pts)
      case (Cons pt rest)
      let ?pt = "pt\<lparr>tel_ProcessedAt := se_now E\<rparr>"
      obtain evs dup err q where pr: "se_Process E ?pt (sw_p w) = ((evs, dup, err), q)" by (metis prod.collapse)
      have q: "I q" using assms(1) [OF assms(3), of ?pt] by (simp add: pr)
      have "I (fold (se_Inject E) es q)" for es using assms(2) q by (rule fold_keeps [of I])
      then show ?thesis using q assms(3)
        by (auto simp: job_step_def Some Looping Cons pr go_on_def end_run_def split: option.split process_error.split)
    qed (simp add: job_step_def Some Looping end_run_def assms(3))
  qed (simp add: job_step_def Some go_on_def assms(3) Let_def)
qed (simp add: job_step_def assms(3))

lemma limited_p:
  assumes "I (as_p s)" "I (as_p (snd (handler r s)))"
  shows "I (as_p (snd (limited E handler r s)))"
  using assms by (auto simp: limited_def limiter_middleware_def case_prod_beta Let_def split: option.split bool.split)

lemma mux_p:
  assumes "I (as_p s)" "route_of (ar_Path r) = RIngest \<Longrightarrow> I (snd (handleIngest (ae_ingest E) (ar_Method r) (ar_Body r) (as_p s)))"
  shows "I (as_p (snd (mux E r s)))"
proof (cases "route_of (ar_Path r)")
  case RIngest
  have "I (as_p (snd (serve_ingest E r s)))" using assms(2) [OF RIngest] by (simp add: serve_ingest_def case_prod_beta)
  with limited_p [of I s "serve_ingest E" r E] assms(1) show ?thesis by (simp add: mux_def RIngest)
next
  case RSimulate
  have "I (as_p (snd (serve_simulate E r s)))" using assms(1) by (simp add: serve_simulate_def case_prod_beta Let_def)
  with limited_p [of I s "serve_simulate E" r E] assms(1) show ?thesis by (simp add: mux_def RSimulate)
qed (use assms(1) in \<open>auto simp: mux_def handleStream_def case_prod_beta Let_def split: sum.split\<close>)

lemma Handler_state: "snd (Handler E r s) = s \<or> snd (Handler E r s) = snd (mux E r s)"
  by (auto simp: Handler_def securityHeaders_def denyTrace_def case_prod_beta Let_def)

text \<open>A step of the pipeline that changes neither the fences nor which services are in use.\<close>

definition keeps :: "('d, 'g, 'r, 'b, 'n) pipe \<Rightarrow> ('d, 'g, 'r, 'b, 'n) pipe \<Rightarrow> bool" where
  "keeps p p' \<longleftrightarrow> (\<forall>fs a b c. kept fs a b c p \<longrightarrow> kept fs a b c p')"

lemma keeps_refl [simp]: "keeps p p"
  by (simp add: keeps_def)

lemma keeps_process: "keeps p q \<Longrightarrow> keeps p (snd (pipe_Process L ord disp K clk now t q))"
  by (simp add: keeps_def pipe_Process_keeps)

lemma keeps_pg: "keeps p q \<Longrightarrow> keeps p (q\<lparr>pp_pg := map_option f (pp_pg q)\<rparr>)"
  by (auto simp: keeps_def kept_def)

lemma keeps_inject: "keeps p (fst x) \<Longrightarrow> keeps p (fst (handler_inject K e x))"
  by (simp add: handler_inject_def case_prod_beta keeps_pg)

lemma keeps_tracker:
  assumes "keeps p p'" "mp_geo (pp_mem p) = Some tr"
  obtains tr' where "mp_geo (pp_mem p') = Some tr'" "gt_fences tr' = gt_fences tr" "(pp_pg p' = None) = (pp_pg p = None)"
proof -
  have "kept (gt_fences tr) (pp_onRedis p) (pp_pg p = None) (pp_link p = None) p" using assms(2) by (simp add: kept_def)
  then have "kept (gt_fences tr) (pp_onRedis p) (pp_pg p = None) (pp_link p = None) p'" using assms(1) by (simp add: keeps_def)
  then show thesis using that by (auto simp: kept_def)
qed

subsection \<open>The fences of the API process\<close>

text \<open>The active fences are the first ones of the list, and all of them without Postgres.\<close>

definition agree :: "geofence list \<Rightarrow> bool \<Rightarrow> geo_tracker \<Rightarrow> bool" where
  "agree listed memory tr \<longleftrightarrow> (\<exists>n. gt_fences tr = take n listed) \<and> (memory \<longrightarrow> gt_fences tr = listed)"

definition fences_ok :: "geofence list \<Rightarrow> ('d, 'g, 'r, 'b, 'n) pipe \<Rightarrow> bool" where
  "fences_ok listed p \<longleftrightarrow> (\<exists>tr. mp_geo (pp_mem p) = Some tr \<and> agree listed (pp_pg p = None) tr)"

lemma fences_ok_keeps: "fences_ok listed p \<Longrightarrow> keeps p p' \<Longrightarrow> fences_ok listed p'"
  unfolding fences_ok_def agree_def by (metis keeps_tracker)

lemma handleGeofences_agree:
  assumes "agree (gs_fences (fst st)) (gs_pg (fst st) = None) (snd st)" "handleGeofences addPG decode meth b st = (rep, gs, tr)"
  shows "agree (gs_fences gs) (gs_pg gs = None) tr \<and> (gs_pg gs = None) = (gs_pg (fst st) = None)"
proof (cases "meth = ''POST''")
  case True
  show ?thesis
  proof (cases "decode b")
    case (Some f)
    obtain err gs' where add: "GeofenceStore_Add addPG f (fst st) = (err, gs')" by fastforce
    have gs': "gs' = fst st \<and> err \<noteq> None \<or> gs_fences gs' = gs_fences (fst st) @ [f] \<and> (gs_pg gs' = None) = (gs_pg (fst st) = None) \<and> (gs_pg gs' = None \<longrightarrow> err = None)"
      using add by (auto simp: GeofenceStore_Add_def Let_def split: if_splits option.splits prod.splits)
    show ?thesis
    proof (cases err)
      case None
      then have "gs = gs'" "tr = SetFences (gs_fences gs') (snd st)"
        using assms(2) True Some add by (auto simp: handleGeofences_def GeofenceStore_List_def case_prod_beta Let_def)
      with gs' None show ?thesis by (auto simp: agree_def SetFences_def intro: exI [of _ "length (gs_fences gs')"])
    next
      case (Some e)
      then have "gs = gs'" "tr = snd st"
        using assms(2) True \<open>decode b = Some f\<close> add by (auto simp: handleGeofences_def case_prod_beta Let_def)
      moreover obtain n where "gt_fences (snd st) = take n (gs_fences (fst st))" using assms(1) by (auto simp: agree_def)
      then have "gt_fences (snd st) = take (min n (length (gs_fences (fst st)))) (gs_fences (fst st) @ [f])" by (simp add: min_def)
      ultimately show ?thesis using gs'
      proof (elim disjE)
        assume same: "gs' = fst st \<and> err \<noteq> None"
        then show ?thesis using assms(1) \<open>gs = gs'\<close> \<open>tr = snd st\<close> by simp
      next
        assume more: "gs_fences gs' = gs_fences (fst st) @ [f] \<and> (gs_pg gs' = None) = (gs_pg (fst st) = None) \<and> (gs_pg gs' = None \<longrightarrow> err = None)"
        then have "gs_pg gs' \<noteq> None" using Some by auto
        then show ?thesis using more \<open>gs = gs'\<close> \<open>tr = snd st\<close> \<open>gt_fences (snd st) = take (min n (length (gs_fences (fst st)))) (gs_fences (fst st) @ [f])\<close>
          unfolding agree_def by metis
      qed
    qed
  qed (use assms True in \<open>auto simp: handleGeofences_def case_prod_beta Let_def\<close>)
qed (use assms in \<open>auto simp: handleGeofences_def case_prod_beta Let_def split: if_splits\<close>)

lemma env_ingest_keeps:
  assumes "keeps p (fst x)"
  shows "keeps p (fst (snd (handleIngest (ae_ingest (api_env_of L ord disp K X p0)) meth b x)))"
proof (rule handleIngest_keeps [where I = "\<lambda>x. keeps p (fst x)"])
  show "keeps p (fst (snd (ie_Process (ae_ingest (api_env_of L ord disp K X p0)) n t y)))" if "keeps p (fst y)" for n t y
    using keeps_process [OF that] by (simp add: api_env_of_def case_prod_beta Let_def)
  show "keeps p (fst (ie_Inject (ae_ingest (api_env_of L ord disp K X p0)) e y))" if "keeps p (fst y)" for e y
    using keeps_inject [OF that] by (simp add: api_env_of_def)
  show "keeps p (fst (app t y))" if "ie_AppendTelemetry (ae_ingest (api_env_of L ord disp K X p0)) = Some app" "keeps p (fst y)" for app t y
    using keeps_pg [OF that(2)] that(1) by (auto simp: api_env_of_def case_prod_beta split: if_splits)
qed (rule assms)

text \<open>What the handler leaves: on the route of the geofences the list and the tracker agree and the pipeline is the same; on
  every other route the fences are the same and the pipeline is kept.\<close>

lemma Handler_contained: "within_route E r s (snd (Handler E r s))"
  using Handler_state [of E r s] mux_contained [of E r s "fst (mux E r s)" "snd (mux E r s)"] contained_refl [of E r s]
  by (metis prod.collapse)

lemma Handler_fences:
  assumes "route_of (ar_Path r) = RGeofences" "agree (gs_fences (fst (as_fences s))) (gs_pg (fst (as_fences s)) = None) (snd (as_fences s))"
  shows "let f = as_fences (snd (Handler E r s))
    in agree (gs_fences (fst f)) (gs_pg (fst f) = None) (snd f) \<and> (gs_pg (fst f) = None) = (gs_pg (fst (as_fences s)) = None)"
proof (cases "snd (Handler E r s) = s")
  case False
  then have "snd (Handler E r s) = snd (mux E r s)" using Handler_state [of E r s] by simp
  then have "as_fences (snd (Handler E r s)) = snd (handleGeofences (ae_addPG E) (ae_decodeFence E) (ar_Method r) (ar_Body r) (as_fences s))"
    by (simp add: mux_def assms(1) case_prod_beta)
  then show ?thesis using handleGeofences_agree [OF assms(2), of "ae_addPG E" "ae_decodeFence E" "ar_Method r" "ar_Body r"]
    by (metis prod.collapse)
qed (use assms(2) in simp)

lemma Handler_keeps: "keeps (fst (as_p s)) (fst (as_p (snd (Handler (api_env_of L ord disp K X p0) r s))))"
proof -
  let ?E = "api_env_of L ord disp K X p0"
  have "keeps (fst (as_p s)) (fst (as_p (snd (mux ?E r s))))"
    by (rule mux_p [where I = "\<lambda>x. keeps (fst (as_p s)) (fst x)"]) (simp_all add: env_ingest_keeps)
  then show ?thesis using Handler_state [of ?E r s] by auto
qed

lemma serve_fences:
  assumes ok: "fences_ok (gs_fences (fst (as_fences (ap_srv a)))) (fst (as_p (ap_srv a)))"
    and served: "serve_request L ord disp K write X r a = (res, a')"
  shows "fences_ok (gs_fences (fst (as_fences (ap_srv a')))) (fst (as_p (ap_srv a')))"
proof -
  define s where "s = lend (ap_srv a)"
  let ?p = "fst (as_p (ap_srv a))" and ?E = "api_env_of L ord disp K X (fst (as_p s))"
  define s' where "s' = snd (Handler ?E r s)"
  have a': "fst (as_p (ap_srv a')) = give_back r s'" "as_fences (ap_srv a') = as_fences s'"
    using served by (auto simp: serve_request_def s_def s'_def case_prod_beta Let_def)
  obtain tr where tr: "mp_geo (pp_mem ?p) = Some tr" "agree (gs_fences (fst (as_fences (ap_srv a)))) (pp_pg ?p = None) tr"
    using ok by (auto simp: fences_ok_def)
  have s: "as_p s = as_p (ap_srv a)" "snd (as_fences s) = tr" "gs_fences (fst (as_fences s)) = gs_fences (fst (as_fences (ap_srv a)))" "gs_pg (fst (as_fences s)) = pp_pg ?p"
    using tr(1) by (simp_all add: s_def lend_def)
  show ?thesis
  proof (cases "route_of (ar_Path r) = RGeofences")
    case True
    then show ?thesis using Handler_fences [OF True, of s ?E] tr(2) s by (auto simp: a' s'_def fences_ok_def give_back_def Let_def)
  next
    case False
    then have "as_fences s' = as_fences s" using Handler_contained [of ?E r s] by (auto simp: within_route_def s'_def)
    moreover have "keeps ?p (fst (as_p s'))" using Handler_keeps [of s L ord disp K X "fst (as_p s)" r] by (simp add: s'_def s(1))
    ultimately show ?thesis using fences_ok_keeps [OF ok] False by (simp add: a' s(3) give_back_def Let_def)
  qed
qed

definition api_fences_ok :: "('d, 'g, 'r, 'b, 'n, 'c) api_proc \<Rightarrow> bool" where
  "api_fences_ok a \<longleftrightarrow> fences_ok (gs_fences (fst (as_fences (ap_srv a)))) (fst (as_p (ap_srv a)))"

lemma api_keeps_ok:
  "api_fences_ok a \<Longrightarrow> as_fences (ap_srv a') = as_fences (ap_srv a) \<Longrightarrow> keeps (fst (as_p (ap_srv a))) (fst (as_p (ap_srv a'))) \<Longrightarrow> api_fences_ok a'"
  by (simp add: api_fences_ok_def fences_ok_keeps)

lemma api_sim_ok:
  assumes "api_fences_ok a"
  shows "api_fences_ok (api_sim L ord disp K write Y i a)"
proof (rule api_keeps_ok [OF assms])
  let ?p = "fst (as_p (ap_srv a))"
  have "keeps ?p (fst (sw_p (job_step \<lparr>se_Lib = L, se_Rng = sx_rng Y, se_ParseDuration = sx_duration Y,
      se_Process = (\<lambda>t (p, out). let (res, p) = pipe_Process L ord disp K (sx_clocks Y) (sx_pub Y) t p in (res, p, out)),
      se_Inject = handler_inject K, se_now = sx_now Y\<rparr> i \<lparr>sw_reg = as_sims (ap_srv a), sw_jobs = ap_jobs a, sw_p = as_p (ap_srv a)\<rparr>)))"
    by (rule job_step_keeps [where I = "\<lambda>x. keeps ?p (fst x)"]) (simp_all add: keeps_process keeps_inject case_prod_beta Let_def)
  then show "keeps ?p (fst (as_p (ap_srv (api_sim L ord disp K write Y i a))))" by (simp add: api_sim_def Let_def)
qed (simp add: api_sim_def Let_def)

lemma api_message_ok:
  assumes "api_fences_ok a"
  shows "api_fences_ok (api_message K write now raw a)"
proof (rule api_keeps_ok [OF assms])
  have inj: "as_fences (server_inject K write e s) = as_fences s" "keeps (fst (as_p s)) (fst (as_p (server_inject K write e s)))" for e s
    using keeps_pg [of "fst (as_p s)" "fst (as_p s)" "store_event K e"]
    by (auto simp: server_inject_def Inject_def case_prod_beta Let_def map_option_case)
  show "as_fences (ap_srv (api_message K write now raw a)) = as_fences (ap_srv a)"
    by (auto simp: api_message_def forward_def inj(1) case_prod_beta Let_def split: sum.split)
  show "keeps (fst (as_p (ap_srv a))) (fst (as_p (ap_srv (api_message K write now raw a))))"
    by (auto simp: api_message_def forward_def inj(2) case_prod_beta Let_def split: sum.split)
qed

lemma api_step_ok:
  assumes "api_fences_ok a"
  shows "api_fences_ok (api_step L ord disp K write x a)"
proof (cases "exited (ap_phase a)")
  case False
  then show ?thesis
  proof (cases x)
    case (Handle i X)
    obtain res a' where s: "serve_request L ord disp K write X (ap_pending a ! i) a = (res, a')" by fastforce
    then have "api_fences_ok a'" using serve_fences assms unfolding api_fences_ok_def by blast
    then have "api_fences_ok (a'\<lparr>ap_pending := ps, ap_served := qs\<rparr>)" for ps qs by (simp add: api_fences_ok_def)
    then show ?thesis using assms False by (simp add: api_step_def Handle s Let_def)
  next
    case (Message now raw)
    then show ?thesis using False api_message_ok [OF assms] by (simp add: api_step_def)
  next
    case (SimStep i Y)
    then show ?thesis using False api_sim_ok [OF assms] by (simp add: api_step_def)
  qed (use assms False in \<open>auto simp: api_step_def api_fences_ok_def stream_closed_def api_bus_tick_def split: option.split\<close>)
qed (simp add: api_step_def assms)

lemma api_run_ok: "api_fences_ok a \<Longrightarrow> api_fences_ok (api_run L ord disp K write xs a)"
  by (induction xs arbitrary: a) (simp_all add: api_run_def api_step_ok)

lemma main_start_run: "main_start prog A run w = (Inr p, w') \<Longrightarrow> \<exists>cfg w0. run cfg w0 = (Inr p, w')"
  by (auto simp: main_start_def split: sum.splits prod.splits)

lemma api_start_ok:
  assumes "api_main T A w = (Inr a, w')"
  shows "api_fences_ok a"
proof -
  obtain cfg w0 where "runAPI T A cfg w0 = (Inr a, w')" using main_start_run assms unfolding api_main_def by metis
  then show ?thesis
    by (auto simp: runAPI_def api_fences_ok_def fences_ok_def agree_def start_pipe_def server_New_def NewGeofenceStore_def Build_def NewGeoTracker_def Let_def
        split: sum.splits prod.splits option.splits)
qed

subsection \<open>The fences of the engine process\<close>

lemma keeps_trans: "keeps p q \<Longrightarrow> keeps q r \<Longrightarrow> keeps p r"
  by (simp add: keeps_def)

lemma keeps_publish: "keeps p q \<Longrightarrow> keeps p (snd (pipe_publish K now e q))"
  by (simp add: keeps_def pipe_publish_keeps)

lemma keeps_set: "keeps p q \<Longrightarrow> keeps p (snd (pipe_set K s q))"
  by (simp add: keeps_def pipe_set_keeps)

lemma keeps_foldl: "(\<And>q x. keeps p q \<Longrightarrow> keeps p (f q x)) \<Longrightarrow> keeps p q \<Longrightarrow> keeps p (foldl f q xs)"
  by (induction xs arbitrary: q) simp_all

lemma keeps_sweep: "keeps p (sweep (Some (pipe_list K ord)) (pipe_get K) (pipe_set K) (pipe_publish K now2) now p)"
proof -
  have "keeps p (foldl (sweep_one (pipe_get K) (pipe_set K) (pipe_publish K now2) now) p ids)" for ids
    by (rule keeps_foldl) (auto simp: sweep_one_def keeps_publish keeps_set split: prod.split option.split)
  then show ?thesis by (auto simp: sweep_def split: prod.split option.split)
qed

lemma keeps_heartbeat: "keeps p q \<Longrightarrow> keeps p (engine_heartbeat now now2 (pipe_publish K now3) regs q)"
  unfolding engine_heartbeat_def Heartbeats_def by (rule keeps_foldl) (simp_all add: keeps_publish Let_def)

lemma engine_step_keeps: "keeps (ep_pipe a) (ep_pipe (engine_step L ord disp K x a))"
proof (cases "exited (ep_phase a)")
  case False
  show ?thesis
  proof (cases x)
    case (Emit i clk now t)
    have "keeps (ep_pipe a) (snd (pipe_Process L ord disp K clk now t (ep_pipe a)))" by (rule keeps_process) simp
    then show ?thesis using False
      by (auto simp: engine_step_def Emit engine_emits_def emitting_def Let_def split: prod.split option.split)
  next
    case (Tick now now2)
    then show ?thesis using False keeps_heartbeat [OF keeps_sweep] by (simp add: engine_step_def engine_ticks_def Let_def)
  qed (use False in \<open>simp_all add: engine_step_def\<close>)
qed (simp add: engine_step_def)

lemma engine_run_keeps: "keeps (ep_pipe a) (ep_pipe (engine_run L ord disp K xs a))"
proof (induction xs arbitrary: a)
  case (Cons x xs)
  show ?case using keeps_trans [OF engine_step_keeps Cons] by (simp add: engine_run_def)
qed (simp add: engine_run_def)

lemma no_fences_no_events: "gt_fences tr = [] \<Longrightarrow> snd (Evaluate t tr) = []"
  by (simp add: Evaluate_def CandidateFilter_def Let_def)

subsection \<open>The end of a process\<close>

fun only_failure :: "proc_phase \<Rightarrow> bool" where
  "only_failure (Exited code _) \<longleftrightarrow> code = 1"
| "only_failure _ \<longleftrightarrow> True"

lemma life_step_failure: "only_failure ph \<Longrightarrow> only_failure (life_step prog l ph)"
  by (cases "(prog, l, ph)" rule: life_step.cases) (simp_all add: fatal_def)

lemma api_step_phase:
  "ap_phase (api_step L ord disp K write x a) = (case x of ApiLife l \<Rightarrow> if exited (ap_phase a) then ap_phase a else life_step ''tide-api'' l (ap_phase a) | _ \<Rightarrow> ap_phase a)"
  by (auto simp: api_step_def serve_request_def api_message_def api_bus_tick_def api_sim_def case_prod_beta Let_def split: api_input.split option.split)

lemma api_run_failure: "only_failure (ap_phase a) \<Longrightarrow> only_failure (ap_phase (api_run L ord disp K write xs a))"
proof (induction xs arbitrary: a)
  case (Cons x xs)
  have "only_failure (ap_phase (api_step L ord disp K write x a))"
    using Cons.prems by (auto simp: api_step_phase life_step_failure split: api_input.split)
  with Cons.IH [of "api_step L ord disp K write x a"] show ?case by (simp add: api_run_def)
qed (simp add: api_run_def)

lemma api_run_exited: "exited (ap_phase a) \<Longrightarrow> api_run L ord disp K write xs a = a"
  by (induction xs) (simp_all add: api_run_def api_step_def)

lemma engine_run_failure: "only_failure (ep_phase a) \<Longrightarrow> only_failure (ep_phase (engine_run L ord disp K xs a))"
proof (induction xs arbitrary: a)
  case (Cons x xs)
  have "ep_phase (engine_step L ord disp K x a) = (case x of EngineLife l \<Rightarrow> if exited (ep_phase a) then ep_phase a else life_step ''tide-engine'' l (ep_phase a) | _ \<Rightarrow> ep_phase a)"
    by (auto simp: engine_step_def engine_emits_def engine_ticks_def case_prod_beta Let_def split: engine_input.split)
  then have "only_failure (ep_phase (engine_step L ord disp K x a))" using Cons.prems by (auto simp: life_step_failure split: engine_input.splits)
  with Cons.IH [of "engine_step L ord disp K x a"] show ?case by (simp add: engine_run_def)
qed (simp add: engine_run_def)

lemma started_listening:
  "api_main T A w = (Inr a, w') \<Longrightarrow> ap_phase a = Listening"
  "engine_main T A mapping base64 now w = (Inr b, w') \<Longrightarrow> ep_phase b = Listening"
  by (auto simp: api_main_def engine_main_def runAPI_def runEngine_def Let_def dest!: main_start_run split: prod.splits sum.splits option.splits)

lemma api_shutdown:
  assumes "ap_phase a = Listening"
  shows "api_run L ord disp K write (ApiLife Signal # ApiLife Shutdown # ApiLife Return # ys) a = a\<lparr>ap_phase := Exited 1 ''tide-api: http: Server closed''\<rparr>"
proof -
  let ?b = "a\<lparr>ap_phase := Exited 1 ''tide-api: http: Server closed''\<rparr>"
  have "api_run L ord disp K write (ApiLife Signal # ApiLife Shutdown # ApiLife Return # ys) a = api_run L ord disp K write ys ?b"
    using assms by (simp add: api_run_def api_step_def fatal_def)
  then show ?thesis by (simp add: api_run_exited)
qed

subsection \<open>Concurrent requests for geofences\<close>

text \<open>
  The handler of a valid request in the steps that other requests can come between: \<open>Add\<close> and \<open>List\<close> each hold the mutex of
  the store, \<open>SetFences\<close> the one of the tracker, and nothing holds both.
\<close>

datatype fence_phase = FDecoded geofence | FAdded | FListed "geofence list" | FReplied reply

definition fence_step ::
  "(geofence \<Rightarrow> (float64 \<times> float64) list \<Rightarrow> 'g \<Rightarrow> go_error option \<times> 'g) \<Rightarrow> fence_phase \<Rightarrow> 'g geofence_store \<times> geo_tracker
    \<Rightarrow> fence_phase \<times> 'g geofence_store \<times> geo_tracker" where
  "fence_step addPG ph st =
     (let (gs, tr) = st
      in case ph of
           FDecoded f \<Rightarrow> (case GeofenceStore_Add addPG f gs of (Some err, gs) \<Rightarrow> (FReplied (http_Error err 422), gs, tr) | (None, gs) \<Rightarrow> (FAdded, gs, tr))
         | FAdded \<Rightarrow> (FListed (GeofenceStore_List gs), gs, tr)
         | FListed fs \<Rightarrow> (FReplied \<lparr>ry_Status = 201, ry_Header = [], ry_Body = EmptyBody\<rparr>, gs, SetFences fs tr)
         | FReplied rep \<Rightarrow> (FReplied rep, gs, tr))"

text \<open>A schedule names the request that takes the next step.\<close>

fun fence_sched ::
  "(geofence \<Rightarrow> (float64 \<times> float64) list \<Rightarrow> 'g \<Rightarrow> go_error option \<times> 'g) \<Rightarrow> nat list \<Rightarrow> fence_phase list \<Rightarrow> 'g geofence_store \<times> geo_tracker
    \<Rightarrow> fence_phase list \<times> 'g geofence_store \<times> geo_tracker" where
  "fence_sched addPG [] phs st = (phs, st)"
| "fence_sched addPG (i # is) phs st = (let (ph, st) = fence_step addPG (phs ! i) st in fence_sched addPG is (phs[i := ph]) st)"

lemma fence_sched_alone:
  assumes "decode b = Some f"
  shows "fence_sched addPG [0, 0, 0] [FDecoded f] st = (let (rep, st) = handleGeofences addPG decode ''POST'' b st in ([FReplied rep], st))"
  using assms by (cases "GeofenceStore_Add addPG f (fst st)"; cases "fst (GeofenceStore_Add addPG f (fst st))")
    (auto simp: fence_step_def handleGeofences_def case_prod_beta Let_def)

subsection \<open>Properties\<close>


text \<open>C33: Two requests that create geofences at the same time can lose one. When the second adds its fence after the first has
  read the list, and the first writes its list to the tracker last, both are answered with 201 and both fences are
  listed, but only the first is evaluated.\<close>

theorem concurrent_fence_lost:
  assumes "\<forall>x \<in> {f, g}. gf_ID x \<noteq> [] \<and> gf_TenantID x \<noteq> [] \<and> 3 \<le> length (gf_Polygon x)"
  shows "\<exists>gs tr. fence_sched addPG [0, 0, 1, 1, 1, 0] [FDecoded f, FDecoded g] (NewGeofenceStore None, NewGeoTracker [])
      = (replicate 2 (FReplied \<lparr>ry_Status = 201, ry_Header = [], ry_Body = EmptyBody\<rparr>), gs, tr)
    \<and> GeofenceStore_List gs = [f, g] \<and> gt_fences tr = [f]"
  using assms
  by (simp add: fence_step_def GeofenceStore_Add_def GeofenceStore_List_def NewGeofenceStore_def NewGeoTracker_def SetFences_def Let_def not_less
      numeral_2_eq_2)

text \<open>C39: Geofences do nothing for points from upstream sources. At every moment of every run of the engine process the tracker of
  its pipeline has no fence, so no point of any source enters or leaves one, whatever fences the API has.\<close>

theorem engine_has_no_fences:
  assumes "engine_main T A mapping base64 now w = (Inr a, w')"
  shows "\<exists>tr. mp_geo (pp_mem (ep_pipe (engine_run L ord disp K xs a))) = Some tr \<and> gt_fences tr = [] \<and> snd (Evaluate t tr) = []"
proof -
  obtain cfg w0 regs where "runEngine T A regs cfg w0 = (Inr a, w')" using main_start_run assms unfolding engine_main_def by metis
  then have "mp_geo (pp_mem (ep_pipe a)) = Some (NewGeoTracker [])"
    by (auto simp: runEngine_def start_pipe_def Build_def Let_def split: sum.splits prod.splits option.splits)
  from keeps_tracker [OF engine_run_keeps this, of L ord disp K xs] show ?thesis
    using no_fences_no_events by (metis NewGeoTracker_def geo_tracker.select_convs(1))
qed


subsection \<open>Witnesses\<close>

text \<open>A process with no flags, no environment and no service.\<close>

definition quiet_otel :: "(unit, unit, unit, unit) otel_api" where
  "quiet_otel = \<lparr>ot_New = (\<lambda>w. (Inr (), w)), ot_Merge = (\<lambda>_. Inr ()), ot_Provider = (\<lambda>_ _ w. ((), w)), ot_SetGlobal = (\<lambda>_ w. w),
     ot_Shutdown = (\<lambda>_ w. w), ot_Start = (\<lambda>_ _ w. (0, w)), ot_End = (\<lambda>_ w. w)\<rparr>"

definition bare_launch :: "(unit, unit, unit, unit, unit) launch" where
  "bare_launch = \<lparr>la_args = [], la_flags = no_numbers,
     la_files = \<lparr>bf_getenv = (\<lambda>_. []), bf_glob = (\<lambda>_ _. []), bf_readFile = (\<lambda>_. Inl ''no file''), bf_yaml = (\<lambda>_. Inl ''no rule''), bf_clock = (\<lambda>_. 0)\<rparr>,
     la_configFile = (\<lambda>_. Inl ''no file''), la_yaml = (\<lambda>_ c. Inr c),
     la_services = (\<lambda>_. \<lparr>sv_Open = Inl ''down'', sv_ApplyPending = ([], None), sv_RedisGet = (\<lambda>_. ((zero_vehicle_state, False), Some ''down'')), sv_NATS = Inl ''down''\<rparr>),
     la_dispatcher = (), la_redis = (), la_net = (), la_listen = (\<lambda>_. None)\<rparr>"

definition bare_api :: "(unit, unit, unit, unit, unit, unit) api_proc" where
  "bare_api = (let b = Build (la_files bare_launch) (la_services bare_launch config_Defaults)
     in \<lparr>ap_srv = server_New None (start_pipe b () () (), []) (NewGeofenceStore (bd_PG b), bd_Geo b) (Some NewAdapterRegistry), ap_jobs = Map.empty,
         ap_pending = [], ap_served = [], ap_phase = Listening\<rparr>)"

definition bare_engine :: "(unit, unit, unit, unit, unit) engine_proc" where
  "bare_engine = \<lparr>ep_pipe = start_pipe (Build (la_files bare_launch) (la_services bare_launch config_Defaults)) () () (), ep_regs = [], ep_probes = [],
     ep_phase = Listening\<rparr>"

lemma bare_config: "config_Load (bf_getenv (la_files bare_launch)) (la_configFile bare_launch) (la_yaml bare_launch) [] = Inr config_Defaults"
  by code_simp

lemma bare_flags: "parse_or_exit no_numbers (config_flag_set (\<lambda>_. [])) [] = Inr (config_flag_set (\<lambda>_. []))"
  by (simp add: parse_or_exit_def flags_Parse.simps parseOne_def)

lemma bare_starts:
  "api_main quiet_otel bare_launch () = (Inr bare_api, ())"
  "engine_main quiet_otel bare_launch (\<lambda>_. Inl ''no mapping'') id 0 () = (Inr bare_engine, ())"
proof -
  have env: "la_args bare_launch = []" "la_flags bare_launch = no_numbers" "bf_getenv (la_files bare_launch) = (\<lambda>_. [])" "la_listen bare_launch = (\<lambda>_. None)"
    by (simp_all add: bare_launch_def)
  have cfg: "string_flag (config_flag_set (\<lambda>_. [])) ''config'' = []" by (simp add: string_flag_def config_flag_set_def)
  have run: "runAPI quiet_otel bare_launch config_Defaults () = (Inr bare_api, ())"
    by (simp add: runAPI_def otel_Init_def quiet_otel_def env bare_api_def rateLimiterFromEnv_def TrimSpace_def Let_def)
  show "api_main quiet_otel bare_launch () = (Inr bare_api, ())"
    using bare_config by (simp add: api_main_def main_start_def env bare_flags cfg run)
  show "engine_main quiet_otel bare_launch (\<lambda>_. Inl ''no mapping'') id 0 () = (Inr bare_engine, ())"
    using bare_config by (simp add: engine_main_def main_start_def env bare_flags cfg runEngine_def otel_Init_def quiet_otel_def bare_engine_def Configure_def Let_def)
qed

definition post_yard :: api_request where
  "post_yard = \<lparr>ar_Method = ''POST'', ar_Path = ''/v1/geofences'', ar_Query = (\<lambda>_. []), ar_Body = [], ar_RemoteAddr = []\<rparr>"

definition yard_readings :: "unit readings" where
  "yard_readings = \<lparr>rd_now = 0, rd_now2 = 0, rd_clock = \<lparr>ik_received = 0, ik_stamp = (\<lambda>_. 0), ik_now = (\<lambda>_. 0), ik_clocks = (\<lambda>_. clk_at 0)\<rparr>, rd_pubs = (\<lambda>_. 0),
     rd_newid = (\<lambda>_. []), rd_split = (\<lambda>_. None), rd_codec = \<lparr>ic_Decode = (\<lambda>_. None), ic_Envelope = (\<lambda>_. None), ic_Unmarshal = (\<lambda>_. Inl [])\<rparr>,
     rd_fence = (\<lambda>_. Some sample_square), rd_sims = \<lparr>sf_Decode = (\<lambda>_. None), sf_Files = (\<lambda>_. None), sf_Yaml = (\<lambda>_. Inl [])\<rparr>,
     rd_upgrade = Inr (), rd_redirect = text_reply\<rparr>"

lemma post_yard_route: "route_of (ar_Path post_yard) = RGeofences"
  by code_simp


theorem concurrent_fence_lost_witness:
  "\<exists>gs tr. fence_sched (\<lambda>_ _ g :: unit. (None, g)) [0, 0, 1, 1, 1, 0] [FDecoded sample_square, FDecoded (sample_square\<lparr>gf_ID := ''g''\<rparr>)]
      (NewGeofenceStore None, NewGeoTracker []) = (replicate 2 (FReplied \<lparr>ry_Status = 201, ry_Header = [], ry_Body = EmptyBody\<rparr>), gs, tr)
    \<and> GeofenceStore_List gs = [sample_square, sample_square\<lparr>gf_ID := ''g''\<rparr>] \<and> gt_fences tr = [sample_square]"
  by (rule concurrent_fence_lost) (simp add: sample_square_def)

theorem engine_has_no_fences_witness:
  "\<forall>K :: (unit, unit, unit, unit, unit, unit) clients. \<exists>tr. mp_geo (pp_mem (ep_pipe (engine_run plain_lib sorted_list_of_set (\<lambda>_ _ _ d. (None, d)) K [Tick 1 2] bare_engine))) = Some tr
     \<and> gt_fences tr = [] \<and> snd (Evaluate (point_at ''v'' 1 None None None) tr) = []"
  by (rule allI, rule engine_has_no_fences [OF bare_starts(2)])


end
