(* ===== verification/Spec2Isabelle.thy ===== *)
theory Spec2Isabelle
  imports Tenants Guarded Wiring
begin

text \<open>
  A verification development for TIDE, a telematics engine written in Go that turns vehicle telemetry into vehicle
  state, events and actions. This theory imports the whole library and holds the properties that span
  components.

  \<^bold>\<open>The program.\<close> Adapters and the HTTP API hand canonical telemetry points to one function, \<open>Process\<close> of
  internal/pipeline. It validates the point, refuses event times more than an hour ahead of the clock, drops points
  whose dedup key was seen in the last 24 hours, appends to a durable log, folds the point into the hot state of the
  vehicle, runs the detectors, the geofence tracker and the rule engine, and publishes their events on a bus. The
  rule engine may call webhooks, which are signed, guarded against internal targets and retried. Replay feeds
  recorded points to the same \<open>Process\<close>; \<open>RebuildFrom\<close> restores the hot state from the log.

  \<^bold>\<open>Theories and sources\<close> (paths under src/):
  \<^item> \<open>Prelude\<close>: Go strings, int64 wrap-around, decimal printing and parsing, list lemmas.
  \<^item> \<open>Floats\<close>: float64 as NaN, the infinities and rationals, with correctly rounded arithmetic; monotonicity and
    exactness of rounding.
  \<^item> \<open>GoTime\<close>: instants and durations in nanoseconds, \<open>Sub\<close> with saturation, \<open>Seconds\<close>, RFC 3339 printing; comparing
    \<open>Seconds\<close> with a whole number is exact up to \<open>2 ^ 23\<close> seconds, and a printed instant determines the instant.
  \<^item> \<open>GoLib\<close>: the record \<open>go_lib\<close> of library functions (JSON encoder, SHA-256, HMAC, float printing, trigonometry).
  \<^item> \<open>Telemetry\<close> (schemas/telemetry) and \<open>Events\<close> (schemas/events): the two contracts, their \<open>Validate\<close> functions, the
    dedup key and the deterministic event id.
  \<^item> \<open>Vehicle_State\<close> (internal/state): \<open>classifyMotion\<close>, \<open>Apply\<close>, \<open>CheckOffline\<close>, the memory store, \<open>RebuildFrom\<close>. The
    locale \<open>state_store\<close> is the interface Store, interpreted by the memory store.
  \<^item> \<open>Dedup\<close> (internal/dedup): \<open>Seen\<close> of both stores; locale \<open>dedup_store\<close>, interpreted by the memory store.
  \<^item> \<open>Detectors\<close> (internal/detectors): speeding, idling and trips as step functions per vehicle; locales for the shape
    of the event streams and for the dwell timers, interpreted on the detectors.
  \<^item> \<open>Geo\<close> (internal/geo): ray casting, bounding boxes, membership.
  \<^item> \<open>Ssrf\<close> and \<open>Webhooks\<close> (internal/webhooks): address predicates, URL guard, signatures, the retry loop.
  \<^item> \<open>Guarded\<close> (internal/webhooks): the guarded client with the redirect loop of \<open>http.Client\<close> on a network whose resolver may
    change its answers; the addresses a dispatch tries to connect to.
  \<^item> \<open>Rules\<close> (internal/rules): specs, publication, evaluation; the locale \<open>engine_invariant\<close> carries an invariant of the
    engine over every run and is interpreted on the hourly limit and on the cooldown.
  \<^item> \<open>Eventbus\<close> (internal/eventbus): memory, NATS, fan-out and resilient buses, the subscription loop; locale
    \<open>event_bus\<close>, interpreted by the memory bus.
  \<^item> \<open>Pipeline\<close> (internal/pipeline): \<open>Process\<close> over a record of interface operations and its in-memory instance.
  \<^item> \<open>Replay\<close> (internal/replay): \<open>Run\<close> and \<open>Compare\<close>.
  \<^item> \<open>Tenants\<close> (internal/tenants): the tenant-scoped registry.
  \<^item> \<open>Concurrent\<close> (internal/pipeline): \<open>Process\<close> cut at its effects into phases, and the interleavings of any number of
    calls as an inductive reachability relation. The locale \<open>gated_log\<close> is what makes interleaved calls log a point once; it is
    interpreted on the memory store and used for Redis in \<open>Fleet\<close>, where any number of processes share one Redis.
  \<^item> \<open>Adapters\<close>, \<open>Mqtt\<close>, \<open>Traccar\<close>, \<open>Flespi\<close>, \<open>Registry\<close> (adapters): the three normalizers, their connections and poll loops,
    configuration and heartbeats, and the offline sweep of cmd/tide-engine. The locale \<open>normalizer\<close> is what the
    pipeline relies on, interpreted by the adapters.
  \<^item> \<open>Simulator\<close> (simulator): scenarios, generation, fault injection over the random source as an argument.
  \<^item> \<open>Api\<close> (internal/api, internal/ingest): rate limiter, middleware, registries, handlers; \<open>Sim_Api\<close>: simulation runs as
    jobs whose steps interleave with requests; \<open>Serve\<close>: routing, the composed server, the messages the API process
    forwards.
  \<^item> \<open>Config\<close> (internal/config), \<open>Migrator\<close> (internal/db), \<open>Boot\<close> (internal/boot): start of the processes with every fallback,
    the dual-writing log, the rules published first. The locale \<open>process_refinement\<close> lifts a refinement of the
    interface operations to \<open>Process\<close>; it is interpreted on the pipeline with the Postgres log and used for Redis.
  \<^item> \<open>Stores\<close> (internal/store, RedisStore of internal/state): Redis commands and SQL statements with what the code makes of
    their answers.
  \<^item> \<open>Cli\<close> (cmd/tide, internal/health): health checks, doctor, upload of simulated points, replay; \<open>Flags\<close>: package flag as the
    commands use it, their flag sets, and the commands from arguments to exit code and output.
  \<^item> \<open>System\<close> (cmd/tide-engine, cmd/tide-api): the two processes with the fan-out buses \<open>Build\<close> gives them, as one system over
    NATS. Its steps are a point or a tick in the engine, a point of a request in the API, and a delivery to the API's
    subscription; \<open>sys_reach\<close> is their reachability. NATS is the record \<open>transport\<close>; \<open>broker_ok\<close>, \<open>broker_up\<close> and \<open>outage\<close> say what
    is assumed of it, and a list as broker shows that it can hold.
  \<^item> \<open>Bundle\<close> (internal/boot): the pipeline \<open>Build\<close> puts together, with every choice of Redis, Postgres and NATS. The locale
    \<open>process_invariant\<close> carries what every interface operation keeps to \<open>Process\<close>.
  \<^item> \<open>Wiring\<close> (cmd/tide-api, cmd/tide-engine, internal/observability): both binaries from arguments to exit. A running process is
    a record and takes one input at a time (\<open>api_input\<close>, \<open>engine_input\<close>): requests, messages, ticks, points, iterations of
    simulation runs, signals.

  \<^bold>\<open>How code becomes definitions.\<close> A struct is a record, a Go map a partial function, a slice a list, a pointer field an
  option, an error the option of its message. A method takes its receiver last and returns it updated; a mutex
  makes a call one step. What the code reads from outside is an argument: clock readings (\<open>clocks\<close> has the four of one
  \<open>Process\<close> call), the order in which a map is ranged over (\<open>ord\<close>, with \<open>enumerates ord\<close> as the promise that every key
  comes once), the algorithm of \<open>sort.Slice\<close> (\<open>sorts\<close>), the resolver and URL parser (\<open>net_env\<close>), the HTTP client, the
  NATS client, decoders. Theorems that do not name a law of such an argument hold for all of its values.

  \<^bold>\<open>What is shown.\<close> Processing is idempotent, also when calls interleave, and replay is deterministic; the hot state can be
  rebuilt from the log, in any order of the log; re-posting an accepted batch or re-polling a source is harmless;
  rules respect their hourly limit and cooldown and published versions never change; detector and fence events form
  well-shaped streams; membership is containment; dispatches are accounted for once and accepted URLs are public;
  tenants do not see each other's entries. A Postgres outage does not reach the pipeline, and Redis in place of memory
  changes no result; the event explorer returns what was appended; migrations resume where they stopped; only
  well-formed configurations are loaded; the API changes each part of its state on its own routes only; connections show
  the health of the sources; simulation runs are accounted for and end; the sweep marks exactly the silent vehicles.
  The fences that act on points are those that are listed. A point sent to several processes that share Redis is
  logged once. A dispatch connects to public addresses only, as long as the resolver is steady. Across the processes every event arrives at most once and in order, and exactly once while NATS is up.
  Several theorems state where the code falls short: trip distances carry over, a retry after a publish error is
  absorbed, a lost reply of Redis loses the point, concurrent updates of one vehicle or concurrent new fences can be
  lost, a NATS outage ends polling for good, the API injects its own events twice, a resolver that
  changes its answer gets a webhook to a private address, the engine never has a fence, and no process ends with
  success. Further lemmas show the same kind of thing without being listed: one bad position ends polling, an outage cuts off
  the events of a point, rules in a replay follow the wall clock, doctor ignores bad flags.

  \<^bold>\<open>Bounds.\<close> No definition needs fuel: loops are structural recursions or have a termination measure. Durations of
  detectors and cooldowns are assumed at most \<open>2 ^ 23\<close> seconds (97 days) where \<open>Seconds\<close> is compared, since beyond
  that the float64 result may round; cadences at most 3074457345 seconds, beyond which int64 overflows.

  \<^bold>\<open>Not modelled.\<close> The client libraries of Redis, Postgres, NATS, MQTT and HTTP, the tracing library, JSON and YAML: they are
  arguments, with their documented behaviour as hypotheses where a property needs it. Log lines. What an HTTP server does
  below the handler: a listener is a function that may fail, a request is handled as one step. Expiry of dedup keys in
  Redis. Data races inside one method are excluded where the code holds a mutex; the counters of a simulation run,
  which it updates without one, are modelled as atomic. With these, every operation of the program has a definition.
\<close>

section \<open>Properties that span components\<close>

subsection \<open>Recovery of the hot state\<close>

text \<open>Everything of a stored state but the wall-clock field.\<close>

definition unstamped :: "vehicle_state \<Rightarrow> vehicle_state" where
  "unstamped s = s\<lparr>vs_UpdatedAt := 0\<rparr>"

lemma unstamped_Apply:
  assumes "unstamped s = unstamped s'"
  shows "unstamped (fst (Apply now s t)) = unstamped (fst (Apply now' s' t))"
proof -
  have "Apply now s t = Apply now (unstamped s) t" for now s
    by (simp add: unstamped_def Apply_prev_UpdatedAt)
  then have "fst (Apply now s t) = (fst (Apply now' s' t))\<lparr>vs_UpdatedAt := now\<rparr>"
    using assms Apply_now [of now "unstamped s" t now'] by metis
  then show ?thesis by (simp add: unstamped_def)
qed

text \<open>The states of a pipeline are the fold of its log, vehicle by vehicle, in arrival order.\<close>

definition states_fold_log :: "(telemetry \<Rightarrow> time) \<Rightarrow> 'd mem_pipeline \<Rightarrow> bool" where
  "states_fold_log clk p \<longleftrightarrow> (\<forall>v. let pts = filter (\<lambda>t. tel_VehicleID t = v) (mp_log p)
     in map_option unstamped (mp_states p v) =
        (if pts = [] then None else Some (unstamped (Apply_all clk zero_vehicle_state pts))))"

lemma states_fold_step:
  assumes "states_fold_log clk p"
  shows "states_fold_log clk (snd (mem_Process L ord disp ck t p))"
proof (cases "accepted ck t \<and> \<not> duplicate L ck t p")
  case True
  let ?v = "tel_VehicleID t" and ?p = "snd (mem_Process L ord disp ck t p)"
  have p': "mp_log ?p = mp_log p @ [t]"
      "mp_states ?p = (mp_states p)(?v \<mapsto> fst (Apply (ck_apply ck) (state_of p ?v) t))"
    using mem_Process_fresh_result [OF _ _ refl refl, of ck t L p ord disp] True by (simp_all add: ingested_def)
  have "unstamped (state_of p ?v) = unstamped (Apply_all clk zero_vehicle_state (filter (\<lambda>t. tel_VehicleID t = ?v) (mp_log p)))"
    using assms unfolding states_fold_log_def Let_def by (auto simp: state_of_def split: option.splits if_splits dest: spec [of _ ?v])
  note step = unstamped_Apply [OF this, of "ck_apply ck" t "clk t"]
  show ?thesis unfolding states_fold_log_def
  proof (rule allI)
    fix v
    show "let pts = filter (\<lambda>t. tel_VehicleID t = v) (mp_log ?p)
      in map_option unstamped (mp_states ?p v) =
         (if pts = [] then None else Some (unstamped (Apply_all clk zero_vehicle_state pts)))"
      using assms [unfolded states_fold_log_def Let_def, THEN spec, of v] step unfolding p' Let_def by (cases "?v = v") simp_all
  qed
next
  case False
  then have "snd (mem_Process L ord disp ck t p) = p"
    using mem_Process_duplicate [of ck t L p ord disp] mem_Process_rejected [of ck t L ord disp p] by (cases "accepted ck t") auto
  with assms show ?thesis by simp
qed

lemma states_fold_run: "states_fold_log clk p \<Longrightarrow> states_fold_log clk (snd (mem_run L ord disp cts p))"
proof (induction cts arbitrary: p)
  case (Cons ct cts)
  then show ?case using states_fold_step [OF Cons.prems, of L ord disp "fst ct" "snd ct"] by (simp add: case_prod_beta Let_def)
qed simp

subsection \<open>Properties\<close>

text \<open>C6: The hot state is disposable. After any run of the pipeline whose logged points arrived in event-time
  order vehicle by vehicle, \<open>RebuildFrom\<close> on the durable log and an empty store succeeds and gives back the
  live state of every vehicle, up to the wall-clock field \<open>UpdatedAt\<close>, for every map order and clock.\<close>

theorem recovery_rebuilds_live_state:
  assumes "p = snd (mem_run L ord disp cts NewTestPipeline)" "enumerates ord'"
    and "\<And>v. sorted (map tel_Timestamp (filter (\<lambda>t. tel_VehicleID t = v) (mp_log p)))"
  shows "\<exists>m. RebuildFrom clk ord' MemoryStore_Set NewMemoryStore (mp_log p) = (None, m)
    \<and> (\<forall>v. map_option unstamped (m v) = map_option unstamped (mp_states p v))"
proof -
  have f: "states_fold_log clk p"
    unfolding assms(1) by (rule states_fold_run) (simp add: states_fold_log_def NewTestPipeline_start)
  have "map_option unstamped (if v \<in> tel_VehicleID ` set (mp_log p)
      then Some (rebuild_one clk v (filter (\<lambda>t. tel_VehicleID t = v) (mp_log p))) else NewMemoryStore v)
    = map_option unstamped (mp_states p v)" for v
  proof -
    define pts where "pts = filter (\<lambda>t. tel_VehicleID t = v) (mp_log p)"
    have "rebuild_one clk v pts = Apply_all clk zero_vehicle_state pts" if "pts \<noteq> []"
    proof -
      have "tel_VehicleID (last pts) = v" using that last_in_set [OF that] by (simp add: pts_def)
      then show ?thesis
        using assms(3) [of v] Apply_all_last(1) [OF that, of clk zero_vehicle_state]
        by (simp add: rebuild_one_sort sort_key_id_if_sorted pts_def [symmetric])
    qed
    moreover have "pts \<noteq> [] \<longleftrightarrow> v \<in> tel_VehicleID ` set (mp_log p)" by (auto simp: pts_def filter_empty_conv)
    ultimately show ?thesis
      using f by (auto simp: states_fold_log_def Let_def pts_def [symmetric] NewMemoryStore_def)
  qed
  then show ?thesis using RebuildFrom_memory [OF assms(2)] by auto
qed

theorem recovery_rebuilds_live_state_witness:
  "let p = snd (mem_run plain_lib sorted_list_of_set (\<lambda>_ _ _ d. (None, d)) [(clk_at 5, point_at ''v'' 1 (Some (Fin 50)) None None)]
      (NewTestPipeline :: unit mem_pipeline))
   in \<exists>m. RebuildFrom (\<lambda>_. 9) sorted_list_of_set MemoryStore_Set NewMemoryStore (mp_log p) = (None, m)
      \<and> map_option unstamped (m ''v'') = map_option unstamped (mp_states p ''v'') \<and> mp_log p \<noteq> []"
proof -
  let ?t = "point_at ''v'' 1 (Some (Fin 50)) None None"
  let ?p = "snd (mem_run plain_lib sorted_list_of_set (\<lambda>_ _ _ d. (None, d)) [(clk_at 5, ?t)] (NewTestPipeline :: unit mem_pipeline))"
  have a: "accepted (clk_at 5) ?t" by (simp add: accepted_def point_at_valid clk_at_def MaxFutureSkew_def) (simp add: point_at_simps)
  have d: "\<not> duplicate plain_lib (clk_at 5) ?t (NewTestPipeline :: unit mem_pipeline)"
    by (simp add: duplicate_def NewTestPipeline_start MemoryStore_Seen_def)
  have l: "mp_log ?p = [?t]"
    using mem_Process_fresh_result [OF a d refl refl, of sorted_list_of_set "\<lambda>_ _ _ d. (None, d)"]
    by (simp add: case_prod_beta Let_def NewTestPipeline_start)
  then have s: "sorted (map tel_Timestamp (filter (\<lambda>t. tel_VehicleID t = v) (mp_log ?p)))" for v by simp
  from recovery_rebuilds_live_state [OF refl enumerates_sorted s, of "\<lambda>_. 9"] l show ?thesis by (auto simp: Let_def)
qed

end
